(* ===== verification/Prelude.thy ===== *)
theory Prelude
  imports Complex_Main "HOL-Library.Word" "HOL-Library.Finite_Map"
begin

text \<open>
  Shared vocabulary of the development: the Rust integer operations the sources use
  (\<open>saturating_add\<close>, \<open>saturating_mul\<close> at their width), the whitespace test behind
  \<open>str::trim().is_empty()\<close>, the "edit every row, remember whether anything moved" loop
  that the task reducer is written in, and generic facts on lists and finite maps.

  Conventions. A Rust \<open>String\<close> is the list of its UTF-8 bytes (\<^typ>\<open>string\<close>), so
  \<open>len()\<close> is \<^const>\<open>length\<close>. A \<open>u64\<close> that is only copied, compared or advanced by one
  per operation is a \<^typ>\<open>nat\<close>; where a source operation saturates or truncates at its
  width the value is a word.
\<close>

section \<open>Collections of facts\<close>

named_theorems row_defs \<open>definitions of the per-row edits\<close>
named_theorems wire_simps \<open>wire spellings and their inverses\<close>
named_theorems svc_defs \<open>service operations, unfolded together\<close>

section \<open>Machine integers\<close>

type_synonym u8 = "8 word"
type_synonym u32 = "32 word"
type_synonym u64 = "64 word"

definition saturating_add :: "'a::len word \<Rightarrow> 'a word \<Rightarrow> 'a word" where
  "saturating_add a b = (if unat a + unat b < 2 ^ LENGTH('a) then a + b else - 1)"

definition saturating_mul :: "'a::len word \<Rightarrow> 'a word \<Rightarrow> 'a word" where
  "saturating_mul a b = (if unat a * unat b < 2 ^ LENGTH('a) then a * b else - 1)"

lemma unat_max_word [simp]: "unat (- 1 :: 'a::len word) = 2 ^ LENGTH('a) - 1"
  by (simp add: unsigned_minus_1_eq_mask mask_eq_exp_minus_1)

lemma unat_saturating_add:
  "unat (saturating_add a (b :: 'a::len word)) = min (unat a + unat b) (2 ^ LENGTH('a) - 1)"
proof (cases "unat a + unat b < 2 ^ LENGTH('a)")
  case True
  then show ?thesis by (simp add: saturating_add_def unat_word_ariths)
next
  case False
  then have "2 ^ LENGTH('a) - 1 \<le> unat a + unat b" by simp
  with False show ?thesis by (simp add: saturating_add_def min_absorb2)
qed

lemma unat_saturating_mul:
  "unat (saturating_mul a (b :: 'a::len word)) = min (unat a * unat b) (2 ^ LENGTH('a) - 1)"
proof (cases "unat a * unat b < 2 ^ LENGTH('a)")
  case True
  then have "unat a * unat b \<le> 2 ^ LENGTH('a) - 1" by simp
  with True show ?thesis by (simp add: saturating_mul_def unat_word_ariths min_absorb1)
next
  case False
  then have "2 ^ LENGTH('a) - 1 \<le> unat a * unat b" by simp
  with False show ?thesis by (simp add: saturating_mul_def min_absorb2)
qed

lemma saturating_add_ge: "a \<le> saturating_add a b"
proof -
  have "unat a < 2 ^ LENGTH('a)" by (rule unsigned_less)
  then have "unat a \<le> 2 ^ LENGTH('a) - 1" by linarith
  then show ?thesis by (simp add: word_le_nat_alt unat_saturating_add)
qed

section \<open>Whitespace\<close>

text \<open>
  \<open>text.trim().is_empty()\<close>: every character is Unicode \<open>White_Space\<close>. The text is UTF-8
  bytes, so the test consumes one encoded character at a time: the ASCII blanks, U+0085 and
  U+00A0 (lead byte C2), U+1680 (E1 9A 80), U+2000..U+200A, U+2028, U+2029, U+202F, U+205F
  (lead byte E2) and U+3000 (E3 80 80).
\<close>

definition byte_of :: "char \<Rightarrow> nat" where
  "byte_of c = of_char c"

fun is_blank :: "string \<Rightarrow> bool" where
  "is_blank [] = True"
| "is_blank (a # rest) =
    (let x = byte_of a in
     if 9 \<le> x \<and> x \<le> 13 \<or> x = 32 then is_blank rest
     else case rest of
       [] \<Rightarrow> False
     | b # rest2 \<Rightarrow>
        (let y = byte_of b in
         if x = 194 \<and> (y = 133 \<or> y = 160) then is_blank rest2
         else case rest2 of
           [] \<Rightarrow> False
         | c # rest3 \<Rightarrow>
            (let z = byte_of c in
             if (x = 225 \<and> y = 154 \<and> z = 128)
              \<or> (x = 226 \<and> y = 128 \<and> (128 \<le> z \<and> z \<le> 138 \<or> z = 168 \<or> z = 169 \<or> z = 175))
              \<or> (x = 226 \<and> y = 129 \<and> z = 159)
              \<or> (x = 227 \<and> y = 128 \<and> z = 128)
             then is_blank rest3 else False)))"

text \<open>
  \<open>str::trim\<close>. \<open>blank_len\<close> is the length of the blank character a text starts with, 0 when it
  starts with none.
\<close>

definition blank_len :: "string \<Rightarrow> nat" where
  "blank_len s =
    (if s \<noteq> [] \<and> is_blank (take 1 s) then 1
     else if 2 \<le> length s \<and> is_blank (take 2 s) then 2
     else if 3 \<le> length s \<and> is_blank (take 3 s) then 3
     else 0)"

function trim_start :: "string \<Rightarrow> string" where
  "trim_start s = (if blank_len s = 0 then s else trim_start (drop (blank_len s) s))"
  by auto
termination
  by (relation "measure length") (auto simp: blank_len_def split: if_splits)

declare trim_start.simps [simp del]

fun trim_end :: "string \<Rightarrow> string" where
  "trim_end [] = []"
| "trim_end (c # cs) = (if is_blank (c # cs) then [] else c # trim_end cs)"

definition trim :: "string \<Rightarrow> string" where
  "trim s = trim_end (trim_start s)"

text \<open>A blank text begins with one of the blank characters, of one, two or three bytes.\<close>

lemma is_blank_Cons:
  obtains one :: "char \<Rightarrow> bool" and two :: "char \<Rightarrow> char \<Rightarrow> bool" and three :: "char \<Rightarrow> char \<Rightarrow> char \<Rightarrow> bool" where
    "\<forall>x s. is_blank (x # s) = (if one x then is_blank s else case s of [] \<Rightarrow> False
       | y # s \<Rightarrow> if two x y then is_blank s else case s of [] \<Rightarrow> False | z # s \<Rightarrow> three x y z \<and> is_blank s)"
proof -
  have both: "(if P then Q else False) = (P \<and> Q)" for P Q by simp
  have "is_blank (x # s) = (if 9 \<le> byte_of x \<and> byte_of x \<le> 13 \<or> byte_of x = 32 then is_blank s else case s of [] \<Rightarrow> False
       | y # s \<Rightarrow> if byte_of x = 194 \<and> (byte_of y = 133 \<or> byte_of y = 160) then is_blank s else case s of [] \<Rightarrow> False
       | z # s \<Rightarrow> ((byte_of x = 225 \<and> byte_of y = 154 \<and> byte_of z = 128)
            \<or> (byte_of x = 226 \<and> byte_of y = 128 \<and> (128 \<le> byte_of z \<and> byte_of z \<le> 138 \<or> byte_of z = 168 \<or> byte_of z = 169 \<or> byte_of z = 175))
            \<or> (byte_of x = 226 \<and> byte_of y = 129 \<and> byte_of z = 159)
            \<or> (byte_of x = 227 \<and> byte_of y = 128 \<and> byte_of z = 128)) \<and> is_blank s)" for x s
    by (subst is_blank.simps(2)) (simp only: Let_def both)
  then show thesis by (intro that allI)
qed

lemma is_blank_append:
  assumes "is_blank a" "is_blank b"
  shows "is_blank (a @ b)"
proof -
  obtain one two three where all: "\<forall>x s. is_blank (x # s) = (if one x then is_blank s else case s of [] \<Rightarrow> False
       | y # s \<Rightarrow> if two x y then is_blank s else case s of [] \<Rightarrow> False | z # s \<Rightarrow> three x y z \<and> is_blank s)"
    using is_blank_Cons .
  note eq = all [rule_format]
  show ?thesis
    using assms(1)
  proof (induction a rule: length_induct)
    case (1 a)
    then have ih: "length s < length a \<Longrightarrow> is_blank s \<Longrightarrow> is_blank (s @ b)" for s by blast
    consider "a = []" | x where "a = [x]" | x y where "a = [x, y]" | x y z s where "a = x # y # z # s"
      by (metis list.exhaust)
    then show ?case
    proof cases
      case (4 x y z s)
      with 1(2) ih [of "y # z # s"] ih [of "z # s"] ih [of s] eq [of x "y # z # s"] eq [of x "y # z # s @ b"] show ?thesis
        by (simp del: is_blank.simps(2) split: if_splits)
    qed (use 1(2) assms(2) in \<open>simp_all add: eq del: is_blank.simps(2) split: if_splits\<close>)
  qed
qed

lemma trim_end_prefix: "\<exists>ws. s = trim_end s @ ws \<and> is_blank ws"
proof (induction s)
  case (Cons c cs)
  then obtain ws where "cs = trim_end cs @ ws" "is_blank ws" by blast
  then show ?case by (cases "is_blank (c # cs)") (auto intro: exI [of _ "c # cs"])
qed (simp add: exI [of _ "[]"])

lemma trim_end_trim_end: "trim_end (trim_end s) = trim_end s"
proof (induction s)
  case (Cons c cs)
  obtain ws where "cs = trim_end cs @ ws" "is_blank ws" using trim_end_prefix by blast
  then have "is_blank (c # trim_end cs) \<Longrightarrow> is_blank (c # cs)" using is_blank_append [of "c # trim_end cs" ws] by simp
  with Cons show ?case by auto
qed simp

lemma blank_len_0: "blank_len s = 0 \<longleftrightarrow> (\<forall>k \<in> {1, 2, 3}. k \<le> length s \<longrightarrow> \<not> is_blank (take k s))"
  by (cases s) (simp_all add: blank_len_def del: is_blank.simps)

lemma blank_len_prefix: "blank_len (a @ b) = 0 \<Longrightarrow> blank_len a = 0"
  by (auto simp: blank_len_0)

lemma blank_len_trim_start: "blank_len (trim_start s) = 0"
  by (induction s rule: trim_start.induct) (subst trim_start.simps, simp)

lemma trim_trim [simp]: "trim (trim s) = trim s"
proof -
  obtain ws where "trim_start s = trim_end (trim_start s) @ ws" using trim_end_prefix by blast
  then have "blank_len (trim_end (trim_start s)) = 0" using blank_len_trim_start blank_len_prefix by metis
  then have "trim_start (trim_end (trim_start s)) = trim_end (trim_start s)" by (subst trim_start.simps) simp
  then show ?thesis by (simp add: trim_def trim_end_trim_end)
qed

text \<open>Characters that are neither blank nor part of a blank character.\<close>

definition visible :: "char \<Rightarrow> bool" where
  "visible c \<longleftrightarrow> 33 \<le> byte_of c \<and> byte_of c < 127"

lemma visible_not_blank: "visible c \<Longrightarrow> \<not> is_blank (c # s)"
  by (auto simp: visible_def Let_def split: list.splits)

lemma trim_visible: "list_all visible s \<Longrightarrow> trim s = s"
proof -
  assume s: "list_all visible s"
  then have "trim_end s = s" by (induction s) (simp_all add: visible_not_blank del: is_blank.simps)
  moreover have "blank_len s = 0"
    using s by (cases s) (auto simp: blank_len_0 take_Cons' visible_not_blank simp del: is_blank.simps)
  then have "trim_start s = s" by (subst trim_start.simps) simp
  ultimately show ?thesis by (simp add: trim_def)
qed

section \<open>Decimal numerals\<close>

text \<open>
  \<open>to_string\<close> and \<open>str::parse\<close> of an unsigned integer: an optional plus sign, then at least
  one digit, in the range of the width.
\<close>

definition digit_char :: "nat \<Rightarrow> char" where
  "digit_char d = char_of (48 + d)"

fun decimal :: "nat \<Rightarrow> string" where
  "decimal n = (if n < 10 then [digit_char n] else decimal (n div 10) @ [digit_char (n mod 10)])"

declare decimal.simps [simp del]

fun parse_digits :: "nat \<Rightarrow> string \<Rightarrow> nat option" where
  "parse_digits acc [] = Some acc"
| "parse_digits acc (c # cs) =
    (let x = byte_of c in
     if 48 \<le> x \<and> x \<le> 57 then parse_digits (acc * 10 + (x - 48)) cs else None)"

definition parse_uint :: "nat \<Rightarrow> string \<Rightarrow> nat option" where
  "parse_uint width s =
    (let body = (case s of [] \<Rightarrow> [] | c # cs \<Rightarrow> if byte_of c = 43 then cs else s) in
     if body = [] then None
     else case parse_digits 0 body of
       Some v \<Rightarrow> if v < 2 ^ width then Some v else None
     | None \<Rightarrow> None)"

lemma byte_of_digit_char [simp]: "d < 10 \<Longrightarrow> byte_of (digit_char d) = 48 + d"
  by (simp add: byte_of_def digit_char_def)

lemma parse_digits_append:
  "parse_digits acc (xs @ ys) = Option.bind (parse_digits acc xs) (\<lambda>a. parse_digits a ys)"
  by (induction xs arbitrary: acc) (auto simp: Let_def)

lemma parse_digits_decimal: "parse_digits 0 (decimal n) = Some n"
proof (induction n rule: decimal.induct)
  case (1 n)
  then show ?case
    by (subst decimal.simps) (auto simp: parse_digits_append Let_def)
qed

lemma decimal_head: "\<exists>c cs. decimal n = c # cs \<and> 48 \<le> byte_of c"
proof (induction n rule: decimal.induct)
  case (1 n)
  then show ?case
    by (subst decimal.simps) (cases "n < 10"; fastforce)
qed

lemma parse_decimal [simp]: "n < 2 ^ width \<Longrightarrow> parse_uint width (decimal n) = Some n"
  using decimal_head [of n] parse_digits_decimal [of n]
  by (auto simp: parse_uint_def Let_def)

lemma decimal_digits: "c \<in> set (decimal n) \<Longrightarrow> 48 \<le> byte_of c \<and> byte_of c \<le> 57"
proof (induction n rule: decimal.induct)
  case (1 n)
  show ?case
  proof (cases "n < 10")
    case True
    with 1(2) show ?thesis by (simp add: decimal.simps [of n])
  next
    case False
    with 1 show ?thesis by (subst (asm) decimal.simps) auto
  qed
qed

lemma decimal_inj [simp]: "decimal a = decimal b \<longleftrightarrow> a = b"
  by (metis option.inject parse_digits_decimal)

section \<open>Fallible operations on a state\<close>

text \<open>
  A Rust method that changes state and returns a \<open>Result\<close>: the value is the error or the
  answer, the state is returned on every path. \<open>andThen\<close> is the \<open>?\<close> operator: a failed
  step returns at once with the state it left.
\<close>

type_synonym ('s, 'e, 'a) op = "'s \<Rightarrow> ('e + 'a) \<times> 's"

definition ok :: "'a \<Rightarrow> ('s, 'e, 'a) op" where
  "ok a s = (Inr a, s)"

definition fail :: "'e \<Rightarrow> ('s, 'e, 'a) op" where
  "fail e s = (Inl e, s)"

definition andThen :: "('s, 'e, 'a) op \<Rightarrow> ('a \<Rightarrow> ('s, 'e, 'b) op) \<Rightarrow> ('s, 'e, 'b) op" where
  "andThen m f s = (case m s of (Inl e, s') \<Rightarrow> (Inl e, s') | (Inr a, s') \<Rightarrow> f a s')"

text \<open>\<open>or_else\<close> on a \<open>Result\<close>: the handler runs in the state the failure left.\<close>

definition onError :: "('s, 'e, 'a) op \<Rightarrow> ('e \<Rightarrow> ('s, 'e, 'a) op) \<Rightarrow> ('s, 'e, 'a) op" where
  "onError m h s = (case m s of (Inl e, s') \<Rightarrow> h e s' | (Inr a, s') \<Rightarrow> (Inr a, s'))"

lemmas op_defs = ok_def fail_def andThen_def

lemma op_eval:
  "ok a s = (Inr a, s)"
  "fail e s = (Inl e, s)"
  "m s = (Inr b, s') \<Longrightarrow> andThen m f s = f b s'"
  "m s = (Inl e', s') \<Longrightarrow> andThen m f s = (Inl e', s')"
  "m s = (Inr b, s') \<Longrightarrow> onError m h s = (Inr b, s')"
  "m s = (Inl e', s') \<Longrightarrow> onError m h s = h e' s'"
  by (simp_all add: op_defs onError_def)

lemma andThen_Inr:
  "andThen m f s = (Inr b, s') \<longleftrightarrow> (\<exists>a t. m s = (Inr a, t) \<and> f a t = (Inr b, s'))"
  by (auto simp: andThen_def split: prod.splits sum.splits)

text \<open>
  What an operation leaves alone (a view of the state that is the same afterwards, whatever the
  outcome) and what it preserves.
\<close>

definition keeps :: "('s \<Rightarrow> 'v) \<Rightarrow> ('s, 'e, 'a) op \<Rightarrow> bool" where
  "keeps view m \<longleftrightarrow> (\<forall>s. view (snd (m s)) = view s)"

definition preserves :: "('s \<Rightarrow> bool) \<Rightarrow> ('s, 'e, 'a) op \<Rightarrow> bool" where
  "preserves P m \<longleftrightarrow> (\<forall>s. P s \<longrightarrow> P (snd (m s)))"

named_theorems keeps_intros \<open>operations that leave a view alone\<close>
named_theorems preserves_intros \<open>operations that preserve an invariant\<close>

lemma keepsD: "keeps view m \<Longrightarrow> m s = (r, s') \<Longrightarrow> view s' = view s"
  by (metis keeps_def snd_conv)

lemma preservesD: "preserves P m \<Longrightarrow> m s = (r, s') \<Longrightarrow> P s \<Longrightarrow> P s'"
  by (metis preserves_def snd_conv)

lemma keeps_ok [keeps_intros]: "keeps view (ok a)"
  by (simp add: keeps_def ok_def)

lemma keeps_fail [keeps_intros]: "keeps view (fail e)"
  by (simp add: keeps_def fail_def)

lemma keeps_andThen [keeps_intros]: "keeps view m \<Longrightarrow> (\<And>a. keeps view (f a)) \<Longrightarrow> keeps view (andThen m f)"
  by (auto simp: keeps_def andThen_def split: prod.splits sum.splits) (metis snd_conv)+

lemma keeps_onError [keeps_intros]: "keeps view m \<Longrightarrow> (\<And>e. keeps view (h e)) \<Longrightarrow> keeps view (onError m h)"
  by (auto simp: keeps_def onError_def split: prod.splits sum.splits) (metis snd_conv)+

lemma keeps_cases [keeps_intros]:
  "(b \<Longrightarrow> keeps view m) \<Longrightarrow> (\<not> b \<Longrightarrow> keeps view m') \<Longrightarrow> keeps view (if b then m else m')"
  "keeps view m \<Longrightarrow> (\<And>a. keeps view (f a)) \<Longrightarrow> keeps view (case x of None \<Rightarrow> m | Some a \<Rightarrow> f a)"
  "(\<And>a b. keeps view (g a b)) \<Longrightarrow> keeps view (case p of (a, b) \<Rightarrow> g a b)"
  "(\<And>a. keeps view (fl a)) \<Longrightarrow> (\<And>b. keeps view (fr b)) \<Longrightarrow> keeps view (case y of Inl a \<Rightarrow> fl a | Inr b \<Rightarrow> fr b)"
  "keeps view (fe v) \<Longrightarrow> keeps view (let z = v in fe z)"
  by (simp_all split: option.splits prod.splits sum.splits)

lemma preserves_ok [preserves_intros]: "preserves P (ok a)"
  by (simp add: preserves_def ok_def)

lemma preserves_fail [preserves_intros]: "preserves P (fail e)"
  by (simp add: preserves_def fail_def)

lemma preserves_andThen [preserves_intros]:
  "preserves P m \<Longrightarrow> (\<And>a. preserves P (f a)) \<Longrightarrow> preserves P (andThen m f)"
  by (fastforce simp: preserves_def andThen_def split: prod.splits sum.splits)

lemma preserves_onError [preserves_intros]:
  "preserves P m \<Longrightarrow> (\<And>e. preserves P (h e)) \<Longrightarrow> preserves P (onError m h)"
  by (fastforce simp: preserves_def onError_def split: prod.splits sum.splits)

lemma preserves_cases [preserves_intros]:
  "(b \<Longrightarrow> preserves P m) \<Longrightarrow> (\<not> b \<Longrightarrow> preserves P m') \<Longrightarrow> preserves P (if b then m else m')"
  "preserves P m \<Longrightarrow> (\<And>a. preserves P (f a)) \<Longrightarrow> preserves P (case x of None \<Rightarrow> m | Some a \<Rightarrow> f a)"
  "(\<And>a b. preserves P (g a b)) \<Longrightarrow> preserves P (case p of (a, b) \<Rightarrow> g a b)"
  "(\<And>a. preserves P (fl a)) \<Longrightarrow> (\<And>b. preserves P (fr b)) \<Longrightarrow>
    preserves P (case y of Inl a \<Rightarrow> fl a | Inr b \<Rightarrow> fr b)"
  "preserves P (fe v) \<Longrightarrow> preserves P (let z = v in fe z)"
  by (simp_all split: option.splits prod.splits sum.splits)

section \<open>Editing every row and remembering whether anything moved\<close>

text \<open>
  The loop the reducer is written in: \<open>let mut changed = false; let next = records.iter()
  .map(..).collect(); (if changed { next } else { records.to_vec() }, changed)\<close>. The per-row
  closure returns the row and whether it set \<open>changed\<close>.
\<close>

definition edit_rows :: "('r \<Rightarrow> 'r \<times> bool) \<Rightarrow> 'r list \<Rightarrow> 'r list \<times> bool" where
  "edit_rows step rows =
    (let next = map (fst \<circ> step) rows; changed = list_ex (snd \<circ> step) rows
     in (if changed then next else rows, changed))"

text \<open>
  The contract every such closure keeps: a row it does not flag is returned as it was, and the
  row's identity never moves. The clients (the list-level facts) are proved once here and used
  through one interpretation per operation.
\<close>

locale row_edit =
  fixes ident :: "'r \<Rightarrow> 'i" and step :: "'r \<Rightarrow> 'r \<times> bool"
  assumes quiet: "\<not> snd (step r) \<Longrightarrow> fst (step r) = r"
    and keeps_ident: "ident (fst (step r)) = ident r"
begin

lemma edit_rows_map: "fst (edit_rows step rows) = map (fst \<circ> step) rows"
proof (cases "list_ex (snd \<circ> step) rows")
  case True
  then show ?thesis by (simp add: edit_rows_def)
next
  case False
  then have "map (fst \<circ> step) rows = rows"
    by (intro map_idI) (simp add: list_ex_iff quiet)
  with False show ?thesis by (simp add: edit_rows_def)
qed

lemma edit_rows_length: "length (fst (edit_rows step rows)) = length rows"
  by (simp add: edit_rows_map)

lemma edit_rows_idents: "map ident (fst (edit_rows step rows)) = map ident rows"
  by (simp add: edit_rows_map keeps_ident)

lemma edit_rows_unchanged: "\<not> snd (edit_rows step rows) \<Longrightarrow> fst (edit_rows step rows) = rows"
  by (simp add: edit_rows_def Let_def split: if_splits)

lemma edit_rows_nth:
  "i < length rows \<Longrightarrow> fst (edit_rows step rows) ! i = fst (step (rows ! i))"
  by (simp add: edit_rows_map)

lemma edit_rows_all:
  "(\<And>r. P r \<Longrightarrow> P (fst (step r))) \<Longrightarrow> list_all P rows \<Longrightarrow> list_all P (fst (edit_rows step rows))"
  by (simp add: edit_rows_map list_all_iff)

end

text \<open>
  An edit that settles: a later run on its own output (with another clock, say) flags nothing.
\<close>

locale settling_row_edit = row_edit ident step + later: row_edit ident later
  for ident :: "'r \<Rightarrow> 'i" and step later :: "'r \<Rightarrow> 'r \<times> bool" +
  assumes settles: "\<not> snd (later (fst (step r)))"
begin

lemma edit_rows_settles:
  "edit_rows later (fst (edit_rows step rows)) = (fst (edit_rows step rows), False)"
proof -
  have "\<not> snd (edit_rows later (fst (edit_rows step rows)))"
    by (auto simp: edit_rows_map edit_rows_def [of later] list_ex_iff settles)
  then show ?thesis
    using later.edit_rows_unchanged by (metis prod.collapse)
qed

end

text \<open>An edit addressed to one identity.\<close>

locale addressed_row_edit = row_edit +
  fixes target :: 'i
  assumes elsewhere: "ident r \<noteq> target \<Longrightarrow> step r = (r, False)"
begin

lemma edit_rows_elsewhere:
  "i < length rows \<Longrightarrow> ident (rows ! i) \<noteq> target \<Longrightarrow> fst (edit_rows step rows) ! i = rows ! i"
  by (simp add: edit_rows_nth elsewhere)

lemma edit_rows_absent:
  assumes "target \<notin> set (map ident rows)"
  shows "edit_rows step rows = (rows, False)"
proof -
  have "\<not> snd (step r)" if "r \<in> set rows" for r
  proof -
    from assms that have "ident r \<noteq> target" by auto
    then show ?thesis by (simp add: elsewhere)
  qed
  then have "\<not> list_ex (snd \<circ> step) rows" by (auto simp: list_ex_iff)
  then show ?thesis by (simp add: edit_rows_def)
qed

end

section \<open>Finite maps\<close>

lemma fmupd_same: "fmlookup m k = Some v \<Longrightarrow> fmupd k v m = m"
  by (rule fmap_ext) auto

lemma fmdrop_same: "fmlookup m k = None \<Longrightarrow> fmdrop k m = m"
  by (rule fmap_ext) auto

lemma fmupd_eq_iff: "fmupd k v m = m \<longleftrightarrow> fmlookup m k = Some v"
  by (metis fmupd_lookup fmupd_same)

lemma fmdrop_eq_iff: "fmdrop k m = m \<longleftrightarrow> fmlookup m k = None"
  by (metis fmdrop_lookup fmdrop_same)

text \<open>Dropping a list of keys, the shape of a \<open>for key in keys { map.remove(key) }\<close> loop.\<close>

fun drop_keys :: "'k list \<Rightarrow> ('k, 'v) fmap \<Rightarrow> ('k, 'v) fmap" where
  "drop_keys [] m = m"
| "drop_keys (k # ks) m = drop_keys ks (fmdrop k m)"

lemma fmlookup_drop_keys [simp]:
  "fmlookup (drop_keys ks m) k = (if k \<in> set ks then None else fmlookup m k)"
  by (induction ks arbitrary: m) auto

section \<open>Options\<close>

text \<open>\<open>Option::or\<close> and \<open>Option::unwrap_or\<close>.\<close>

definition or_else :: "'a option \<Rightarrow> 'a option \<Rightarrow> 'a option" where
  "or_else a b = (case a of None \<Rightarrow> b | Some x \<Rightarrow> Some x)"

definition unwrap_or :: "'a option \<Rightarrow> 'a \<Rightarrow> 'a" where
  "unwrap_or a d = (case a of None \<Rightarrow> d | Some x \<Rightarrow> x)"

lemma or_else_simps [simp]:
  "or_else None b = b" "or_else (Some x) b = Some x"
  by (simp_all add: or_else_def)

lemma unwrap_or_simps [simp]:
  "unwrap_or None d = d" "unwrap_or (Some x) d = x"
  by (simp_all add: unwrap_or_def)

section \<open>Bounded histories\<close>

text \<open>What a buffer of bounded capacity keeps of everything that was pushed into it.\<close>

definition window :: "nat \<Rightarrow> 'a list \<Rightarrow> 'a list" where
  "window cap h = drop (length h - cap) h"

lemma window_nil [simp]: "window cap [] = []"
  by (simp add: window_def)

lemma length_window [simp]: "length (window cap h) = min cap (length h)"
  by (simp add: window_def)

lemma window_append [simp]: "window cap (window cap h @ xs) = window cap (h @ xs)"
  by (cases "length h \<le> cap") (auto simp: window_def add.commute)

text \<open>
  The contract of such a buffer: pushing appends, then keeps the newest \<open>cap\<close> items and counts the
  ones it let go. Its client sees the buffer as a window on the whole history.
\<close>

locale bounded_history =
  fixes push :: "'i \<Rightarrow> 's \<Rightarrow> 's" and added :: "'i \<Rightarrow> 's \<Rightarrow> 'a list"
    and items :: "'s \<Rightarrow> 'a list" and gone :: "'s \<Rightarrow> nat" and cap :: "'s \<Rightarrow> nat"
  assumes push_items: "length (items s) \<le> cap s \<Longrightarrow> items (push i s) = window (cap s) (items s @ added i s)"
    and push_gone: "length (items s) \<le> cap s \<Longrightarrow>
      gone (push i s) = gone s + (length (items s) + length (added i s) - cap s)"
    and push_cap: "cap (push i s) = cap s"
begin

lemma push_window:
  assumes "items s = window (cap s) h" "gone s = length h - cap s"
  shows "items (push i s) = window (cap s) (h @ added i s)" "gone (push i s) = length (h @ added i s) - cap s"
  using assms push_items [of s i] push_gone [of s i] by auto

lemma window_from:
  assumes "items s = window (cap s) h" "gone s = length h - cap s" "gone s \<le> n"
  shows "drop (n - gone s) (items s) = drop n h"
  using assms by (simp add: window_def)

end

end
