(* ===== verification/Json.thy ===== *)
theory Json
  imports Prelude
begin

text \<open>
  JSON values as \<open>serde_json::Value\<close> has them and the untyped persisted row of
  \<open>storage/compat.rs\<close>. A row is the finite map from keys to values that \<open>Record(pub
  Map<String, Value>)\<close> wraps; \<open>Map\<close> equality ignores the order of keys, as equality of
  finite maps does. "Key absent" and "key holds null" are different rows.
\<close>

section \<open>Values\<close>

text \<open>
  \<open>serde_json\<close> keeps a number as a non-negative \<open>u64\<close>, a negative \<open>i64\<close> or a finite
  \<open>f64\<close>; a finite double is a rational, and \<open>0.0 == -0.0\<close>.
\<close>

datatype json_number = PosInt nat | NegInt int | Float rat

text \<open>What \<open>serde_json\<close> guarantees of the integers it stores.\<close>

fun wf_number :: "json_number \<Rightarrow> bool" where
  "wf_number (PosInt u) = (u < 2 ^ 64)"
| "wf_number (NegInt i) = (- (2 ^ 63) \<le> i \<and> i < 0)"
| "wf_number (Float _) = True"

datatype Value =
    Null
  | Bool bool
  | Number json_number
  | String string
  | Array "Value list"
  | Object "(string, Value) fmap"

type_synonym Record = "(string, Value) fmap"

definition as_str :: "Value \<Rightarrow> string option" where
  "as_str v = (case v of String s \<Rightarrow> Some s | _ \<Rightarrow> None)"

definition as_bool :: "Value \<Rightarrow> bool option" where
  "as_bool v = (case v of Bool b \<Rightarrow> Some b | _ \<Rightarrow> None)"

definition number_as_u64 :: "json_number \<Rightarrow> nat option" where
  "number_as_u64 n = (case n of PosInt u \<Rightarrow> Some u | _ \<Rightarrow> None)"

definition number_as_i64 :: "json_number \<Rightarrow> int option" where
  "number_as_i64 n = (case n of
      PosInt u \<Rightarrow> (if u \<le> 2 ^ 63 - 1 then Some (int u) else None)
    | NegInt i \<Rightarrow> Some i
    | Float _ \<Rightarrow> None)"

definition as_u64 :: "Value \<Rightarrow> nat option" where
  "as_u64 v = (case v of Number n \<Rightarrow> number_as_u64 n | _ \<Rightarrow> None)"

definition as_i64 :: "Value \<Rightarrow> int option" where
  "as_i64 v = (case v of Number n \<Rightarrow> number_as_i64 n | _ \<Rightarrow> None)"

definition is_number :: "Value \<Rightarrow> bool" where
  "is_number v = (case v of Number _ \<Rightarrow> True | _ \<Rightarrow> False)"

text \<open>\<open>u64::try_from(i64).ok()\<close>.\<close>

definition u64_try_from :: "int \<Rightarrow> nat option" where
  "u64_try_from i = (if 0 \<le> i then Some (nat i) else None)"

abbreviation json_u64 :: "nat \<Rightarrow> Value" where
  "json_u64 n \<equiv> Number (PosInt n)"

lemmas value_access = as_str_def as_bool_def as_u64_def as_i64_def is_number_def
  number_as_u64_def number_as_i64_def u64_try_from_def

lemma as_str_simps [simp]:
  "as_str (String s) = Some s" "as_str Null = None" "as_str (Bool b) = None"
  "as_str (Number n) = None" "as_str (Array xs) = None" "as_str (Object m) = None"
  by (simp_all add: as_str_def)

lemma as_str_SomeD [simp]: "as_str v = Some s \<longleftrightarrow> v = String s"
  by (cases v) auto

lemma as_bool_simps [simp]:
  "as_bool (Bool b) = Some b" "as_bool Null = None" "as_bool (String s) = None"
  "as_bool (Number n) = None" "as_bool (Array xs) = None" "as_bool (Object m) = None"
  by (simp_all add: as_bool_def)

section \<open>Rows\<close>

definition get :: "Record \<Rightarrow> string \<Rightarrow> Value option" where
  "get r key = fmlookup r key"

definition str_field :: "Record \<Rightarrow> string \<Rightarrow> string option" where
  "str_field r key = Option.bind (fmlookup r key) as_str"

definition record_id :: "Record \<Rightarrow> string option" where
  "record_id r = str_field r ''id''"

definition with_field :: "Record \<Rightarrow> string \<Rightarrow> Value \<Rightarrow> Record" where
  "with_field r key v = fmupd key v r"

definition contains :: "Record \<Rightarrow> string \<Rightarrow> bool" where
  "contains r key \<longleftrightarrow> fmlookup r key \<noteq> None"

text \<open>\<open>update_record\<close>: change the first row with this id, report whether there was one.\<close>

fun update_record :: "Record list \<Rightarrow> string \<Rightarrow> (Record \<Rightarrow> Record) \<Rightarrow> Record list \<times> bool" where
  "update_record [] i change = ([], False)"
| "update_record (r # rs) i change =
    (if record_id r = Some i then (change r # rs, True)
     else let (rs', found) = update_record rs i change in (r # rs', found))"

text \<open>\<open>records.iter().find(|record| record.id() == Some(task_id))\<close>.\<close>

definition find_row :: "Record list \<Rightarrow> string \<Rightarrow> Record option" where
  "find_row rows task_id = List.find (\<lambda>r. record_id r = Some task_id) rows"

lemma get_simps [simp]:
  "get (fmupd k v r) k' = (if k = k' then Some v else get r k')"
  "get (fmdrop k r) k' = (if k = k' then None else get r k')"
  by (auto simp: get_def)

lemma str_field_simps [simp]:
  "str_field (fmupd k v r) k' = (if k = k' then as_str v else str_field r k')"
  "str_field (fmdrop k r) k' = (if k = k' then None else str_field r k')"
  by (auto simp: str_field_def)

lemma record_id_simps [simp]:
  "k \<noteq> ''id'' \<Longrightarrow> record_id (fmupd k v r) = record_id r"
  "k \<noteq> ''id'' \<Longrightarrow> record_id (fmdrop k r) = record_id r"
  by (simp_all add: record_id_def)

lemma record_id_drop_keys [simp]: "''id'' \<notin> set ks \<Longrightarrow> record_id (drop_keys ks r) = record_id r"
  by (simp add: record_id_def str_field_def)

lemma record_eqI: "(\<And>k. get r k = get r' k) \<Longrightarrow> r = r'"
  by (rule fmap_ext) (simp add: get_def)

lemma find_row_Some: "find_row rows t = Some r \<Longrightarrow> r \<in> set rows \<and> record_id r = Some t"
  by (auto simp: find_row_def find_Some_iff)

lemma find_row_None: "find_row rows t = None \<longleftrightarrow> (\<forall>r \<in> set rows. record_id r \<noteq> Some t)"
  by (auto simp: find_row_def find_None_iff)

lemma find_row_simps [simp]:
  "find_row [] t = None"
  "find_row (r # rs) t = (if record_id r = Some t then Some r else find_row rs t)"
  by (simp_all add: find_row_def)

lemma update_record_found:
  "snd (update_record rs t f) \<longleftrightarrow> find_row rs t \<noteq> None"
  by (induction rs) (auto split: prod.splits)

lemma update_record_length [simp]: "length (fst (update_record rs t f)) = length rs"
  by (induction rs) (auto split: prod.splits)

lemma update_record_elsewhere:
  "i < length rs \<Longrightarrow> record_id (rs ! i) \<noteq> Some t \<Longrightarrow> fst (update_record rs t f) ! i = rs ! i"
proof (induction rs arbitrary: i)
  case (Cons r rs)
  then show ?case by (cases i) (auto split: prod.splits)
qed simp

end
