(* ===== verification/TaskProtocol.thy ===== *)
theory TaskProtocol
  imports Json
begin

text \<open>
  The task vocabulary of \<open>aeroric-protocol/src/task.rs\<close>: the nine statuses, the four
  protocol families and the permission modes, with the spellings \<open>serde\<close> gives them on disk
  and on the wire. Every enum is a datatype with the source's constructors; the orders the
  source derives (\<open>Ord\<close> on \<open>TaskStatus\<close>, \<open>PermissionMode::rank\<close>) are instances of the
  library's \<open>linorder\<close>.
\<close>

section \<open>Task status\<close>

datatype TaskStatus =
  Todo | Pending | Running | InputRequired | Detached | Interrupted | Done | Failed | Cancelled

definition all_statuses :: "TaskStatus list" where
  "all_statuses =
    [Todo, Pending, Running, InputRequired, Detached, Interrupted, Done, Failed, Cancelled]"

text \<open>\<open>#[serde(rename_all = "snake_case")]\<close>.\<close>

fun status_word :: "TaskStatus \<Rightarrow> string" where
  "status_word Todo = ''todo''"
| "status_word Pending = ''pending''"
| "status_word Running = ''running''"
| "status_word InputRequired = ''input_required''"
| "status_word Detached = ''detached''"
| "status_word Interrupted = ''interrupted''"
| "status_word Done = ''done''"
| "status_word Failed = ''failed''"
| "status_word Cancelled = ''cancelled''"

definition parse_status :: "string \<Rightarrow> TaskStatus option" where
  "parse_status text = List.find (\<lambda>s. status_word s = text) all_statuses"

fun is_terminal :: "TaskStatus \<Rightarrow> bool" where
  "is_terminal Done = True"
| "is_terminal Failed = True"
| "is_terminal Cancelled = True"
| "is_terminal _ = False"

fun is_live :: "TaskStatus \<Rightarrow> bool" where
  "is_live Pending = True"
| "is_live Running = True"
| "is_live InputRequired = True"
| "is_live Detached = True"
| "is_live _ = False"

text \<open>The derived \<open>Ord\<close>: declaration order.\<close>

fun status_index :: "TaskStatus \<Rightarrow> nat" where
  "status_index Todo = 0"
| "status_index Pending = 1"
| "status_index Running = 2"
| "status_index InputRequired = 3"
| "status_index Detached = 4"
| "status_index Interrupted = 5"
| "status_index Done = 6"
| "status_index Failed = 7"
| "status_index Cancelled = 8"

lemma status_index_inj: "status_index a = status_index b \<longleftrightarrow> a = b"
  by (cases a; cases b) simp_all

instantiation TaskStatus :: linorder
begin

definition less_eq_TaskStatus :: "TaskStatus \<Rightarrow> TaskStatus \<Rightarrow> bool" where
  "less_eq_TaskStatus a b \<longleftrightarrow> status_index a \<le> status_index b"

definition less_TaskStatus :: "TaskStatus \<Rightarrow> TaskStatus \<Rightarrow> bool" where
  "less_TaskStatus a b \<longleftrightarrow> status_index a < status_index b"

instance
  by standard (auto simp: less_eq_TaskStatus_def less_TaskStatus_def status_index_inj)

end

lemma parse_status_word [simp, wire_simps]: "parse_status (status_word s) = Some s"
  by (cases s) (simp_all add: parse_status_def all_statuses_def)

lemma parse_status_Some [wire_simps]: "parse_status t = Some s \<longleftrightarrow> t = status_word s"
proof
  assume "parse_status t = Some s"
  then show "t = status_word s" by (auto simp: parse_status_def find_Some_iff)
qed simp

lemma status_word_inj [simp]: "status_word a = status_word b \<longleftrightarrow> a = b"
  by (metis option.inject parse_status_word)

lemma terminal_not_live: "is_terminal s \<Longrightarrow> \<not> is_live s"
  by (cases s) simp_all

section \<open>Protocol family\<close>

datatype BuiltInAgent = Claude | ClaudeGpt55 | Codex | Dsh | Omp

datatype ProtocolFamily = Claude | Codex | Dsh | Omp

definition all_families :: "ProtocolFamily list" where
  "all_families = [Claude, Codex, Dsh, Omp]"

text \<open>\<open>#[serde(rename_all = "lowercase")]\<close>; \<open>family_prefix\<close> uses the same spelling.\<close>

fun family_word :: "ProtocolFamily \<Rightarrow> string" where
  "family_word Claude = ''claude''"
| "family_word Codex = ''codex''"
| "family_word Dsh = ''dsh''"
| "family_word Omp = ''omp''"

definition parse_family :: "string \<Rightarrow> ProtocolFamily option" where
  "parse_family text = List.find (\<lambda>f. family_word f = text) all_families"

lemma parse_family_word [simp, wire_simps]: "parse_family (family_word f) = Some f"
  by (cases f) (simp_all add: parse_family_def all_families_def)

lemma family_word_inj [simp]: "family_word a = family_word b \<longleftrightarrow> a = b"
  by (metis option.inject parse_family_word)

lemma in_all_families [simp]: "f \<in> set all_families"
  by (cases f) (simp_all add: all_families_def)

section \<open>Agents\<close>

text \<open>
  The two enums share four constructor names: the agent's are written with their type's name
  in front, as the source writes \<open>BuiltInAgent::Claude\<close>.
\<close>

fun builtin_family :: "BuiltInAgent \<Rightarrow> ProtocolFamily" where
  "builtin_family BuiltInAgent.Claude = Claude"
| "builtin_family ClaudeGpt55 = Claude"
| "builtin_family BuiltInAgent.Codex = Codex"
| "builtin_family BuiltInAgent.Dsh = Dsh"
| "builtin_family BuiltInAgent.Omp = Omp"

datatype AgentId =
    BuiltIn BuiltInAgent
  | Custom (custom_id: string) (custom_family: "ProtocolFamily option")

fun declared_family :: "AgentId \<Rightarrow> ProtocolFamily option" where
  "declared_family (BuiltIn b) = Some (builtin_family b)"
| "declared_family (Custom _ family) = family"

section \<open>Permission modes\<close>

datatype PermissionMode = Ask | AutoEdit | FullAccess

fun rank :: "PermissionMode \<Rightarrow> nat" where
  "rank Ask = 0"
| "rank AutoEdit = 1"
| "rank FullAccess = 2"

lemma rank_inj: "rank a = rank b \<longleftrightarrow> a = b"
  by (cases a; cases b) simp_all

instantiation PermissionMode :: linorder
begin

definition less_eq_PermissionMode :: "PermissionMode \<Rightarrow> PermissionMode \<Rightarrow> bool" where
  "less_eq_PermissionMode a b \<longleftrightarrow> rank a \<le> rank b"

definition less_PermissionMode :: "PermissionMode \<Rightarrow> PermissionMode \<Rightarrow> bool" where
  "less_PermissionMode a b \<longleftrightarrow> rank a < rank b"

instance
  by standard (auto simp: less_eq_PermissionMode_def less_PermissionMode_def rank_inj)

end

fun permission_word :: "PermissionMode \<Rightarrow> string" where
  "permission_word Ask = ''ask''"
| "permission_word AutoEdit = ''auto_edit''"
| "permission_word FullAccess = ''full_access''"

definition parse_permission :: "string \<Rightarrow> PermissionMode option" where
  "parse_permission text = List.find (\<lambda>m. permission_word m = text) [Ask, AutoEdit, FullAccess]"

lemma parse_permission_word [simp, wire_simps]: "parse_permission (permission_word m) = Some m"
  by (cases m) (simp_all add: parse_permission_def)

end
