(* ===== verification/SessionOwner.thy ===== *)
theory SessionOwner
  imports TaskProtocol
begin

text \<open>
  \<open>tasks/session_owner.rs\<close>: which protocol family a task's session belongs to and which agent
  may continue it. The trait \<open>AgentFamilies\<close> is implemented by the host from the user's agent
  table, so it is a record of functions every operation takes as an argument.
\<close>

record AgentFamilies =
  launch_family :: "string \<Rightarrow> ProtocolFamily"
  session_family :: "string \<Rightarrow> ProtocolFamily"
  native_resume_family :: "string \<Rightarrow> ProtocolFamily"
  is_builtin :: "string \<Rightarrow> bool"

record SessionOwner =
  owner_agent :: string
  owner_family :: ProtocolFamily
  codex_like :: bool

section \<open>Session fields of a row\<close>

definition family_prefix :: "ProtocolFamily \<Rightarrow> string" where
  "family_prefix f = family_word f"

definition id_key :: "string \<Rightarrow> string" where
  "id_key prefix = prefix @ ''SessionId''"

definition path_key :: "string \<Rightarrow> string" where
  "path_key prefix = prefix @ ''SessionPath''"

definition filled :: "Value option \<Rightarrow> bool" where
  "filled v = (case v of None \<Rightarrow> False | Some x \<Rightarrow> x \<noteq> Null \<and> x \<noteq> String [])"

definition has_session :: "Record \<Rightarrow> string \<Rightarrow> bool" where
  "has_session r prefix \<longleftrightarrow> filled (get r (id_key prefix)) \<or> filled (get r (path_key prefix))"

definition session_prefixes :: "string list" where
  "session_prefixes = [''claude'', ''codex'', ''dsh'', ''omp'']"

definition has_task_session :: "Record \<Rightarrow> bool" where
  "has_task_session r \<longleftrightarrow> list_ex (has_session r) session_prefixes"

definition has_task_session_path :: "Record \<Rightarrow> bool" where
  "has_task_session_path r \<longleftrightarrow> list_ex (\<lambda>p. get r (path_key p) \<noteq> None) session_prefixes"

section \<open>Who owns the session\<close>

definition owner :: "string \<Rightarrow> ProtocolFamily \<Rightarrow> SessionOwner" where
  "owner agent family = \<lparr>owner_agent = agent, owner_family = family, codex_like = (family = Codex)\<rparr>"

definition resolve_session_owner :: "Record \<Rightarrow> AgentFamilies \<Rightarrow> SessionOwner" where
  "resolve_session_owner r families =
    (let agent = unwrap_or (or_else (str_field r ''sessionAgent'') (str_field r ''agent'')) [] in
     case Option.bind (str_field r ''sessionFamily'') parse_family of
       Some family \<Rightarrow> owner agent family
     | None \<Rightarrow>
       (case Option.bind (get r ''sessionCodexLike'') as_bool of
          Some codex \<Rightarrow>
            if \<not> codex \<and> has_session r ''dsh'' \<and> \<not> has_session r ''claude''
            then owner agent Dsh
            else owner agent (if codex then Codex else Claude)
        | None \<Rightarrow>
          (let present = map fst (filter (\<lambda>(_, prefix). has_session r prefix)
                 [(Codex, ''codex''), (Claude, ''claude''), (Dsh, ''dsh''), (Omp, ''omp'')]) in
           case present of
             [family] \<Rightarrow> owner agent family
           | _ \<Rightarrow> owner agent (session_family families agent))))"

definition launch_family_of :: "Record \<Rightarrow> AgentFamilies \<Rightarrow> ProtocolFamily" where
  "launch_family_of r families =
    (case Option.bind (str_field r ''launchFamily'') parse_family of
       Some stored \<Rightarrow> stored
     | None \<Rightarrow>
       (let named = (case str_field r ''sessionAgent'' of
              Some value \<Rightarrow> if value \<noteq> [] then Some value else None
            | None \<Rightarrow> None)
        in launch_family families (unwrap_or (or_else named (str_field r ''agent'')) [])))"

definition resume_family_of :: "Record \<Rightarrow> AgentFamilies \<Rightarrow> ProtocolFamily" where
  "resume_family_of r families =
    (case Option.bind (str_field r ''resumeFamily'') parse_family of
       Some stored \<Rightarrow> stored
     | None \<Rightarrow> owner_family (resolve_session_owner r families))"

record SessionFields =
  session_id :: "string option"
  session_path :: "string option"
  legacy_session_id :: "string option"
  legacy_session_path :: "string option"

definition non_empty_text :: "string option \<Rightarrow> bool" where
  "non_empty_text v = (case v of None \<Rightarrow> False | Some s \<Rightarrow> s \<noteq> [])"

definition session_fields :: "Record \<Rightarrow> ProtocolFamily \<Rightarrow> SessionFields" where
  "session_fields r family =
    (let prefix = family_prefix family;
         legacy = List.find (\<lambda>(i, p). non_empty_text i \<or> non_empty_text p)
           (map (\<lambda>other. (str_field r (id_key other), str_field r (path_key other)))
             (filter (\<lambda>other. other \<noteq> prefix) (map family_prefix all_families)))
     in \<lparr>session_id = str_field r (id_key prefix),
         session_path = str_field r (path_key prefix),
         legacy_session_id = Option.bind legacy fst,
         legacy_session_path = Option.bind legacy snd\<rparr>)"

section \<open>Who may continue it\<close>

definition can_native_resume :: "Record \<Rightarrow> string \<Rightarrow> AgentFamilies \<Rightarrow> bool" where
  "can_native_resume r target_agent families =
    (let source = resolve_session_owner r families;
         source_resume = resume_family_of r families in
     if owner_family source = Dsh \<or> source_resume = Dsh then False
     else if source_resume \<noteq> native_resume_family families target_agent then False
     else if is_builtin families (owner_agent source) \<and> is_builtin families target_agent then True
     else owner_agent source = target_agent)"

definition can_adopt :: "Record \<Rightarrow> string \<Rightarrow> AgentFamilies \<Rightarrow> bool" where
  "can_adopt r target_agent families =
    (let source = resolve_session_owner r families;
         source_resume = resume_family_of r families in
     if source_resume = Dsh \<or> source_resume = Omp then False
     else if source_resume \<noteq> native_resume_family families target_agent then False
     else owner_agent source \<noteq> target_agent \<and> \<not> can_native_resume r target_agent families)"

datatype ConfigSwitchStrategy = Resume | Adopt | Handoff

definition resolve_config_switch_strategy ::
  "Record \<Rightarrow> string \<Rightarrow> bool \<Rightarrow> AgentFamilies \<Rightarrow> ConfigSwitchStrategy" where
  "resolve_config_switch_strategy r target_agent native_resume_supported families =
    (if \<not> native_resume_supported then Handoff
     else if can_native_resume r target_agent families then Resume
     else if can_adopt r target_agent families then Adopt
     else Handoff)"

definition has_continuation_context :: "Record \<Rightarrow> bool" where
  "has_continuation_context r \<longleftrightarrow>
    \<not> is_blank (unwrap_or (str_field r ''prompt'') []) \<or> has_task_session r"

section \<open>Writing the resolved session\<close>

definition session_keys :: "string list" where
  "session_keys = concat (map (\<lambda>prefix. [id_key prefix, path_key prefix]) session_prefixes)"

definition insert_opt :: "string \<Rightarrow> string option \<Rightarrow> Record \<Rightarrow> Record" where
  "insert_opt key v r = (case v of None \<Rightarrow> r | Some text \<Rightarrow> fmupd key (String text) r)"

definition apply_resolved_session ::
  "Record \<Rightarrow> SessionOwner \<Rightarrow> string option \<Rightarrow> string option \<Rightarrow> Record" where
  "apply_resolved_session r own sid spath =
    (if sid = None \<and> spath = None then r
     else
       let cleared = drop_keys session_keys r;
           branded = fmupd ''sessionFamily'' (String (family_word (owner_family own)))
                      (fmupd ''sessionCodexLike'' (Bool (owner_family own = Codex))
                        (fmupd ''sessionAgent'' (String (owner_agent own)) cleared));
           prefix = family_prefix (owner_family own)
       in insert_opt (path_key prefix) spath (insert_opt (id_key prefix) sid branded))"

definition non_empty :: "string option \<Rightarrow> string option" where
  "non_empty v = (case v of None \<Rightarrow> None | Some s \<Rightarrow> if s \<noteq> [] then Some s else None)"

definition current_session :: "Record \<Rightarrow> string option \<times> string option" where
  "current_session r =
    (let family = unwrap_or (Option.bind (str_field r ''sessionFamily'') parse_family) Codex;
         fields = session_fields r family;
         (i, p) = (case (non_empty (session_id fields), non_empty (session_path fields)) of
             (None, None) \<Rightarrow> (non_empty (legacy_session_id fields), non_empty (legacy_session_path fields))
           | found \<Rightarrow> found)
     in (or_else i (non_empty (str_field r ''sessionId'')),
         or_else p (non_empty (str_field r ''sessionPath''))))"

section \<open>Facts shared by the proofs\<close>

lemmas session_key_defs = id_key_def path_key_def family_prefix_def

lemma insert_opt_None [simp]: "insert_opt k None r = r"
  by (simp add: insert_opt_def)

lemma str_field_insert_opt [simp]:
  "str_field (insert_opt k v r) k' = (if k = k' \<and> v \<noteq> None then v else str_field r k')"
  by (auto simp: insert_opt_def split: option.splits)

lemma get_insert_opt [simp]:
  "get (insert_opt k v r) k' = (if k = k' \<and> v \<noteq> None then map_option String v else get r k')"
  by (auto simp: insert_opt_def split: option.splits)

lemma get_drop_keys [simp]: "get (drop_keys ks r) k = (if k \<in> set ks then None else get r k)"
  by (simp add: get_def)

lemma str_field_drop_keys [simp]:
  "str_field (drop_keys ks r) k = (if k \<in> set ks then None else str_field r k)"
  by (simp add: str_field_def)

lemma bind_String [simp]: "Option.bind (map_option String v) as_str = v"
  by (cases v) simp_all

lemma str_field_get: "str_field r k = Option.bind (get r k) as_str"
  by (simp add: str_field_def get_def)

text \<open>The prefixed keys of different families never meet each other or the owner's own keys.\<close>

lemma session_key_inj [simp]:
  "id_key (family_prefix f) = id_key (family_prefix g) \<longleftrightarrow> f = g"
  "path_key (family_prefix f) = path_key (family_prefix g) \<longleftrightarrow> f = g"
  "id_key (family_prefix f) \<noteq> path_key (family_prefix g)"
  "path_key (family_prefix g) \<noteq> id_key (family_prefix f)"
  by (cases f; cases g; simp add: session_key_defs)+

lemma session_key_fresh [simp]:
  "id_key (family_prefix f) \<noteq> ''id''" "''id'' \<noteq> id_key (family_prefix f)"
  "path_key (family_prefix f) \<noteq> ''id''" "''id'' \<noteq> path_key (family_prefix f)"
  "id_key (family_prefix f) \<noteq> ''sessionAgent''" "''sessionAgent'' \<noteq> id_key (family_prefix f)"
  "path_key (family_prefix f) \<noteq> ''sessionAgent''" "''sessionAgent'' \<noteq> path_key (family_prefix f)"
  "id_key (family_prefix f) \<noteq> ''sessionCodexLike''" "''sessionCodexLike'' \<noteq> id_key (family_prefix f)"
  "path_key (family_prefix f) \<noteq> ''sessionCodexLike''" "''sessionCodexLike'' \<noteq> path_key (family_prefix f)"
  "id_key (family_prefix f) \<noteq> ''sessionFamily''" "''sessionFamily'' \<noteq> id_key (family_prefix f)"
  "path_key (family_prefix f) \<noteq> ''sessionFamily''" "''sessionFamily'' \<noteq> path_key (family_prefix f)"
  "id_key (family_prefix f) \<noteq> ''status''" "''status'' \<noteq> id_key (family_prefix f)"
  "path_key (family_prefix f) \<noteq> ''status''" "''status'' \<noteq> path_key (family_prefix f)"
  "id_key (family_prefix f) \<noteq> ''sessionId''" "''sessionId'' \<noteq> id_key (family_prefix f)"
  "path_key (family_prefix f) \<noteq> ''sessionId''" "''sessionId'' \<noteq> path_key (family_prefix f)"
  "id_key (family_prefix f) \<noteq> ''sessionPath''" "''sessionPath'' \<noteq> id_key (family_prefix f)"
  "path_key (family_prefix f) \<noteq> ''sessionPath''" "''sessionPath'' \<noteq> path_key (family_prefix f)"
  by (cases f; simp add: session_key_defs)+

lemma UN_family: "(\<Union>f :: ProtocolFamily. g f) = g Claude \<union> g Codex \<union> g Dsh \<union> g Omp"
  by (auto intro: ProtocolFamily.exhaust) (metis ProtocolFamily.exhaust)

lemma session_keys_families:
  "set session_keys = (\<Union>f. {id_key (family_prefix f), path_key (family_prefix f)})"
  unfolding UN_family by (simp add: session_keys_def session_prefixes_def family_prefix_def) blast

lemma in_session_keys [simp]:
  "id_key (family_prefix f) \<in> set session_keys" "path_key (family_prefix f) \<in> set session_keys"
  by (auto simp: session_keys_families)

lemma owner_keys_not_session [simp]:
  "''sessionFamily'' \<notin> set session_keys" "''sessionAgent'' \<notin> set session_keys"
  "''id'' \<notin> set session_keys" "''sessionCodexLike'' \<notin> set session_keys"
  by (auto simp: session_keys_families)

lemma apply_resolved_session_get:
  assumes "sid \<noteq> None \<or> spath \<noteq> None"
  shows "get (apply_resolved_session r own sid spath) k =
    (if k = id_key (family_prefix (owner_family own)) then map_option String sid
     else if k = path_key (family_prefix (owner_family own)) then map_option String spath
     else if k \<in> set session_keys then None
     else if k = ''sessionFamily'' then Some (String (family_word (owner_family own)))
     else if k = ''sessionCodexLike'' then Some (Bool (owner_family own = Codex))
     else if k = ''sessionAgent'' then Some (String (owner_agent own))
     else get r k)"
  using assms by (auto simp: apply_resolved_session_def Let_def)

lemma apply_resolved_session_owner:
  assumes "sid \<noteq> None \<or> spath \<noteq> None"
  shows "str_field (apply_resolved_session r own sid spath) ''sessionAgent'' = Some (owner_agent own)"
    and "str_field (apply_resolved_session r own sid spath) ''sessionFamily''
           = Some (family_word (owner_family own))"
    and "record_id (apply_resolved_session r own sid spath) = record_id r"
  by (simp_all add: str_field_get record_id_def apply_resolved_session_get [OF assms])

lemma apply_resolved_session_family:
  assumes "sid \<noteq> None \<or> spath \<noteq> None"
  shows "str_field (apply_resolved_session r own sid spath) (id_key (family_prefix f)) =
           (if f = owner_family own then sid else None)"
    and "str_field (apply_resolved_session r own sid spath) (path_key (family_prefix f)) =
           (if f = owner_family own then spath else None)"
  by (simp_all add: str_field_get apply_resolved_session_get [OF assms])

lemma apply_resolved_session_no_legacy:
  assumes "sid \<noteq> None \<or> spath \<noteq> None"
  shows "session_fields (apply_resolved_session r own sid spath) (owner_family own) =
    \<lparr>session_id = sid, session_path = spath, legacy_session_id = None, legacy_session_path = None\<rparr>"
proof -
  let ?r = "apply_resolved_session r own sid spath"
  have "List.find (\<lambda>(i, p). non_empty_text i \<or> non_empty_text p)
      (map (\<lambda>other. (str_field ?r (id_key other), str_field ?r (path_key other)))
        (filter (\<lambda>other. other \<noteq> family_prefix (owner_family own)) (map family_prefix all_families)))
    = None"
    unfolding find_None_iff
    by (auto simp: apply_resolved_session_family [OF assms] non_empty_text_def)
  then show ?thesis
    by (simp add: session_fields_def Let_def apply_resolved_session_family [OF assms])
qed

lemma apply_resolved_session_current:
  assumes "i \<noteq> []" "p \<noteq> []"
  shows "current_session (apply_resolved_session r own (Some i) (Some p)) = (Some i, Some p)"
  using assms
  by (simp add: current_session_def apply_resolved_session_owner apply_resolved_session_no_legacy
      Let_def non_empty_def)

lemma has_session_get:
  "has_session (apply_resolved_session r own sid spath) (family_prefix f) \<Longrightarrow>
   sid \<noteq> None \<or> spath \<noteq> None \<Longrightarrow> f = owner_family own"
  by (rule ccontr) (simp add: has_session_def filled_def apply_resolved_session_get)

end
