(* ===== verification/Reducer.thy ===== *)
theory Reducer
  imports SessionOwner "HOL-Library.Char_ord" "HOL-Library.List_Lexorder"
begin

text \<open>
  The task state machine of \<open>tasks/reducer.rs\<close>. Every operation works on the untyped rows of
  one project's \<open>tasks.json\<close> and reports whether anything moved. The per-row closure of an
  operation is its own definition (named \<open>.._row\<close>); the operation is \<^const>\<open>edit_rows\<close> of it,
  and an interpretation of \<open>row_edit\<close>, \<open>addressed_row_edit\<close> or \<open>settling_row_edit\<close>
  discharges the contract of that loop for it.
\<close>

section \<open>Status transitions\<close>

datatype Field = Set nat | Clear

record Transition =
  records :: "Record list"
  changed :: bool
  task :: "Record option"

definition status_of :: "Record \<Rightarrow> TaskStatus option" where
  "status_of r = Option.bind (str_field r ''status'') parse_status"

definition status_value :: "TaskStatus \<Rightarrow> Value" where
  "status_value s = String (status_word s)"

fun write_field :: "Record \<Rightarrow> string \<Rightarrow> Field \<Rightarrow> Record" where
  "write_field r key (Set n) = fmupd key (json_u64 n) r"
| "write_field r key Clear = fmdrop key r"

definition should_ignore_transition :: "TaskStatus option \<Rightarrow> TaskStatus \<Rightarrow> bool" where
  "should_ignore_transition current next \<longleftrightarrow>
    current = Some Detached \<and> (next = Running \<or> next = InputRequired)"

fun field_matches :: "Record \<Rightarrow> string \<Rightarrow> Field \<Rightarrow> bool" where
  "field_matches r key Clear = (get r key = None)"
| "field_matches r key (Set want) =
    (case get r key of Some (Number have) \<Rightarrow> number_as_u64 have = Some want | _ \<Rightarrow> False)"

definition attention_field :: "TaskStatus \<Rightarrow> nat option \<Rightarrow> nat \<Rightarrow> Field" where
  "attention_field status attention_requested_at now_ms =
    (if status = InputRequired then Set (unwrap_or attention_requested_at now_ms) else Clear)"

definition completed_field :: "Record \<Rightarrow> TaskStatus \<Rightarrow> nat \<Rightarrow> Field" where
  "completed_field r status now_ms =
    (if is_terminal status then
       (case get r ''completedAt'' of
          Some (Number n) \<Rightarrow>
            Set (unwrap_or (or_else (number_as_u64 n) (Option.bind (number_as_i64 n) u64_try_from)) now_ms)
        | _ \<Rightarrow> Set now_ms)
     else Clear)"

definition apply_status_transition_row ::
  "string \<Rightarrow> TaskStatus \<Rightarrow> nat option \<Rightarrow> string option \<Rightarrow> nat \<Rightarrow> Record \<Rightarrow> Record \<times> bool" where
  "apply_status_transition_row task_id status attention_requested_at failure_reason now_ms r =
    (if record_id r \<noteq> Some task_id then (r, False)
     else if should_ignore_transition (status_of r) status then (r, False)
     else
       let attention = attention_field status attention_requested_at now_ms;
           completed = completed_field r status now_ms in
       if status_of r = Some status \<and> field_matches r ''attentionRequestedAt'' attention
          \<and> field_matches r ''completedAt'' completed
       then (r, False)
       else
         let updated = write_field (write_field (fmupd ''status'' (status_value status) r)
                         ''attentionRequestedAt'' attention) ''completedAt'' completed in
         (case (status = Failed, failure_reason) of
            (True, Some reason) \<Rightarrow> (fmupd ''failureReason'' (String reason) updated, True)
          | _ \<Rightarrow> (updated, True)))"

definition apply_status_transition ::
  "Record list \<Rightarrow> string \<Rightarrow> TaskStatus \<Rightarrow> nat option \<Rightarrow> string option \<Rightarrow> nat \<Rightarrow> Transition" where
  "apply_status_transition rows task_id status attention_requested_at failure_reason now_ms =
    (let row = apply_status_transition_row task_id status attention_requested_at failure_reason now_ms;
         (next, moved) = edit_rows row rows
     in \<lparr>records = next, changed = moved, task = find_row (map (fst \<circ> row) rows) task_id\<rparr>)"

section \<open>Archive, star, name\<close>

definition is_archivable :: "Record \<Rightarrow> bool" where
  "is_archivable r = (case status_of r of
      Some status \<Rightarrow> \<not> (status = Running \<or> status = Pending)
    | None \<Rightarrow> True)"

definition has_number :: "Record \<Rightarrow> string \<Rightarrow> bool" where
  "has_number r key = (case get r key of Some v \<Rightarrow> is_number v | None \<Rightarrow> False)"

definition id_in :: "Record \<Rightarrow> string list \<Rightarrow> bool" where
  "id_in r task_ids = (case record_id r of Some i \<Rightarrow> i \<in> set task_ids | None \<Rightarrow> False)"

definition archivable_now :: "string list \<Rightarrow> Record \<Rightarrow> bool" where
  "archivable_now task_ids r \<longleftrightarrow>
    id_in r task_ids \<and> is_archivable r \<and> \<not> has_number r ''archivedAt''"

definition archive :: "Record list \<Rightarrow> string list \<Rightarrow> nat \<Rightarrow> Record list \<times> bool" where
  "archive rows task_ids now_ms =
    (let selected = filter (\<lambda>i. archivable_now task_ids (rows ! i)) [0..<length rows] in
     if selected = [] then (rows, False)
     else (foldl (\<lambda>next i. next[i := fmupd ''archivedAt'' (json_u64 now_ms) (next ! i)]) rows selected,
           True))"

definition unarchive_row :: "string list \<Rightarrow> Record \<Rightarrow> Record \<times> bool" where
  "unarchive_row task_ids r =
    (if \<not> id_in r task_ids \<or> \<not> has_number r ''archivedAt'' then (r, False)
     else (fmdrop ''archivedAt'' r, True))"

definition unarchive :: "Record list \<Rightarrow> string list \<Rightarrow> Record list \<times> bool" where
  "unarchive rows task_ids = edit_rows (unarchive_row task_ids) rows"

definition toggle_star :: "Record list \<Rightarrow> string \<Rightarrow> Record list" where
  "toggle_star rows task_id = map (\<lambda>r.
    if record_id r \<noteq> Some task_id then r
    else fmupd ''starred'' (Bool (\<not> unwrap_or (Option.bind (get r ''starred'') as_bool) False)) r) rows"

definition rename_task :: "Record list \<Rightarrow> string \<Rightarrow> string \<Rightarrow> Record list" where
  "rename_task rows task_id name = map (\<lambda>r.
    if record_id r \<noteq> Some task_id then r
    else if name = [] then fmdrop ''name'' r
    else fmupd ''name'' (String name) r) rows"

section \<open>Rollback and merge\<close>

definition copy_key :: "string \<Rightarrow> Record \<Rightarrow> Record \<Rightarrow> Record" where
  "copy_key key source r = (case get source key of
      Some v \<Rightarrow> fmupd key v r
    | None \<Rightarrow> fmdrop key r)"

definition rollback_mutation :: "Record \<Rightarrow> Record \<Rightarrow> Record \<Rightarrow> Record" where
  "rollback_mutation current previous applied =
    foldl (\<lambda>restored key.
        if get previous key = get applied key \<or> get current key \<noteq> get applied key then restored
        else copy_key key previous restored)
      current (sorted_list_of_fset (fmdom previous |\<union>| fmdom applied))"

definition SESSION_FIELDS :: "string list" where
  "SESSION_FIELDS =
    [''claudeSessionId'', ''claudeSessionPath'', ''codexSessionId'', ''codexSessionPath'',
     ''dshSessionId'', ''dshSessionPath'', ''ompSessionId'', ''ompSessionPath'',
     ''sessionAgent'', ''sessionCodexLike'', ''sessionFamily'', ''resumeFamily'']"

definition merge_changed_session_fields :: "Record \<Rightarrow> Record \<Rightarrow> Record \<Rightarrow> Record" where
  "merge_changed_session_fields current previous source =
    foldl (\<lambda>next key. if get source key = get previous key then next else copy_key key source next)
      current SESSION_FIELDS"

record RenameExpect =
  expect_name :: string
  expect_prompt :: string
  expect_status :: TaskStatus
  expect_session_path :: "string option"

definition rename_precondition_holds :: "Record \<Rightarrow> RenameExpect \<Rightarrow> string option \<Rightarrow> bool" where
  "rename_precondition_holds r expect current_session_path \<longleftrightarrow>
    expect_name expect = unwrap_or (str_field r ''name'') []
    \<and> expect_prompt expect = unwrap_or (str_field r ''prompt'') []
    \<and> status_of r = Some (expect_status expect)
    \<and> expect_session_path expect = current_session_path"

section \<open>Session, worktree and diff facts\<close>

text \<open>\<open>if &updated == record { return record.clone() } changed = true; updated\<close>.\<close>

definition note_change :: "Record \<Rightarrow> Record \<Rightarrow> Record \<times> bool" where
  "note_change r updated = (if updated = r then (r, False) else (updated, True))"

definition blank_text :: "string option \<Rightarrow> bool" where
  "blank_text v = (case v of None \<Rightarrow> True | Some s \<Rightarrow> s = [])"

definition attach_session_row ::
  "string \<Rightarrow> ProtocolFamily \<Rightarrow> string \<Rightarrow> string option \<Rightarrow> string option \<Rightarrow> Record \<Rightarrow> Record \<times> bool" where
  "attach_session_row task_id family session_agent sid spath r =
    (if record_id r \<noteq> Some task_id then (r, False)
     else
       let prefix = family_prefix family;
           own = \<lparr>owner_agent = session_agent, owner_family = family, codex_like = (family = Codex)\<rparr>
       in note_change r (apply_resolved_session r own
            (or_else sid (str_field r (id_key prefix)))
            (or_else spath (str_field r (path_key prefix)))))"

definition attach_session ::
  "Record list \<Rightarrow> string \<Rightarrow> ProtocolFamily \<Rightarrow> string \<Rightarrow> string option \<Rightarrow> string option \<Rightarrow>
   Record list \<times> bool" where
  "attach_session rows task_id family session_agent sid spath =
    (if blank_text sid \<and> blank_text spath then (rows, False)
     else edit_rows (attach_session_row task_id family session_agent sid spath) rows)"

definition detach_keys :: "string list" where
  "detach_keys =
    concat (map (\<lambda>family. [id_key (family_prefix family), path_key (family_prefix family)]) all_families)
    @ [''sessionId'', ''sessionPath'']"

definition detach_session_row :: "string \<Rightarrow> Record \<Rightarrow> Record \<times> bool" where
  "detach_session_row task_id r =
    (if record_id r \<noteq> Some task_id \<or> \<not> list_ex (contains r) detach_keys then (r, False)
     else (drop_keys detach_keys r, True))"

definition detach_session :: "Record list \<Rightarrow> string \<Rightarrow> Record list \<times> bool" where
  "detach_session rows task_id = edit_rows (detach_session_row task_id) rows"

definition set_worktree_row ::
  "string \<Rightarrow> string \<Rightarrow> string \<Rightarrow> string \<Rightarrow> Record \<Rightarrow> Record \<times> bool" where
  "set_worktree_row task_id path branch base_branch r =
    (if record_id r \<noteq> Some task_id then (r, False)
     else note_change r
       (fmdrop ''worktreeDiscarded''
         (fmupd ''baseBranch'' (String base_branch)
           (fmupd ''worktreeBranch'' (String branch)
             (fmupd ''worktreePath'' (String path) r)))))"

definition set_worktree ::
  "Record list \<Rightarrow> string \<Rightarrow> string \<Rightarrow> string \<Rightarrow> string \<Rightarrow> Record list \<times> bool" where
  "set_worktree rows task_id path branch base_branch =
    edit_rows (set_worktree_row task_id path branch base_branch) rows"

definition discard_worktree_row :: "string \<Rightarrow> Record \<Rightarrow> Record \<times> bool" where
  "discard_worktree_row task_id r =
    (if record_id r \<noteq> Some task_id \<or> get r ''worktreeDiscarded'' = Some (Bool True) then (r, False)
     else (fmupd ''worktreeDiscarded'' (Bool True) r, True))"

definition discard_worktree :: "Record list \<Rightarrow> string \<Rightarrow> Record list \<times> bool" where
  "discard_worktree rows task_id = edit_rows (discard_worktree_row task_id) rows"

definition record_diff_stats_row :: "string \<Rightarrow> nat \<Rightarrow> nat \<Rightarrow> Record \<Rightarrow> Record \<times> bool" where
  "record_diff_stats_row task_id additions deletions r =
    (if record_id r \<noteq> Some task_id then (r, False)
     else note_change r
       (fmupd ''deletions'' (json_u64 deletions) (fmupd ''additions'' (json_u64 additions) r)))"

definition record_diff_stats :: "Record list \<Rightarrow> string \<Rightarrow> nat \<Rightarrow> nat \<Rightarrow> Record list \<times> bool" where
  "record_diff_stats rows task_id additions deletions =
    edit_rows (record_diff_stats_row task_id additions deletions) rows"

section \<open>Start-up repair\<close>

definition is_active :: "Record \<Rightarrow> bool" where
  "is_active r = (case status_of r of
      Some s \<Rightarrow> s = Pending \<or> s = Running \<or> s = InputRequired
    | None \<Rightarrow> False)"

definition interrupt_row :: "nat \<Rightarrow> Record \<Rightarrow> Record" where
  "interrupt_row now_ms r =
    (let updated = fmupd ''status'' (status_value Interrupted) r in
     if \<not> contains updated ''attentionRequestedAt''
     then write_field updated ''attentionRequestedAt'' (Set now_ms) else updated)"

definition settle_orphaned_step ::
  "(Record \<Rightarrow> bool) \<Rightarrow> nat \<Rightarrow> Record list \<times> string list \<Rightarrow> Record \<Rightarrow> Record list \<times> string list" where
  "settle_orphaned_step is_orphan now_ms st r =
    (case record_id r of
       None \<Rightarrow> st
     | Some task_id \<Rightarrow>
        if \<not> is_active r \<or> \<not> is_orphan r then st
        else
          let failed = (case str_field r ''failureReason'' of
                Some reason \<Rightarrow> \<not> is_blank reason | None \<Rightarrow> False);
              next = (if failed
                then records (apply_status_transition (fst st) task_id Failed None None now_ms)
                else fst (update_record (fst st) task_id (interrupt_row now_ms)))
          in (next, snd st @ [task_id]))"

definition settle_orphaned_sessions ::
  "Record list \<Rightarrow> (Record \<Rightarrow> bool) \<Rightarrow> nat \<Rightarrow> Record list \<times> string list" where
  "settle_orphaned_sessions rows is_orphan now_ms =
    foldl (settle_orphaned_step is_orphan now_ms) (rows, []) rows"

definition boot_status_row :: "bool \<Rightarrow> nat \<Rightarrow> Record \<Rightarrow> Record \<times> bool" where
  "boot_status_row live now_ms r =
    (if is_active r \<or> status_of r = Some Interrupted \<and> live then
       let target = (if live then Detached else Interrupted);
           (u, touched) = (if status_of r \<noteq> Some target
             then (fmupd ''status'' (status_value target) r, True) else (r, False))
       in if \<not> contains u ''attentionRequestedAt''
          then (fmupd ''attentionRequestedAt'' (json_u64 now_ms) u, True) else (u, touched)
     else (r, False))"

definition fast_dsh :: "(string \<Rightarrow> bool) \<Rightarrow> Record \<Rightarrow> bool" where
  "fast_dsh is_dsh r \<longleftrightarrow> str_field r ''speed'' = Some ''fast''
    \<and> (case str_field r ''agent'' of Some a \<Rightarrow> is_dsh a | None \<Rightarrow> False)"

definition normalize_after_boot_row ::
  "string list \<Rightarrow> nat \<Rightarrow> (string \<Rightarrow> bool) \<Rightarrow> Record \<Rightarrow> Record \<times> bool" where
  "normalize_after_boot_row live_task_ids now_ms is_dsh r =
    (let (u1, t1) = boot_status_row (id_in r live_task_ids) now_ms r;
         (u2, t2) = (if fast_dsh is_dsh r
           then (fmupd ''speed'' (String ''standard'') u1, True) else (u1, t1))
     in if t2 then (u2, True) else (r, False))"

definition normalize_after_boot ::
  "Record list \<Rightarrow> string list \<Rightarrow> nat \<Rightarrow> (string \<Rightarrow> bool) \<Rightarrow> Record list \<times> bool" where
  "normalize_after_boot rows live_task_ids now_ms is_dsh =
    edit_rows (normalize_after_boot_row live_task_ids now_ms is_dsh) rows"

section \<open>Todo edits and field deltas\<close>

definition edit_todo_row :: "string \<Rightarrow> string \<Rightarrow> string \<Rightarrow> string \<Rightarrow> Record \<Rightarrow> Record \<times> bool" where
  "edit_todo_row task_id prompt agent permission_mode r =
    (if record_id r \<noteq> Some task_id \<or> status_of r \<noteq> Some Todo then (r, False)
     else note_change r
       (fmupd ''permissionMode'' (String permission_mode)
         (fmupd ''agent'' (String agent) (fmupd ''prompt'' (String prompt) r))))"

definition edit_todo ::
  "Record list \<Rightarrow> string \<Rightarrow> string \<Rightarrow> string \<Rightarrow> string \<Rightarrow> Record list \<times> bool" where
  "edit_todo rows task_id prompt agent permission_mode =
    edit_rows (edit_todo_row task_id prompt agent permission_mode) rows"

definition apply_delta :: "(string \<times> Value option) list \<Rightarrow> Record \<Rightarrow> Record" where
  "apply_delta delta r = foldl (\<lambda>u (key, v). case v of
      Some x \<Rightarrow> if get u key \<noteq> Some x then fmupd key x u else u
    | None \<Rightarrow> fmdrop key u) r delta"

definition apply_field_delta_row ::
  "string \<Rightarrow> (string \<times> Value option) list \<Rightarrow> Record \<Rightarrow> Record \<times> bool" where
  "apply_field_delta_row task_id delta r =
    (if record_id r \<noteq> Some task_id \<or> delta = [] then (r, False)
     else note_change r (apply_delta delta r))"

definition apply_field_delta ::
  "Record list \<Rightarrow> string \<Rightarrow> (string \<times> Value option) list \<Rightarrow> Record list \<times> bool" where
  "apply_field_delta rows task_id delta = edit_rows (apply_field_delta_row task_id delta) rows"

section \<open>The loop contract, operation by operation\<close>

lemmas row_simps = note_change_def Let_def

lemma get_write_field [simp]:
  "get (write_field r k f) k' =
    (if k = k' then (case f of Set n \<Rightarrow> Some (json_u64 n) | Clear \<Rightarrow> None) else get r k')"
  by (cases f) auto

lemma str_field_write_field [simp]: "k \<noteq> k' \<Longrightarrow> str_field (write_field r k f) k' = str_field r k'"
  by (cases f) auto

lemma record_id_write_field [simp]: "k \<noteq> ''id'' \<Longrightarrow> record_id (write_field r k f) = record_id r"
  by (simp add: record_id_def)

lemma status_of_simps [simp]:
  "k \<noteq> ''status'' \<Longrightarrow> status_of (fmupd k v r) = status_of r"
  "k \<noteq> ''status'' \<Longrightarrow> status_of (fmdrop k r) = status_of r"
  "k \<noteq> ''status'' \<Longrightarrow> status_of (write_field r k f) = status_of r"
  "status_of (fmupd ''status'' (status_value s) r) = Some s"
  by (simp_all add: status_of_def status_value_def)

lemma contains_get: "contains r k \<longleftrightarrow> get r k \<noteq> None"
  by (simp add: contains_def get_def)

lemma note_change_simps [simp]:
  "fst (note_change r u) = u" "snd (note_change r u) \<longleftrightarrow> u \<noteq> r"
  by (simp_all add: note_change_def)

lemma id_in_simps [simp]:
  "k \<noteq> ''id'' \<Longrightarrow> id_in (fmupd k v r) ids = id_in r ids"
  "k \<noteq> ''id'' \<Longrightarrow> id_in (fmdrop k r) ids = id_in r ids"
  by (simp_all add: id_in_def)

lemma field_matches_write [simp]: "field_matches (write_field r k f) k f"
  by (cases f) (simp_all add: number_as_u64_def)

lemma field_matches_iff:
  "field_matches r k f \<longleftrightarrow> get r k = (case f of Set n \<Rightarrow> Some (json_u64 n) | Clear \<Rightarrow> None)"
  by (cases f) (auto simp: number_as_u64_def split: option.splits Value.splits json_number.splits)

lemma record_id_apply_resolved_session [simp]:
  "record_id (apply_resolved_session r own sid spath) = record_id r"
proof (cases "sid = None \<and> spath = None")
  case False
  then have "sid \<noteq> None \<or> spath \<noteq> None" by simp
  then show ?thesis by (rule apply_resolved_session_owner(3))
qed (simp add: apply_resolved_session_def)

lemma detach_keys_families:
  "set detach_keys = set session_keys \<union> {''sessionId'', ''sessionPath''}"
  by (auto simp: detach_keys_def session_keys_families)

lemma id_not_detach [simp]: "''id'' \<notin> set detach_keys"
  by (simp add: detach_keys_families)

interpretation transition_edit:
  addressed_row_edit record_id "apply_status_transition_row t s a f n" "Some t" for t s a f n
  by unfold_locales
    (auto simp: apply_status_transition_row_def Let_def split: option.splits bool.splits)

interpretation unarchive_edit: row_edit record_id "unarchive_row ids" for ids
  by unfold_locales (auto simp: unarchive_row_def)

interpretation attach_edit:
  addressed_row_edit record_id "attach_session_row t fam agent sid spath" "Some t"
  for t fam agent sid spath
  by unfold_locales (auto simp: attach_session_row_def Let_def)

interpretation detach_edit: addressed_row_edit record_id "detach_session_row t" "Some t" for t
  by unfold_locales (auto simp: detach_session_row_def)

interpretation set_worktree_edit:
  addressed_row_edit record_id "set_worktree_row t path branch base" "Some t" for t path branch base
  by unfold_locales (auto simp: set_worktree_row_def)

interpretation discard_worktree_edit:
  addressed_row_edit record_id "discard_worktree_row t" "Some t" for t
  by unfold_locales (auto simp: discard_worktree_row_def)

interpretation diff_stats_edit:
  addressed_row_edit record_id "record_diff_stats_row t add del" "Some t" for t add del
  by unfold_locales (auto simp: record_diff_stats_row_def)

interpretation edit_todo_edit:
  addressed_row_edit record_id "edit_todo_row t p a m" "Some t" for t p a m
  by unfold_locales (auto simp: edit_todo_row_def)

lemma is_active_simps [simp]:
  "is_active (fmupd ''status'' (status_value s) r) \<longleftrightarrow> s = Pending \<or> s = Running \<or> s = InputRequired"
  "k \<noteq> ''status'' \<Longrightarrow> is_active (fmupd k v r) = is_active r"
  by (simp_all add: is_active_def)

lemma is_active_not:
  "status_of r = Some Detached \<or> status_of r = Some Interrupted \<Longrightarrow> \<not> is_active r"
  by (auto simp: is_active_def)

lemma boot_status_row_quiet: "\<not> snd (boot_status_row l n r) \<Longrightarrow> fst (boot_status_row l n r) = r"
  by (auto simp: boot_status_row_def Let_def split: if_splits)

lemma boot_status_row_keeps:
  "k \<notin> {''status'', ''attentionRequestedAt''} \<Longrightarrow> get (fst (boot_status_row l n r)) k = get r k"
  by (auto simp: boot_status_row_def Let_def)

lemma boot_status_row_status:
  "status_of (fst (boot_status_row l n r)) =
    (if is_active r \<or> status_of r = Some Interrupted \<and> l
     then Some (if l then Detached else Interrupted) else status_of r)"
  by (auto simp: boot_status_row_def Let_def)

lemma normalize_row_fst:
  "fst (normalize_after_boot_row ids n dsh r) =
    (let u = fst (boot_status_row (id_in r ids) n r)
     in if fast_dsh dsh r then fmupd ''speed'' (String ''standard'') u else u)"
  "snd (normalize_after_boot_row ids n dsh r) \<longleftrightarrow>
    fast_dsh dsh r \<or> snd (boot_status_row (id_in r ids) n r)"
  using boot_status_row_quiet [of "id_in r ids" n r]
  by (auto simp: normalize_after_boot_row_def Let_def split: prod.splits)

lemma normalize_row_quiet:
  "\<not> snd (normalize_after_boot_row ids n dsh r) \<Longrightarrow> fst (normalize_after_boot_row ids n dsh r) = r"
  by (simp add: normalize_row_fst boot_status_row_quiet)

lemma normalize_row_keeps:
  "k \<notin> {''status'', ''attentionRequestedAt'', ''speed''} \<Longrightarrow>
   get (fst (normalize_after_boot_row ids n dsh r)) k = get r k"
  by (auto simp: normalize_row_fst Let_def boot_status_row_keeps)

lemma normalize_row_id [simp]:
  "record_id (fst (normalize_after_boot_row ids n dsh r)) = record_id r"
  by (simp add: record_id_def str_field_get normalize_row_keeps)

lemma normalize_row_status:
  "status_of (fst (normalize_after_boot_row ids n dsh r)) =
    (if is_active r \<or> status_of r = Some Interrupted \<and> id_in r ids
     then Some (if id_in r ids then Detached else Interrupted) else status_of r)"
  by (simp add: normalize_row_fst Let_def boot_status_row_status)

interpretation normalize_edit: row_edit record_id "normalize_after_boot_row ids n dsh" for ids n dsh
  by unfold_locales (simp_all add: normalize_row_quiet)

section \<open>Edits that settle\<close>

lemma completed_field_settled:
  "get r ''completedAt'' = (case completed_field r0 s n of Set m \<Rightarrow> Some (json_u64 m) | Clear \<Rightarrow> None) \<Longrightarrow>
   completed_field r s n' = completed_field r0 s n"
  by (cases "is_terminal s")
    (auto simp: completed_field_def number_as_u64_def split: option.splits Value.splits)

lemma transition_row_cases:
  fixes r t s a f n
  assumes "record_id r = Some t" "\<not> should_ignore_transition (status_of r) s"
  defines "r' \<equiv> fst (apply_status_transition_row t s a f n r)"
  shows "record_id r' = Some t" "status_of r' = Some s"
    and "get r' ''attentionRequestedAt'' =
      (case attention_field s a n of Set m \<Rightarrow> Some (json_u64 m) | Clear \<Rightarrow> None)"
    and "get r' ''completedAt'' =
      (case completed_field r s n of Set m \<Rightarrow> Some (json_u64 m) | Clear \<Rightarrow> None)"
    and "k \<notin> {''status'', ''attentionRequestedAt'', ''completedAt'', ''failureReason''} \<Longrightarrow>
      get r' k = get r k"
  using assms(1,2) unfolding r'_def apply_status_transition_row_def Let_def
  by (auto simp: field_matches_iff split: option.splits bool.splits)

lemma transition_row_elsewhere:
  "record_id r \<noteq> Some t \<or> should_ignore_transition (status_of r) s \<Longrightarrow>
   apply_status_transition_row t s a f n r = (r, False)"
  by (auto simp: apply_status_transition_row_def)

lemma transition_row_settles:
  assumes "attention_field s a' n' = attention_field s a n"
  shows "\<not> snd (apply_status_transition_row t s a' f' n' (fst (apply_status_transition_row t s a f n r)))"
proof (cases "record_id r = Some t \<and> \<not> should_ignore_transition (status_of r) s")
  case True
  let ?r = "fst (apply_status_transition_row t s a f n r)"
  note facts = transition_row_cases [where r = r and t = t and s = s and a = a and f = f and n = n]
  have "completed_field ?r s n' = completed_field r s n"
    using True by (intro completed_field_settled facts(4)) simp_all
  then show ?thesis
    using True facts(1-4) assms
    by (simp add: apply_status_transition_row_def [of t s a' f' n'] field_matches_iff Let_def)
next
  case False
  then show ?thesis by (auto simp: transition_row_elsewhere)
qed

lemma attention_field_explicit: "attention_field s (Some a) n' = attention_field s (Some a) n"
  by (simp add: attention_field_def)

interpretation transition_settles:
  settling_row_edit record_id "apply_status_transition_row t s (Some a) f n"
    "apply_status_transition_row t s (Some a) f' n'" for t s a f n f' n'
  by unfold_locales (rule transition_row_settles [OF attention_field_explicit])

interpretation unarchive_settles:
  settling_row_edit record_id "unarchive_row ids" "unarchive_row ids" for ids
  by unfold_locales (auto simp: unarchive_row_def has_number_def split: option.splits)

interpretation discard_worktree_settles:
  settling_row_edit record_id "discard_worktree_row t" "discard_worktree_row t" for t
  by unfold_locales (auto simp: discard_worktree_row_def)

interpretation set_worktree_settles:
  settling_row_edit record_id "set_worktree_row t p b m" "set_worktree_row t p b m" for t p b m
  by unfold_locales (auto simp: set_worktree_row_def intro!: record_eqI)

interpretation detach_settles:
  settling_row_edit record_id "detach_session_row t" "detach_session_row t" for t
  by unfold_locales (auto simp: detach_session_row_def list_ex_iff contains_get split: if_splits)

lemma normalize_row_inactive:
  defines "u \<equiv> \<lambda>ids n dsh r. fst (normalize_after_boot_row ids n dsh r)"
  shows "\<not> is_active (u ids n dsh r)" "\<not> (status_of (u ids n dsh r) = Some Interrupted \<and> id_in r ids)"
  by (auto simp: u_def normalize_row_status is_active_def split: option.splits)

lemma normalize_row_slow: "\<not> fast_dsh dsh (fst (normalize_after_boot_row ids n dsh r))"
  by (auto simp: normalize_row_fst fast_dsh_def Let_def str_field_get boot_status_row_keeps)

lemma normalize_row_settles:
  "\<not> snd (normalize_after_boot_row ids n' dsh (fst (normalize_after_boot_row ids n dsh r)))"
  using normalize_row_inactive [of ids n dsh r]
  by (auto simp: normalize_row_fst(2) normalize_row_slow boot_status_row_def id_in_def)

interpretation normalize_settles:
  settling_row_edit record_id "normalize_after_boot_row ids n dsh" "normalize_after_boot_row ids n' dsh"
  for ids n n' dsh
  by unfold_locales (rule normalize_row_settles)

section \<open>Rollback and merge, key by key\<close>

lemma get_copy_key [simp]: "get (copy_key k s r) k' = (if k = k' then get s k else get r k')"
  by (auto simp: copy_key_def split: option.splits)

text \<open>A loop that rewrites the chosen keys of a row from a fixed source.\<close>

lemma get_copy_loop:
  "get (foldl (\<lambda>u k. if skip k then u else copy_key k s u) r ks) k =
    (if k \<in> set ks \<and> \<not> skip k then get s k else get r k)"
  by (induction ks arbitrary: r) auto

lemma get_rollback_mutation:
  "get (rollback_mutation c p a) k =
    (if get p k \<noteq> get a k \<and> get c k = get a k then get p k else get c k)"
proof -
  have "k \<in> fset (fmdom p |\<union>| fmdom a)" if "get p k \<noteq> get a k"
    using that by (auto simp: get_def fmlookup_dom_iff intro: ccontr)
  then show ?thesis
    by (auto simp: rollback_mutation_def get_copy_loop)
qed

lemma get_merge_changed_session_fields:
  "get (merge_changed_session_fields c p s) k =
    (if k \<in> set SESSION_FIELDS \<and> get s k \<noteq> get p k then get s k else get c k)"
  by (simp add: merge_changed_session_fields_def get_copy_loop)

section \<open>Archiving as a row edit\<close>

definition archive_row :: "string list \<Rightarrow> nat \<Rightarrow> Record \<Rightarrow> Record \<times> bool" where
  "archive_row ids n r =
    (if archivable_now ids r then (fmupd ''archivedAt'' (json_u64 n) r, True) else (r, False))"

interpretation archive_edit: row_edit record_id "archive_row ids n" for ids n
  by unfold_locales (auto simp: archive_row_def)

lemma update_selected:
  "distinct is \<Longrightarrow> \<forall>i \<in> set is. i < length xs \<Longrightarrow> i < length xs \<Longrightarrow>
   foldl (\<lambda>ys i. ys[i := g (ys ! i)]) xs is ! i = (if i \<in> set is then g (xs ! i) else xs ! i)"
proof (induction "is" arbitrary: xs)
  case (Cons j js)
  then show ?case by (cases "i = j") auto
qed simp

lemma length_update_selected [simp]:
  "length (foldl (\<lambda>ys i. ys[i := g (ys ! i)]) xs is) = length xs"
  by (induction "is" arbitrary: xs) auto

lemma archive_is_row_edit: "archive rows ids n = edit_rows (archive_row ids n) rows"
proof (cases "list_ex (archivable_now ids) rows")
  case True
  let ?sel = "filter (\<lambda>i. archivable_now ids (rows ! i)) [0..<length rows]"
  from True obtain i where "i \<in> set ?sel" by (auto simp: list_ex_iff in_set_conv_nth)
  then have "?sel \<noteq> []" by (metis empty_iff list.set(1))
  moreover have "foldl (\<lambda>next i. next[i := fmupd ''archivedAt'' (json_u64 n) (next ! i)]) rows ?sel
      = map (fst \<circ> archive_row ids n) rows"
    by (rule nth_equalityI) (auto simp: update_selected archive_row_def)
  moreover have "snd (edit_rows (archive_row ids n) rows)"
    using True by (auto simp: edit_rows_def Let_def list_ex_iff archive_row_def)
  ultimately show ?thesis
    using archive_edit.edit_rows_map [of ids n rows] by (simp add: archive_def prod_eq_iff)
next
  case False
  then have "filter (\<lambda>i. archivable_now ids (rows ! i)) [0..<length rows] = []"
    by (auto simp: filter_empty_conv list_ex_iff)
  with False show ?thesis
    by (auto simp: archive_def edit_rows_def archive_row_def list_ex_iff)
qed

section \<open>The end time of a row\<close>

text \<open>A readable row carries an end time exactly when its status is terminal.\<close>

definition end_time_ok :: "Record \<Rightarrow> bool" where
  "end_time_ok r = (case status_of r of
      Some s \<Rightarrow> contains r ''completedAt'' = is_terminal s
    | None \<Rightarrow> True)"

lemma end_time_ok_keeps:
  "get r' ''completedAt'' = get r ''completedAt'' \<Longrightarrow> status_of r' = status_of r \<Longrightarrow>
   end_time_ok r' = end_time_ok r"
  by (simp add: end_time_ok_def contains_get split: option.split)

lemma status_of_get: "status_of r = Option.bind (Option.bind (get r ''status'') as_str) parse_status"
  by (simp add: status_of_def str_field_get)

lemma end_time_ok_frame:
  "get r' ''completedAt'' = get r ''completedAt'' \<Longrightarrow> get r' ''status'' = get r ''status'' \<Longrightarrow>
   end_time_ok r' = end_time_ok r"
  by (rule end_time_ok_keeps) (simp_all add: status_of_get)

lemma end_time_frameI:
  "end_time_ok r \<Longrightarrow> get r' ''completedAt'' = get r ''completedAt'' \<Longrightarrow>
   get r' ''status'' = get r ''status'' \<Longrightarrow> end_time_ok r'"
  using end_time_ok_frame [of r' r] by simp

lemma completed_field_shape: "completed_field r s n = Clear \<longleftrightarrow> \<not> is_terminal s"
  by (auto simp: completed_field_def split: option.splits Value.splits)

lemma transition_row_end_time:
  "end_time_ok r \<Longrightarrow> end_time_ok (fst (apply_status_transition_row t s a f n r))"
proof (cases "record_id r = Some t \<and> \<not> should_ignore_transition (status_of r) s")
  case True
  then show ?thesis
    using transition_row_cases(2,4) [of r t s a f n] completed_field_shape [of r s n]
    by (auto simp: end_time_ok_def contains_get split: Field.splits)
next
  case False
  then show "end_time_ok r \<Longrightarrow> ?thesis" by (auto simp: transition_row_elsewhere)
qed

lemma interrupt_row_end_time:
  "is_active r \<Longrightarrow> end_time_ok r \<Longrightarrow> end_time_ok (interrupt_row n r)"
  by (auto simp: end_time_ok_def is_active_def interrupt_row_def contains_get Let_def
      split: option.splits)

lemma normalize_row_end_time:
  "end_time_ok r \<Longrightarrow> end_time_ok (fst (normalize_after_boot_row ids n dsh r))"
  by (auto simp: end_time_ok_def contains_get normalize_row_status normalize_row_keeps is_active_def
      split: option.splits if_splits)

lemma session_keys_frame [simp]:
  "''completedAt'' \<notin> set session_keys" "''status'' \<notin> set session_keys"
  "''completedAt'' \<notin> set detach_keys" "''status'' \<notin> set detach_keys"
  "id_key (family_prefix fam) \<noteq> ''completedAt''" "path_key (family_prefix fam) \<noteq> ''completedAt''"
  "''completedAt'' \<noteq> id_key (family_prefix fam)" "''completedAt'' \<noteq> path_key (family_prefix fam)"
  by (simp add: session_keys_def detach_keys_def session_prefixes_def all_families_def session_key_defs;
      cases fam; simp add: session_key_defs)+

lemma apply_resolved_session_frame:
  "get (apply_resolved_session r own sid spath) ''completedAt'' = get r ''completedAt''"
  "get (apply_resolved_session r own sid spath) ''status'' = get r ''status''"
  by (cases "sid = None \<and> spath = None";
      simp add: apply_resolved_session_get; simp add: apply_resolved_session_def)+

section \<open>Settling orphaned sessions, row by row\<close>

definition distinct_ids :: "Record list \<Rightarrow> bool" where
  "distinct_ids rows \<longleftrightarrow> distinct (filter (\<lambda>i. i \<noteq> None) (map record_id rows))"

definition has_failure :: "Record \<Rightarrow> bool" where
  "has_failure r = (case str_field r ''failureReason'' of
      Some reason \<Rightarrow> \<not> is_blank reason | None \<Rightarrow> False)"

definition orphan_row :: "(Record \<Rightarrow> bool) \<Rightarrow> Record \<Rightarrow> bool" where
  "orphan_row is_orphan r \<longleftrightarrow> record_id r \<noteq> None \<and> is_active r \<and> is_orphan r"

definition settle_row :: "(Record \<Rightarrow> bool) \<Rightarrow> nat \<Rightarrow> Record \<Rightarrow> Record" where
  "settle_row is_orphan n r =
    (if \<not> orphan_row is_orphan r then r
     else if has_failure r
     then fst (apply_status_transition_row (the (record_id r)) Failed None None n r)
     else interrupt_row n r)"

lemma record_id_interrupt_row [simp]: "record_id (interrupt_row n r) = record_id r"
  by (simp add: interrupt_row_def Let_def)

lemma record_id_settle_row [simp]: "record_id (settle_row orphan n r) = record_id r"
  by (simp add: settle_row_def transition_edit.keeps_ident)

lemma transition_records:
  "records (apply_status_transition rows t s a f n) =
    map (fst \<circ> apply_status_transition_row t s a f n) rows"
  using transition_edit.edit_rows_map [of t s a f n rows]
  by (simp add: apply_status_transition_def Let_def case_prod_beta)

lemma transition_one_row:
  assumes "Some t \<notin> record_id ` set xs" "Some t \<notin> record_id ` set ys"
  shows "records (apply_status_transition (xs @ y # ys) t s a f n) =
    xs @ fst (apply_status_transition_row t s a f n y) # ys"
proof -
  have "map (fst \<circ> apply_status_transition_row t s a f n) zs = zs"
    if "Some t \<notin> record_id ` set zs" for zs
  proof (rule map_idI)
    fix z assume "z \<in> set zs"
    with that have "record_id z \<noteq> Some t" by (metis imageI)
    then show "(fst \<circ> apply_status_transition_row t s a f n) z = z"
      by (simp add: transition_row_elsewhere)
  qed
  with assms show ?thesis by (simp add: transition_records)
qed

lemma update_one_row:
  "Some t \<notin> record_id ` set xs \<Longrightarrow> record_id y = Some t \<Longrightarrow>
   fst (update_record (xs @ y # ys) t g) = xs @ g y # ys"
  by (induction xs) (auto split: prod.splits)

lemma settle_orphaned_fold:
  assumes "distinct_ids (xs @ ys)"
  shows "foldl (settle_orphaned_step orphan n) (map (settle_row orphan n) xs @ ys, acc) ys =
    (map (settle_row orphan n) (xs @ ys), acc @ map (the \<circ> record_id) (filter (orphan_row orphan) ys))"
  using assms
proof (induction ys arbitrary: xs acc)
  case (Cons y ys)
  have ids: "Some t \<notin> record_id ` set (map (settle_row orphan n) xs)" "Some t \<notin> record_id ` set ys"
    if "record_id y = Some t" for t
    using Cons.prems that by (auto simp: distinct_ids_def image_iff)
  have "settle_orphaned_step orphan n (map (settle_row orphan n) xs @ y # ys, acc) y =
      (map (settle_row orphan n) (xs @ [y]) @ ys,
       acc @ map (the \<circ> record_id) (filter (orphan_row orphan) [y]))"
    using ids
    by (auto simp: settle_orphaned_step_def settle_row_def orphan_row_def has_failure_def Let_def
        transition_one_row update_one_row simp del: set_map split: option.splits)
  with Cons.IH [of "xs @ [y]"] Cons.prems show ?case by simp
qed simp

lemma settle_orphaned_rows:
  "distinct_ids rows \<Longrightarrow> settle_orphaned_sessions rows orphan n =
    (map (settle_row orphan n) rows, map (the \<circ> record_id) (filter (orphan_row orphan) rows))"
  using settle_orphaned_fold [of "[]" rows orphan n "[]"] by (simp add: settle_orphaned_sessions_def)

lemma settle_row_end_time: "end_time_ok r \<Longrightarrow> end_time_ok (settle_row orphan n r)"
  by (simp add: settle_row_def orphan_row_def transition_row_end_time interrupt_row_end_time)

section \<open>Every operation as a step\<close>

inductive reducer_step :: "Record list \<Rightarrow> Record list \<Rightarrow> bool" for rows where
  status: "reducer_step rows (records (apply_status_transition rows t s a f n))"
| archive: "reducer_step rows (fst (archive rows ids n))"
| unarchive: "reducer_step rows (fst (unarchive rows ids))"
| star: "reducer_step rows (toggle_star rows t)"
| rename: "reducer_step rows (rename_task rows t name)"
| attach: "reducer_step rows (fst (attach_session rows t fam agent sid spath))"
| detach: "reducer_step rows (fst (detach_session rows t))"
| worktree: "reducer_step rows (fst (set_worktree rows t path branch base))"
| discard: "reducer_step rows (fst (discard_worktree rows t))"
| diff_stats: "reducer_step rows (fst (record_diff_stats rows t add del))"
| settle: "reducer_step rows (fst (settle_orphaned_sessions rows is_orphan n))"
| boot: "reducer_step rows (fst (normalize_after_boot rows live n is_dsh))"
| todo: "reducer_step rows (fst (edit_todo rows t prompt agent mode))"
| delta: "{''id'', ''status'', ''completedAt''} \<inter> fst ` set d = {} \<Longrightarrow>
    reducer_step rows (fst (apply_field_delta rows t d))"

lemma get_apply_delta_other: "k \<notin> fst ` set d \<Longrightarrow> get (apply_delta d r) k = get r k"
  by (induction d arbitrary: r) (auto simp: apply_delta_def split: option.splits)

lemma apply_field_delta_map:
  "fst (apply_field_delta rows t d) =
    map (\<lambda>r. if record_id r = Some t then apply_delta d r else r) rows"
proof -
  have "fst (apply_field_delta_row t d r) = (if record_id r = Some t then apply_delta d r else r)"
    and "\<not> snd (apply_field_delta_row t d r) \<Longrightarrow> fst (apply_field_delta_row t d r) = r" for r
    by (auto simp: apply_field_delta_row_def apply_delta_def)
  then show ?thesis
    by (auto simp: apply_field_delta_def edit_rows_def Let_def list_ex_iff map_idI)
qed

text \<open>Identity and end time survive each step.\<close>

lemma reducer_step_ids: "reducer_step rows rows' \<Longrightarrow> distinct_ids rows \<Longrightarrow> map record_id rows' = map record_id rows"
proof (induction rule: reducer_step.induct)
  case (delta d t)
  then have "record_id (apply_delta d r) = record_id r" for r
    by (simp add: record_id_def str_field_get get_apply_delta_other)
  then show ?case by (simp add: apply_field_delta_map)
qed (simp_all add: transition_records transition_edit.keeps_ident archive_is_row_edit
    archive_edit.edit_rows_idents unarchive_def unarchive_edit.edit_rows_idents toggle_star_def
    rename_task_def attach_session_def attach_edit.edit_rows_idents detach_session_def
    detach_edit.edit_rows_idents set_worktree_def set_worktree_edit.edit_rows_idents
    discard_worktree_def discard_worktree_edit.edit_rows_idents record_diff_stats_def
    diff_stats_edit.edit_rows_idents settle_orphaned_rows normalize_after_boot_def
    normalize_edit.edit_rows_idents edit_todo_def edit_todo_edit.edit_rows_idents)

lemmas end_time_row_defs = archive_row_def unarchive_row_def attach_session_row_def
  detach_session_row_def set_worktree_row_def discard_worktree_row_def record_diff_stats_row_def
  edit_todo_row_def

lemma end_time_row_edits:
  "end_time_ok r \<Longrightarrow> end_time_ok (fst (archive_row ids n r))"
  "end_time_ok r \<Longrightarrow> end_time_ok (fst (unarchive_row ids r))"
  "end_time_ok r \<Longrightarrow> end_time_ok (fst (attach_session_row t fam agent sid spath r))"
  "end_time_ok r \<Longrightarrow> end_time_ok (fst (detach_session_row t r))"
  "end_time_ok r \<Longrightarrow> end_time_ok (fst (set_worktree_row t path branch base r))"
  "end_time_ok r \<Longrightarrow> end_time_ok (fst (discard_worktree_row t r))"
  "end_time_ok r \<Longrightarrow> end_time_ok (fst (record_diff_stats_row t add del r))"
  "end_time_ok r \<Longrightarrow> end_time_ok (fst (edit_todo_row t p a m r))"
  by (erule end_time_frameI; simp add: end_time_row_defs Let_def apply_resolved_session_frame)+

lemma reducer_step_end_time:
  "reducer_step rows rows' \<Longrightarrow> distinct_ids rows \<Longrightarrow> list_all end_time_ok rows \<Longrightarrow>
   list_all end_time_ok rows'"
proof (induction rule: reducer_step.induct)
  case (delta d t)
  have "end_time_ok (apply_delta d r) = end_time_ok r" for r
    by (rule end_time_ok_frame) (use delta in \<open>simp_all add: get_apply_delta_other\<close>)
  with delta show ?case by (auto simp: apply_field_delta_map list_all_iff)
next
  case (star t)
  have "end_time_ok (fmupd ''starred'' v r) = end_time_ok r" for v r
    by (rule end_time_ok_frame) simp_all
  with star show ?case by (auto simp: toggle_star_def list_all_iff)
next
  case (rename t name)
  have "end_time_ok (fmupd ''name'' v r) = end_time_ok r" "end_time_ok (fmdrop ''name'' r) = end_time_ok r"
    for v r by (rule end_time_ok_frame; simp)+
  with rename show ?case by (auto simp: rename_task_def list_all_iff)
next
  case (settle is_orphan n)
  then show ?case by (simp add: settle_orphaned_rows list_all_iff settle_row_end_time)
next
  case (status t s a f n)
  then show ?case by (simp add: transition_records list_all_iff transition_row_end_time)
qed (simp_all add: archive_is_row_edit unarchive_def attach_session_def detach_session_def
    set_worktree_def discard_worktree_def record_diff_stats_def normalize_after_boot_def edit_todo_def
    archive_edit.edit_rows_all unarchive_edit.edit_rows_all attach_edit.edit_rows_all
    detach_edit.edit_rows_all set_worktree_edit.edit_rows_all discard_worktree_edit.edit_rows_all
    diff_stats_edit.edit_rows_all normalize_edit.edit_rows_all edit_todo_edit.edit_rows_all
    end_time_row_edits normalize_row_end_time)

end
