(* ===== verification/ReducerProps.thy ===== *)
theory ReducerProps
  imports Reducer
begin

text \<open>
  What \<open>tasks/reducer.rs\<close> and \<open>tasks/session_owner.rs\<close> promise: the effect of a status event
  on the row it names and on no other, duplicates that never reach the disk, the first end time
  winning, the field-level rollback, the one-family rule for sessions, and the repair that runs
  at start-up.
\<close>

section \<open>Rows for the concrete instances\<close>

definition sample_row :: "string \<Rightarrow> TaskStatus \<Rightarrow> Record" where
  "sample_row t s = fmupd ''status'' (status_value s) (fmupd ''id'' (String t) fmempty)"

lemma get_fmempty [simp]: "get fmempty k = None" "str_field fmempty k = None"
  by (simp_all add: get_def str_field_def)

lemma sample_row_simps [simp]:
  "record_id (sample_row t s) = Some t" "status_of (sample_row t s) = Some s"
  "k \<notin> {''id'', ''status''} \<Longrightarrow> get (sample_row t s) k = None"
  "k \<notin> {''id'', ''status''} \<Longrightarrow> str_field (sample_row t s) k = None"
  by (auto simp: sample_row_def record_id_def)

section \<open>Status events\<close>

lemma find_row_map:
  "(\<And>r. record_id (g r) = record_id r) \<Longrightarrow> find_row (map g rows) t = map_option g (find_row rows t)"
  by (induction rows) auto

lemma find_row_transition:
  "find_row (records (apply_status_transition rows t s a f n)) t' =
    map_option (fst \<circ> apply_status_transition_row t s a f n) (find_row rows t')"
  unfolding transition_records by (rule find_row_map) (simp add: transition_edit.keeps_ident)

text \<open>A run of events for one task: status, attention time, failure reason, clock.\<close>

fun run_events ::
  "string \<Rightarrow> (TaskStatus \<times> nat option \<times> string option \<times> nat) list \<Rightarrow> Record list \<Rightarrow> Record list" where
  "run_events t [] rows = rows"
| "run_events t ((s, a, f, n) # es) rows =
    run_events t es (records (apply_status_transition rows t s a f n))"

text \<open>The end time a terminal event leaves: the one already there, or the event's clock.\<close>

definition end_time :: "Record \<Rightarrow> nat \<Rightarrow> nat" where
  "end_time r n = (case get r ''completedAt'' of Some (Number (PosInt m)) \<Rightarrow> m | _ \<Rightarrow> n)"

lemma completed_field_end_time:
  assumes "\<forall>x. get r ''completedAt'' = Some (Number x) \<longrightarrow> wf_number x"
  shows "completed_field r s n = (if is_terminal s then Set (end_time r n) else Clear)"
proof -
  have "i < 0" if "get r ''completedAt'' = Some (Number (NegInt i))" for i
    using assms that by simp
  then show ?thesis
    by (simp add: completed_field_def end_time_def value_access
        split: option.split Value.split json_number.split) (meson not_le)
qed

lemma terminal_not_ignored: "is_terminal s \<Longrightarrow> \<not> should_ignore_transition c s"
  by (auto simp: should_ignore_transition_def)

text \<open>
  A status event the guard admits leaves the addressed row with exactly the new status, an
  attention stamp only while input is required, an end time only when the status is terminal
  (the one already recorded, otherwise the event's clock), and every key outside those and
  \<open>failureReason\<close> as it was; rows with another id are not touched.
\<close>

theorem status_transition_row:
  assumes "find_row rows t = Some r" "\<not> should_ignore_transition (status_of r) s"
    and "\<forall>x. get r ''completedAt'' = Some (Number x) \<longrightarrow> wf_number x"
  shows "\<exists>r'. find_row (records (apply_status_transition rows t s a f n)) t = Some r'
      \<and> task (apply_status_transition rows t s a f n) = Some r'
      \<and> status_of r' = Some s
      \<and> get r' ''attentionRequestedAt'' =
          (if s = InputRequired then Some (json_u64 (unwrap_or a n)) else None)
      \<and> get r' ''completedAt'' = (if is_terminal s then Some (json_u64 (end_time r n)) else None)
      \<and> (\<forall>k. k \<notin> {''status'', ''attentionRequestedAt'', ''completedAt'', ''failureReason''} \<longrightarrow>
           get r' k = get r k)
      \<and> (\<forall>i < length rows. record_id (rows ! i) \<noteq> Some t \<longrightarrow>
           records (apply_status_transition rows t s a f n) ! i = rows ! i)"
proof -
  have id: "record_id r = Some t" using find_row_Some [OF assms(1)] by simp
  note row = transition_row_cases [OF id assms(2), where a = a and f = f and n = n]
  let ?r = "fst (apply_status_transition_row t s a f n r)"
  have found: "find_row (records (apply_status_transition rows t s a f n)) t = Some ?r"
    using assms(1) by (simp add: find_row_transition)
  moreover have "task (apply_status_transition rows t s a f n) = Some ?r"
    using found
    by (simp add: transition_records) (simp add: apply_status_transition_def Let_def case_prod_beta)
  moreover have "get ?r ''completedAt'' = (if is_terminal s then Some (json_u64 (end_time r n)) else None)"
    by (simp add: row(4) completed_field_end_time [OF assms(3)])
  moreover have "get ?r ''attentionRequestedAt'' =
      (if s = InputRequired then Some (json_u64 (unwrap_or a n)) else None)"
    by (simp add: row(3) attention_field_def)
  ultimately show ?thesis
    using row(2,5) by (intro exI [of _ ?r]) (simp add: transition_records transition_row_elsewhere)
qed

text \<open>
  A status event delivered twice reaches the disk once: when the event names its attention
  time or does not need one, the second delivery, whatever its clock and failure text, reports
  no change and returns the rows the first one left.
\<close>

lemma status_transition_duplicate:
  assumes "a \<noteq> None \<or> s \<noteq> InputRequired"
  shows "let once = records (apply_status_transition rows t s a f n) in
    apply_status_transition once t s a f' n' =
      \<lparr>records = once, changed = False, task = find_row once t\<rparr>"
proof -
  obtain x where x: "apply_status_transition_row t s a g m = apply_status_transition_row t s (Some x) g m"
    for g m
  proof (cases a)
    case None
    with assms have "apply_status_transition_row t s a g m = apply_status_transition_row t s (Some 0) g m"
      for g m by (intro ext) (simp add: apply_status_transition_row_def attention_field_def)
    then show ?thesis by (rule that)
  qed (use that in simp)
  have "edit_rows (apply_status_transition_row t s a f' n')
      (records (apply_status_transition rows t s a f n)) =
      (records (apply_status_transition rows t s a f n), False)"
    using transition_settles.edit_rows_settles [of t s x f' n' f n rows]
    by (simp add: x transition_records transition_edit.edit_rows_map)
  then show ?thesis
    using transition_edit.edit_rows_map [of t s a f' n' "records (apply_status_transition rows t s a f n)"]
    by (simp add: apply_status_transition_def [of "records _"] Let_def)
qed

text \<open>
  The first end time wins: once a row without an end time has taken a terminal event at
  clock \<open>n\<close>, every further sequence of terminal events for that task, whatever their order,
  clocks and reasons, leaves its end time at \<open>n\<close>.
\<close>

theorem end_time_first_wins:
  assumes "find_row rows t = Some r" "get r ''completedAt'' = None" "is_terminal s"
    and "\<forall>(s', a', f', n') \<in> set events. is_terminal s'"
  shows "map_option (\<lambda>r. get r ''completedAt'')
      (find_row (run_events t events (records (apply_status_transition rows t s a f n))) t)
    = Some (Some (json_u64 n))"
proof -
  have step: "\<exists>r'. find_row (records (apply_status_transition rs t s' a' f' n')) t = Some r'
      \<and> get r' ''completedAt'' = Some (json_u64 (end_time x n'))"
    if "find_row rs t = Some x" "is_terminal s'" "get x ''completedAt'' \<in> {None, Some (json_u64 n)}"
    for rs x s' a' f' n'
    using that find_row_Some [OF that(1)]
      transition_row_cases(4) [where r = x and t = t and s = s' and a = a' and f = f' and n = n']
    by (auto simp: find_row_transition terminal_not_ignored completed_field_def end_time_def
        number_as_u64_def)
  have run: "\<exists>r'. find_row (run_events t es rs) t = Some r' \<and> get r' ''completedAt'' = Some (json_u64 n)"
    if "find_row rs t = Some x" "get x ''completedAt'' = Some (json_u64 n)"
      "\<forall>(s', a', f', n') \<in> set es. is_terminal s'" for es rs x
    using that
  proof (induction es arbitrary: rs x)
    case (Cons e es)
    obtain s' a' f' n' where e: "e = (s', a', f', n')" by (cases e)
    show ?case
      using step [of rs x s' a' f' n'] Cons.prems Cons.IH by (auto simp: e end_time_def)
  qed simp
  from step [OF assms(1,3), of a f n] assms(2) obtain r' where
    "find_row (records (apply_status_transition rows t s a f n)) t = Some r'"
    "get r' ''completedAt'' = Some (json_u64 n)" by (auto simp: end_time_def)
  from run [OF this assms(4)] show ?thesis by auto
qed

section \<open>Every sequence of operations\<close>



section \<open>Rollback\<close>

text \<open>
  Field-level rollback is the three-way rule: a key goes back to its previous value exactly
  when the change moved it and nobody has written it since; any other key keeps its current
  value. Without a concurrent write the previous row comes back whole.
\<close>

theorem rollback_three_way:
  "(\<forall>k. get (rollback_mutation current previous applied) k =
      (if get previous k \<noteq> get applied k \<and> get current k = get applied k
       then get previous k else get current k))
   \<and> rollback_mutation applied previous applied = previous"
  by (auto simp: get_rollback_mutation intro: record_eqI)

text \<open>
  A failed configuration switch gives back exactly the session fields it moved: merging takes
  the source's value for those and leaves every other key of the current row alone, so merging a
  row into itself from an unchanged source is the identity.
\<close>

theorem merge_session_fields_three_way:
  "(\<forall>k. get (merge_changed_session_fields current previous source) k =
      (if k \<in> set SESSION_FIELDS \<and> get source k \<noteq> get previous k then get source k else get current k))
   \<and> merge_changed_session_fields current source source = current"
  by (auto simp: get_merge_changed_session_fields intro: record_eqI)

section \<open>Sessions\<close>

lemma attach_row_addressed:
  assumes "record_id r = Some t" "\<not> (blank_text sid \<and> blank_text spath)"
  obtains sid' spath' where
    "sid' = or_else sid (str_field r (id_key (family_prefix fam)))"
    "spath' = or_else spath (str_field r (path_key (family_prefix fam)))"
    "sid' \<noteq> None \<or> spath' \<noteq> None"
    "fst (attach_session_row t fam agent sid spath r) =
      apply_resolved_session r
        \<lparr>owner_agent = agent, owner_family = fam, codex_like = (fam = Codex)\<rparr> sid' spath'"
  using assms by (auto simp: attach_session_row_def Let_def blank_text_def split: option.splits)

text \<open>
  One task, one family: after a session with an id or a path is attached, the row's session
  resolves to the attaching agent and family, that family's fields hold the given values (a
  missing one falls back to the row's own earlier value), no other family offers a session or a
  legacy fallback, and no other task's row changes.
\<close>

theorem attach_session_one_family:
  assumes "find_row rows t = Some r" "\<not> (blank_text sid \<and> blank_text spath)"
  shows "\<exists>r'. find_row (fst (attach_session rows t fam agent sid spath)) t = Some r'
      \<and> resolve_session_owner r' families = owner agent fam
      \<and> session_fields r' fam =
          \<lparr>session_id = or_else sid (str_field r (id_key (family_prefix fam))),
           session_path = or_else spath (str_field r (path_key (family_prefix fam))),
           legacy_session_id = None, legacy_session_path = None\<rparr>
      \<and> (\<forall>f. has_session r' (family_prefix f) \<longrightarrow> f = fam)
      \<and> (\<forall>i < length rows. record_id (rows ! i) \<noteq> Some t \<longrightarrow>
           fst (attach_session rows t fam agent sid spath) ! i = rows ! i)"
proof -
  have id: "record_id r = Some t" using find_row_Some [OF assms(1)] by simp
  let ?own = "\<lparr>owner_agent = agent, owner_family = fam, codex_like = (fam = Codex)\<rparr>"
  obtain sid' spath' where vals:
    "sid' = or_else sid (str_field r (id_key (family_prefix fam)))"
    "spath' = or_else spath (str_field r (path_key (family_prefix fam)))"
    and some: "sid' \<noteq> None \<or> spath' \<noteq> None"
    and row: "fst (attach_session_row t fam agent sid spath r) =
      apply_resolved_session r ?own sid' spath'"
    by (rule attach_row_addressed [OF id assms(2)])
  let ?r = "apply_resolved_session r ?own sid' spath'"
  have all: "fst (attach_session rows t fam agent sid spath) =
      map (fst \<circ> attach_session_row t fam agent sid spath) rows"
    using assms(2) by (auto simp: attach_session_def attach_edit.edit_rows_map)
  have "find_row (fst (attach_session rows t fam agent sid spath)) t = Some ?r"
    using assms(1) row by (simp add: all find_row_map attach_edit.keeps_ident)
  moreover have "resolve_session_owner ?r families = owner agent fam"
    using apply_resolved_session_owner [OF some, of r ?own]
    by (simp add: resolve_session_owner_def Let_def)
  moreover have "session_fields ?r fam = \<lparr>session_id = sid', session_path = spath',
      legacy_session_id = None, legacy_session_path = None\<rparr>"
    using apply_resolved_session_no_legacy [OF some, of r ?own] by simp
  ultimately show ?thesis
    using has_session_get [OF _ some, of r ?own] attach_edit.elsewhere
    by (intro exI [of _ ?r]) (simp add: all vals)
qed

text \<open>
  Detaching leaves nothing to continue from: the addressed row offers no session of any
  family, neither an id nor a path is found for it (unprefixed legacy keys included), its other
  keys are unchanged, and a second detach reports no change.
\<close>

lemma detach_session_clears:
  assumes "find_row rows t = Some r"
  shows "\<exists>r'. find_row (fst (detach_session rows t)) t = Some r'
      \<and> \<not> has_task_session r' \<and> current_session r' = (None, None)
      \<and> (\<forall>k. k \<notin> set detach_keys \<longrightarrow> get r' k = get r k)
      \<and> detach_session (fst (detach_session rows t)) t = (fst (detach_session rows t), False)"
proof -
  have id: "record_id r = Some t" using find_row_Some [OF assms] by simp
  let ?r = "drop_keys detach_keys r"
  have row: "fst (detach_session_row t r) = ?r"
    using id by (auto simp: detach_session_row_def list_ex_iff contains_get intro!: record_eqI)
  have "find_row (fst (detach_session rows t)) t = Some ?r"
    using assms row
    by (simp add: detach_session_def detach_edit.edit_rows_map find_row_map detach_edit.keeps_ident)
  moreover have none: "get ?r (id_key (family_prefix f)) = None" "get ?r (path_key (family_prefix f)) = None" for f
    by (simp_all add: detach_keys_families)
  moreover have "\<not> has_task_session ?r"
    using none [of Claude] none [of Codex] none [of Dsh] none [of Omp]
    by (simp add: has_task_session_def session_prefixes_def has_session_def filled_def family_prefix_def)
  moreover have "current_session ?r = (None, None)"
    by (simp add: current_session_def session_fields_def non_empty_def none str_field_get
        non_empty_text_def Let_def detach_keys_families comp_def all_families_def)
  ultimately show ?thesis
    using detach_settles.edit_rows_settles [of t rows]
    by (intro exI [of _ ?r]) (simp add: detach_session_def)
qed

section \<open>Archive and start-up repair\<close>

text \<open>
  Archiving is undone by unarchiving: when none of the named rows carries an \<open>archivedAt\<close> key,
  archiving a selection stamps exactly its rows that are neither running nor pending, and
  unarchiving the same selection gives the original rows back.
\<close>

theorem archive_unarchive:
  assumes "\<forall>r \<in> set rows. id_in r ids \<longrightarrow> get r ''archivedAt'' = None"
  shows "fst (archive rows ids n) = map (\<lambda>r. if id_in r ids \<and> is_archivable r
        then fmupd ''archivedAt'' (json_u64 n) r else r) rows
    \<and> fst (unarchive (fst (archive rows ids n)) ids) = rows"
proof -
  have fresh: "archivable_now ids r \<longleftrightarrow> id_in r ids \<and> is_archivable r" if "r \<in> set rows" for r
    using assms that by (auto simp: archivable_now_def has_number_def)
  have undone: "fst (unarchive_row ids (fst (archive_row ids n r))) = r" if "r \<in> set rows" for r
    using assms that
    by (auto simp: archive_row_def unarchive_row_def fresh has_number_def is_number_def
        intro!: record_eqI)
  show ?thesis
    using fresh undone
    by (simp add: archive_is_row_edit unarchive_def archive_edit.edit_rows_map
        unarchive_edit.edit_rows_map archive_row_def map_idI)
qed

text \<open>
  C40. Start-up repair settles every row: afterwards no row is pending, running or waiting for
  input; a row that was is detached when its child is still alive and interrupted when it is
  not; no row with a live child is left interrupted; and a second start with the same facts,
  whatever the clock, changes nothing.
\<close>

theorem normalize_after_boot_settles:
  "list_all2 (\<lambda>r r'. \<not> is_active r' \<and> \<not> (status_of r' = Some Interrupted \<and> id_in r' live)
       \<and> (is_active r \<longrightarrow> status_of r' = Some (if id_in r live then Detached else Interrupted))
       \<and> (\<not> is_active r \<and> status_of r \<noteq> Some Interrupted \<longrightarrow> status_of r' = status_of r))
     rows (fst (normalize_after_boot rows live n is_dsh))
   \<and> normalize_after_boot (fst (normalize_after_boot rows live n is_dsh)) live n' is_dsh
     = (fst (normalize_after_boot rows live n is_dsh), False)"
proof -
  have "id_in (fst (normalize_after_boot_row live n is_dsh r)) live = id_in r live" for r
    by (simp add: id_in_def)
  then show ?thesis
    using normalize_row_inactive [of live n is_dsh]
      normalize_settles.edit_rows_settles [of live n' is_dsh n rows]
    by (simp add: normalize_after_boot_def normalize_edit.edit_rows_map list_all2_conv_all_nth
        normalize_row_status)
qed

theorem normalize_after_boot_settles_witness:
  "map status_of (fst (normalize_after_boot
     [sample_row ''a'' Running, sample_row ''b'' Pending, sample_row ''c'' Done] [''b''] 4 (\<lambda>_. False)))
   = [Some Interrupted, Some Detached, Some Done]"
  using normalize_after_boot_settles [where live = "[''b'']" and n = 4 and is_dsh = "\<lambda>_. False" and n' = 9
      and rows = "[sample_row ''a'' Running, sample_row ''b'' Pending, sample_row ''c'' Done]"]
  by (auto simp: list_all2_Cons1 is_active_def id_in_def)

text \<open>
  Settling orphaned sessions is a per-row rule when ids are distinct: an active row the host
  reports as orphaned becomes failed if it already recorded a failure reason and interrupted
  otherwise, every other row is returned as it was, and the reported ids are exactly those of
  the settled rows, in row order. Afterwards none of the settled rows is active.
\<close>

theorem settle_orphaned_sessions_rows:
  assumes "distinct_ids rows"
  shows "settle_orphaned_sessions rows is_orphan n =
      (map (settle_row is_orphan n) rows, map (the \<circ> record_id) (filter (orphan_row is_orphan) rows))
    \<and> (\<forall>r. orphan_row is_orphan r \<longrightarrow>
         status_of (settle_row is_orphan n r) = Some (if has_failure r then Failed else Interrupted))
    \<and> (\<forall>r. \<not> orphan_row is_orphan r \<longrightarrow> settle_row is_orphan n r = r)"
proof -
  have "status_of (settle_row is_orphan n r) = Some (if has_failure r then Failed else Interrupted)"
    if "orphan_row is_orphan r" for r
    using that transition_row_cases(2) [where r = r and s = Failed and t = "the (record_id r)"]
    by (auto simp: settle_row_def orphan_row_def terminal_not_ignored interrupt_row_def Let_def)
  then show ?thesis
    using settle_orphaned_rows [OF assms] by (simp add: settle_row_def)
qed

section \<open>Switching configuration\<close>

text \<open>
  A configuration switch resumes or adopts a transcript only when the target's own resume
  command reads that transcript's family: a resumed session is never dsh's, an adopted one is
  claude's or codex's and moves between two different agents, and a same-agent switch never
  adopts. A transcript that cannot be replayed is always handed over as text.
\<close>

theorem config_switch_strategy_sound:
  "case resolve_config_switch_strategy r target supported families of
     Resume \<Rightarrow> supported \<and> resume_family_of r families = native_resume_family families target
       \<and> resume_family_of r families \<noteq> Dsh
       \<and> (owner_agent (resolve_session_owner r families) = target
          \<or> is_builtin families (owner_agent (resolve_session_owner r families)) \<and> is_builtin families target)
   | Adopt \<Rightarrow> supported \<and> resume_family_of r families = native_resume_family families target
       \<and> resume_family_of r families \<in> {Claude, Codex}
       \<and> owner_agent (resolve_session_owner r families) \<noteq> target
   | Handoff \<Rightarrow> \<not> supported \<or> resume_family_of r families \<noteq> native_resume_family families target
       \<or> resume_family_of r families = Dsh
       \<or> owner_family (resolve_session_owner r families) = Dsh
       \<or> owner_agent (resolve_session_owner r families) \<noteq> target"
  by (cases "resume_family_of r families")
    (auto simp: resolve_config_switch_strategy_def can_native_resume_def can_adopt_def Let_def)

definition sample_families :: AgentFamilies where
  "sample_families = \<lparr>launch_family = (\<lambda>_. Claude), session_family = (\<lambda>_. Claude),
     native_resume_family = (\<lambda>_. Claude), is_builtin = (\<lambda>a. a = ''claude'')\<rparr>"

end
