(* ===== verification/Operations.thy ===== *)
theory Operations
  imports ReducerProps
begin

text \<open>
  The attempt ledger of \<open>tasks/operations.rs\<close>: which start attempts are already claimed, the
  run counter of each task, and the runs a crash cut off that nobody has acknowledged. The
  persisted \<open>LedgerState\<close> and the in-memory \<open>OperationLedger\<close> have the same three fields, so
  one record stands for both; \<open>ledger_new\<close> is what loading does to it.
\<close>

section \<open>Claims and their key\<close>

datatype OperationKind = Start | Resume | Cancel | Complete

fun kind_word :: "OperationKind \<Rightarrow> string" where
  "kind_word Start = ''start''"
| "kind_word Resume = ''resume''"
| "kind_word Cancel = ''cancel''"
| "kind_word Complete = ''complete''"

record Claim =
  claim_task :: string
  claim_kind :: OperationKind
  operation_key :: string
  claim_generation :: nat
  claimed_at_ms :: nat

definition attempt_key :: "string \<Rightarrow> OperationKind \<Rightarrow> string \<Rightarrow> string" where
  "attempt_key task_id kind op_key = task_id @ ''|'' @ kind_word kind @ ''|'' @ op_key"

definition claim_key :: "Claim \<Rightarrow> string" where
  "claim_key c = attempt_key (claim_task c) (claim_kind c) (operation_key c)"

datatype Claimed = New Claim | Duplicate Claim

record Acknowledgement =
  ack_task :: string
  ack_generation :: nat
  since_ms :: nat

record OperationLedger =
  claims :: "Claim list"
  generations :: "(string, nat) fmap"
  awaiting :: "Acknowledgement list"

record Orphan =
  orphan_claim :: Claim
  orphan_task :: "Record option"

section \<open>The ledger's operations\<close>

text \<open>\<open>retain\<close> with the list of keys already seen.\<close>

fun retain_unseen :: "string list \<Rightarrow> Claim list \<Rightarrow> Claim list" where
  "retain_unseen seen [] = []"
| "retain_unseen seen (c # cs) =
    (if claim_key c \<in> set seen then retain_unseen seen cs
     else c # retain_unseen (seen @ [claim_key c]) cs)"

definition dedupe :: "OperationLedger \<Rightarrow> OperationLedger" where
  "dedupe l = l\<lparr>claims := retain_unseen [] (claims l)\<rparr>"

definition ledger_new :: "OperationLedger \<Rightarrow> OperationLedger" where
  "ledger_new state = dedupe state"

definition ledger_empty :: OperationLedger where
  "ledger_empty = \<lparr>claims = [], generations = fmempty, awaiting = []\<rparr>"

definition peek_generation :: "OperationLedger \<Rightarrow> string \<Rightarrow> nat" where
  "peek_generation l task_id = unwrap_or (fmlookup (generations l) task_id) 0"

definition next_generation :: "OperationLedger \<Rightarrow> string \<Rightarrow> OperationLedger \<times> nat" where
  "next_generation l task_id =
    (let next = peek_generation l task_id + 1
     in (l\<lparr>generations := fmupd task_id next (generations l)\<rparr>, next))"

definition is_live_run :: "OperationLedger \<Rightarrow> string \<Rightarrow> nat \<Rightarrow> bool" where
  "is_live_run l task_id generation \<longleftrightarrow>
    list_ex (\<lambda>c. claim_task c = task_id \<and> claim_generation c = generation) (claims l)"

definition release_generation :: "OperationLedger \<Rightarrow> string \<Rightarrow> nat \<Rightarrow> OperationLedger" where
  "release_generation l task_id generation =
    (let still_open =
       list_ex (\<lambda>c. claim_task c = task_id \<and> claim_generation c = generation) (claims l) in
     if still_open \<or> peek_generation l task_id \<noteq> generation then l
     else let previous = generation - 1 in
       if previous = 0 then l\<lparr>generations := fmdrop task_id (generations l)\<rparr>
       else l\<lparr>generations := fmupd task_id previous (generations l)\<rparr>)"

definition awaiting_acknowledgement :: "OperationLedger \<Rightarrow> string \<Rightarrow> Acknowledgement option" where
  "awaiting_acknowledgement l task_id = List.find (\<lambda>a. ack_task a = task_id) (awaiting l)"

definition acknowledge :: "OperationLedger \<Rightarrow> string \<Rightarrow> OperationLedger \<times> bool" where
  "acknowledge l task_id =
    (let kept = filter (\<lambda>a. ack_task a \<noteq> task_id) (awaiting l)
     in (l\<lparr>awaiting := kept\<rparr>, length kept \<noteq> length (awaiting l)))"

definition await_acknowledgement :: "OperationLedger \<Rightarrow> Acknowledgement \<Rightarrow> OperationLedger" where
  "await_acknowledgement l item =
    l\<lparr>awaiting := filter (\<lambda>a. ack_task a \<noteq> ack_task item) (awaiting l) @ [item]\<rparr>"

definition open_claim :: "OperationLedger \<Rightarrow> string \<Rightarrow> OperationKind \<Rightarrow> string \<Rightarrow> Claim option" where
  "open_claim l task_id kind op_key =
    List.find (\<lambda>c. claim_key c = attempt_key task_id kind op_key) (claims l)"

definition spawns :: "OperationKind \<Rightarrow> bool" where
  "spawns kind \<longleftrightarrow> kind = Start \<or> kind = Resume"

definition live_other_than :: "OperationLedger \<Rightarrow> string \<Rightarrow> nat \<Rightarrow> nat list" where
  "live_other_than l task_id except =
    map claim_generation (filter (\<lambda>c. claim_task c = task_id \<and> claim_generation c \<noteq> except
      \<and> spawns (claim_kind c)) (claims l))"

definition live_for :: "OperationLedger \<Rightarrow> string \<Rightarrow> Claim list" where
  "live_for l task_id = filter (\<lambda>c. claim_task c = task_id) (claims l)"

definition open_for :: "OperationLedger \<Rightarrow> string \<Rightarrow> Claim list" where
  "open_for l task_id = filter (\<lambda>c. claim_task c = task_id) (claims l)"

definition claim_attempt ::
  "OperationLedger \<Rightarrow> string \<Rightarrow> OperationKind \<Rightarrow> string \<Rightarrow> nat \<Rightarrow> nat \<Rightarrow> OperationLedger \<times> Claimed" where
  "claim_attempt l task_id kind op_key generation now_ms =
    (case List.find (\<lambda>c. claim_key c = attempt_key task_id kind op_key) (claims l) of
       Some existing \<Rightarrow> (l, Duplicate existing)
     | None \<Rightarrow>
        let c = \<lparr>claim_task = task_id, claim_kind = kind, operation_key = op_key,
                 claim_generation = generation, claimed_at_ms = now_ms\<rparr>
        in (l\<lparr>claims := claims l @ [c]\<rparr>, New c))"

definition settle :: "OperationLedger \<Rightarrow> string \<Rightarrow> OperationKind \<Rightarrow> string \<Rightarrow> OperationLedger \<times> bool" where
  "settle l task_id kind op_key =
    (let kept = filter (\<lambda>c. claim_key c \<noteq> attempt_key task_id kind op_key) (claims l)
     in (l\<lparr>claims := kept\<rparr>, length kept \<noteq> length (claims l)))"

definition settle_by_generation ::
  "OperationLedger \<Rightarrow> string \<Rightarrow> OperationKind \<Rightarrow> nat \<Rightarrow> OperationLedger \<times> bool" where
  "settle_by_generation l task_id kind generation =
    (let kept = filter (\<lambda>c. \<not> (claim_task c = task_id \<and> claim_kind c = kind
        \<and> claim_generation c = generation)) (claims l)
     in (l\<lparr>claims := kept\<rparr>, length kept \<noteq> length (claims l)))"

definition settle_task :: "OperationLedger \<Rightarrow> string \<Rightarrow> OperationLedger \<times> nat" where
  "settle_task l task_id =
    (let kept = filter (\<lambda>c. claim_task c \<noteq> task_id) (claims l)
     in (l\<lparr>claims := kept\<rparr>, length (claims l) - length kept))"

definition orphans :: "OperationLedger \<Rightarrow> Record list \<Rightarrow> Orphan list" where
  "orphans l rows =
    map (\<lambda>c. \<lparr>orphan_claim = c, orphan_task = find_row rows (claim_task c)\<rparr>)
      (filter (\<lambda>c. spawns (claim_kind c)) (claims l))"

section \<open>Reconciliation after a crash\<close>

definition needs_mark :: "Record \<Rightarrow> bool" where
  "needs_mark r \<longleftrightarrow> status_of r \<noteq> Some Detached
    \<and> status_of r \<notin> {Some Interrupted, Some Done, Some Failed}"

definition mark_interrupted :: "Record \<Rightarrow> Record" where
  "mark_interrupted r = fmdrop ''attentionRequestedAt'' (fmupd ''status'' (status_value Interrupted) r)"

fun reconcile ::
  "Claim list \<Rightarrow> Record list \<Rightarrow> nat \<Rightarrow> Record list \<times> Acknowledgement list" where
  "reconcile [] rows now_ms = (rows, [])"
| "reconcile (c # cs) rows now_ms =
    (if \<not> spawns (claim_kind c) then reconcile cs rows now_ms
     else case find_row rows (claim_task c) of
       None \<Rightarrow> reconcile cs rows now_ms
     | Some r \<Rightarrow>
        if \<not> needs_mark r then reconcile cs rows now_ms
        else
          let (rows', acks) =
            reconcile cs (fst (update_record rows (claim_task c) mark_interrupted)) now_ms
          in (rows', \<lparr>ack_task = claim_task c, ack_generation = claim_generation c,
                      since_ms = now_ms\<rparr> # acks))"

section \<open>The interface: a book of open attempts\<close>

text \<open>
  What a caller relies on: taking an attempt succeeds exactly when it is not open, afterwards it
  is open, and releasing closes it and no other. Two requests are the same attempt when their
  identities agree.
\<close>

datatype 'k book_cmd = Take 'k | Release 'k

fun grants ::
  "('l \<Rightarrow> 'k \<Rightarrow> 'l \<times> bool) \<Rightarrow> ('l \<Rightarrow> 'k \<Rightarrow> 'l) \<Rightarrow> 'l \<Rightarrow> 'k book_cmd list \<Rightarrow> 'k list" where
  "grants take_op release_op l [] = []"
| "grants take_op release_op l (Take k # cmds) =
    (let (l', granted) = take_op l k
     in if granted then k # grants take_op release_op l' cmds else grants take_op release_op l' cmds)"
| "grants take_op release_op l (Release k # cmds) = grants take_op release_op (release_op l k) cmds"

locale claim_book =
  fixes is_open :: "'l \<Rightarrow> 'k \<Rightarrow> bool"
    and take_op :: "'l \<Rightarrow> 'k \<Rightarrow> 'l \<times> bool"
    and release_op :: "'l \<Rightarrow> 'k \<Rightarrow> 'l"
    and ident :: "'k \<Rightarrow> 'i"
  assumes open_ident: "ident k = ident k' \<Longrightarrow> is_open l k \<longleftrightarrow> is_open l k'"
    and take_granted: "snd (take_op l k) \<longleftrightarrow> \<not> is_open l k"
    and take_open: "is_open (fst (take_op l k)) k' \<longleftrightarrow> is_open l k' \<or> ident k' = ident k"
    and release_open: "is_open (release_op l k) k' \<longleftrightarrow> is_open l k' \<and> ident k' \<noteq> ident k"
begin

lemma granted_once:
  assumes "\<forall>k'. Release k' \<in> set cmds \<longrightarrow> ident k' \<noteq> ident k"
  shows "length (filter (\<lambda>g. ident g = ident k) (grants take_op release_op l cmds)) =
    (if is_open l k \<or> (\<forall>g. Take g \<in> set cmds \<longrightarrow> ident g \<noteq> ident k) then 0 else 1)"
  using assms
proof (induction cmds arbitrary: l)
  case (Cons cmd cmds)
  then have rel: "\<forall>k'. Release k' \<in> set cmds \<longrightarrow> ident k' \<noteq> ident k" by simp
  show ?case
  proof (cases cmd)
    case (Take g)
    obtain l' granted where step: "take_op l g = (l', granted)" by fastforce
    note laws = take_granted [of l g] take_open [of l g k] Cons.IH [OF rel, of l']
    show ?thesis
    proof (cases "ident g = ident k")
      case True
      with open_ident [OF True, of l] laws step Take show ?thesis by (simp split: if_splits) blast
    next
      case False
      with laws step Take show ?thesis by (cases granted) (simp_all split: if_splits)
    qed
  next
    case (Release k')
    with Cons.prems have "ident k' \<noteq> ident k" by simp
    then show ?thesis
      using Cons.IH [OF rel, of "release_op l k'"] Release release_open [of l k' k] by auto
  qed
qed simp

end

section \<open>The ledger is such a book\<close>

type_synonym attempt = "string \<times> OperationKind \<times> string \<times> nat \<times> nat"

definition attempt_ident :: "attempt \<Rightarrow> string" where
  "attempt_ident a = (case a of (t, kind, op_key, _, _) \<Rightarrow> attempt_key t kind op_key)"

definition attempt_open :: "OperationLedger \<Rightarrow> attempt \<Rightarrow> bool" where
  "attempt_open l a = (case a of (t, kind, op_key, _, _) \<Rightarrow> open_claim l t kind op_key \<noteq> None)"

definition take_attempt :: "OperationLedger \<Rightarrow> attempt \<Rightarrow> OperationLedger \<times> bool" where
  "take_attempt l a = (case a of (t, kind, op_key, generation, now_ms) \<Rightarrow>
    (case claim_attempt l t kind op_key generation now_ms of
       (l', New _) \<Rightarrow> (l', True)
     | (l', Duplicate _) \<Rightarrow> (l', False)))"

definition release_attempt :: "OperationLedger \<Rightarrow> attempt \<Rightarrow> OperationLedger" where
  "release_attempt l a = (case a of (t, kind, op_key, _, _) \<Rightarrow> fst (settle l t kind op_key))"

lemma open_claim_iff:
  "open_claim l t kind op_key \<noteq> None \<longleftrightarrow>
    attempt_key t kind op_key \<in> claim_key ` set (claims l)"
proof -
  have "open_claim l t kind op_key = None \<longleftrightarrow>
      \<not> (\<exists>c. c \<in> set (claims l) \<and> claim_key c = attempt_key t kind op_key)"
    by (simp add: open_claim_def find_None_iff)
  then show ?thesis by (auto simp: image_iff eq_commute)
qed

lemma claim_attempt_cases:
  "claim_attempt l t kind op_key g n =
    (case open_claim l t kind op_key of
       Some existing \<Rightarrow> (l, Duplicate existing)
     | None \<Rightarrow>
        let c = \<lparr>claim_task = t, claim_kind = kind, operation_key = op_key,
                 claim_generation = g, claimed_at_ms = n\<rparr>
        in (l\<lparr>claims := claims l @ [c]\<rparr>, New c))"
  by (simp add: claim_attempt_def open_claim_def)

lemma attempt_open_iff: "attempt_open l a \<longleftrightarrow> attempt_ident a \<in> claim_key ` set (claims l)"
  using open_claim_iff by (auto simp: attempt_open_def attempt_ident_def split: prod.splits)

lemma take_attempt_open: "attempt_open l a \<Longrightarrow> take_attempt l a = (l, False)"
  by (auto simp: take_attempt_def attempt_open_def claim_attempt_cases split: prod.splits option.splits)

lemma take_attempt_new:
  assumes "\<not> attempt_open l a"
  obtains c where "claim_key c = attempt_ident a" "take_attempt l a = (l\<lparr>claims := claims l @ [c]\<rparr>, True)"
proof -
  obtain t kind op_key g n where a: "a = (t, kind, op_key, g, n)" by (cases a)
  show thesis
    using assms
    by (intro that [of "\<lparr>claim_task = t, claim_kind = kind, operation_key = op_key,
          claim_generation = g, claimed_at_ms = n\<rparr>"])
      (simp_all add: a attempt_open_def take_attempt_def attempt_ident_def claim_attempt_cases
        claim_key_def Let_def)
qed

interpretation ledger_book: claim_book attempt_open take_attempt release_attempt attempt_ident
proof
  fix l k k'
  show "attempt_ident k = attempt_ident k' \<Longrightarrow> attempt_open l k = attempt_open l k'"
    by (simp add: attempt_open_iff)
  show "snd (take_attempt l k) = (\<not> attempt_open l k)"
    by (cases "attempt_open l k") (auto simp: take_attempt_open elim: take_attempt_new)
  show "attempt_open (fst (take_attempt l k)) k' = (attempt_open l k' \<or> attempt_ident k' = attempt_ident k)"
  proof (cases "attempt_open l k")
    case True
    then show ?thesis by (auto simp: take_attempt_open attempt_open_iff)
  next
    case False
    then obtain c where "claim_key c = attempt_ident k"
      "take_attempt l k = (l\<lparr>claims := claims l @ [c]\<rparr>, True)" by (rule take_attempt_new)
    then show ?thesis by (auto simp: attempt_open_iff)
  qed
  show "attempt_open (release_attempt l k) k' = (attempt_open l k' \<and> attempt_ident k' \<noteq> attempt_ident k)"
    by (auto simp: attempt_open_iff release_attempt_def settle_def Let_def attempt_ident_def
        split: prod.splits)
qed

text \<open>
  One attempt spawns once: over any sequence of claims and releases in which the attempt
  itself is never released, it is granted exactly once if it is requested and was not already
  open, and never if it was, however many retries with other run numbers or clocks are
  interleaved.
\<close>

theorem attempt_granted_once:
  assumes "\<forall>b. Release b \<in> set cmds \<longrightarrow> attempt_ident b \<noteq> attempt_ident a"
  shows "length (filter (\<lambda>g. attempt_ident g = attempt_ident a)
      (grants take_attempt release_attempt l cmds)) =
    (if attempt_open l a \<or> (\<forall>g. Take g \<in> set cmds \<longrightarrow> attempt_ident g \<noteq> attempt_ident a) then 0 else 1)"
  by (rule ledger_book.granted_once [OF assms])

section \<open>Keys\<close>

lemma split_bar:
  "CHR ''|'' \<notin> set a \<Longrightarrow> CHR ''|'' \<notin> set b \<Longrightarrow> a @ CHR ''|'' # x = b @ CHR ''|'' # y \<longleftrightarrow> a = b \<and> x = y"
  by (induction a arbitrary: b) (auto simp: Cons_eq_append_conv append_eq_Cons_conv, (case_tac b, auto)+)

lemma kind_word_bar: "CHR ''|'' \<notin> set (kind_word kind)"
  by (cases kind) simp_all

lemma kind_word_inj [simp]: "kind_word a = kind_word b \<longleftrightarrow> a = b"
  by (cases a; cases b) simp_all

text \<open>
  The derived key identifies the attempt: for task ids without a bar two requests have the
  same key exactly when task, kind and caller's key agree. The restriction is needed: an id
  with a bar can collide with another task's key.
\<close>

theorem attempt_key_injective:
  assumes "CHR ''|'' \<notin> set t" "CHR ''|'' \<notin> set t'"
  shows "(attempt_key t k o1 = attempt_key t' k' o2 \<longleftrightarrow> t = t' \<and> k = k' \<and> o1 = o2)
    \<and> attempt_key ''a'' Start ''b|start|c'' = attempt_key ''a|start|b'' Start ''c''"
  using assms by (simp add: attempt_key_def split_bar kind_word_bar)

section \<open>Every sequence of ledger operations\<close>

text \<open>
  The ways the service changes the ledger. Taking an attempt is \<open>begin_under_lock\<close>'s and
  \<open>switch_config\<close>'s compound: no open claim of that key, a fresh run number, then the claim.
\<close>

inductive ledger_step :: "OperationLedger \<Rightarrow> OperationLedger \<Rightarrow> bool" for l where
  take: "open_claim l t kind op_key = None \<Longrightarrow> next_generation l t = (l', g) \<Longrightarrow>
    ledger_step l (fst (claim_attempt l' t kind op_key g now_ms))"
| settle: "ledger_step l (fst (settle l t kind op_key))"
| settle_run: "ledger_step l (fst (settle_by_generation l t kind g))"
| settle_all: "ledger_step l (fst (settle_task l t))"
| release: "ledger_step l (release_generation l t g)"
| acknowledge: "ledger_step l (fst (acknowledge l t))"
| await: "ledger_step l (await_acknowledgement l item)"
| reload: "ledger_step l (ledger_new l)"

definition ledger_ok :: "OperationLedger \<Rightarrow> bool" where
  "ledger_ok l \<longleftrightarrow>
    distinct (map claim_key (claims l))
    \<and> distinct (map (\<lambda>c. (claim_task c, claim_generation c)) (claims l))
    \<and> list_all (\<lambda>c. 0 < claim_generation c \<and> claim_generation c \<le> peek_generation l (claim_task c)) (claims l)
    \<and> distinct (map ack_task (awaiting l))"

lemma peek_generation_simps [simp]:
  "peek_generation (l\<lparr>claims := cs\<rparr>) t = peek_generation l t"
  "peek_generation (l\<lparr>awaiting := ws\<rparr>) t = peek_generation l t"
  "peek_generation (l\<lparr>generations := fmupd t n (generations l)\<rparr>) t' =
     (if t = t' then n else peek_generation l t')"
  "peek_generation (l\<lparr>generations := fmdrop t (generations l)\<rparr>) t' =
     (if t = t' then 0 else peek_generation l t')"
  by (simp_all add: peek_generation_def)

text \<open>Dropping claims keeps the invariant.\<close>

lemma ledger_ok_filter: "ledger_ok l \<Longrightarrow> ledger_ok (l\<lparr>claims := filter P (claims l)\<rparr>)"
  by (auto simp: ledger_ok_def list_all_iff distinct_map_filter)

lemma retain_unseen_filter:
  "\<exists>P. retain_unseen seen cs = filter P cs" if "distinct (map claim_key cs)"
  using that
proof (induction cs arbitrary: seen)
  case (Cons c cs)
  have "\<exists>P. retain_unseen s cs = filter P cs" for s using Cons by simp
  then obtain P where P: "retain_unseen (if claim_key c \<in> set seen then seen else seen @ [claim_key c]) cs
      = filter P cs" by blast
  have "c \<notin> set cs" using Cons.prems by auto
  then have "filter P cs = filter (\<lambda>x. if x = c then claim_key c \<notin> set seen else P x) cs"
    by (intro filter_cong) auto
  with P show ?case
    by (intro exI [of _ "\<lambda>x. if x = c then claim_key c \<notin> set seen else P x"]) (auto split: if_splits)
qed simp

lemma release_generation_ok: "ledger_ok l \<Longrightarrow> ledger_ok (release_generation l t g)"
proof (cases "is_live_run l t g \<or> peek_generation l t \<noteq> g")
  case True
  then show "ledger_ok l \<Longrightarrow> ?thesis"
    by (auto simp: release_generation_def is_live_run_def)
next
  case False
  assume ok: "ledger_ok l"
  have below: "claim_generation c \<le> g - 1 \<and> 0 < g - 1" if "c \<in> set (claims l)" "claim_task c = t" for c
  proof -
    from ok that have "0 < claim_generation c" "claim_generation c \<le> g"
      using False by (auto simp: ledger_ok_def list_all_iff)
    moreover from False that have "claim_generation c \<noteq> g"
      by (auto simp: is_live_run_def list_ex_iff)
    ultimately show ?thesis by linarith
  qed
  have "release_generation l t g =
      (if g - 1 = 0 then l\<lparr>generations := fmdrop t (generations l)\<rparr>
       else l\<lparr>generations := fmupd t (g - 1) (generations l)\<rparr>)"
    using False by (simp add: release_generation_def is_live_run_def)
  moreover have "\<forall>c \<in> set (claims l). claim_task c = t \<longrightarrow> g - 1 \<noteq> 0 \<and> claim_generation c \<le> g - 1"
    using below by force
  ultimately show ?thesis
    using ok by (cases "g - 1 = 0") (auto simp: ledger_ok_def list_all_iff)
qed

lemma take_ok:
  assumes "ledger_ok l" "open_claim l t kind op_key = None" "next_generation l t = (l', g)"
  shows "ledger_ok (fst (claim_attempt l' t kind op_key g now_ms))"
proof -
  from assms(3) have l': "l' = l\<lparr>generations := fmupd t g (generations l)\<rparr>" "g = peek_generation l t + 1"
    by (auto simp: next_generation_def Let_def)
  have no: "open_claim l' t kind op_key = None" using assms(2) l' by (simp add: open_claim_def)
  have "attempt_key t kind op_key \<notin> claim_key ` set (claims l)"
    using assms(2) open_claim_iff [of l t kind op_key] by simp
  moreover have "(t, g) \<notin> (\<lambda>c. (claim_task c, claim_generation c)) ` set (claims l)"
    using assms(1) l' by (auto simp: ledger_ok_def list_all_iff)
  ultimately show ?thesis
    using assms(1) no l'
    by (fastforce simp: ledger_ok_def list_all_iff claim_attempt_cases Let_def claim_key_def)
qed

lemma ledger_step_ok: "ledger_step l l' \<Longrightarrow> ledger_ok l \<Longrightarrow> ledger_ok l'"
proof (induction rule: ledger_step.induct)
  case (take t kind op_key l' g now_ms)
  then show ?case by (rule take_ok [rotated])
next
  case reload
  then obtain P where "retain_unseen [] (claims l) = filter P (claims l)"
    using retain_unseen_filter by (auto simp: ledger_ok_def)
  with reload show ?case by (simp add: ledger_new_def dedupe_def ledger_ok_filter)
next
  case (acknowledge t)
  then show ?case by (auto simp: acknowledge_def Let_def ledger_ok_def distinct_map_filter)
next
  case (await item)
  then show ?case
    by (auto simp: await_acknowledgement_def ledger_ok_def distinct_map_filter)
qed (simp_all add: settle_def settle_by_generation_def settle_task_def Let_def ledger_ok_filter
    release_generation_ok)

lemma ledger_reachable_ok: "ledger_step\<^sup>*\<^sup>* ledger_empty l \<Longrightarrow> ledger_ok l"
proof (induction rule: rtranclp_induct)
  case base
  show ?case by (simp add: ledger_ok_def ledger_empty_def)
qed (rule ledger_step_ok)

text \<open>
  In every ledger the service can reach no two open claims share an attempt key or a run
  number of one task, every open run number is positive and at most the task's counter (so an
  event can be judged against it), and at most one cut-off run per task awaits acknowledgement.
\<close>

theorem ledger_invariant:
  assumes "ledger_step\<^sup>*\<^sup>* ledger_empty l"
  shows "distinct (map claim_key (claims l))
    \<and> distinct (map (\<lambda>c. (claim_task c, claim_generation c)) (claims l))
    \<and> (\<forall>c \<in> set (claims l). 0 < claim_generation c \<and> claim_generation c \<le> peek_generation l (claim_task c))
    \<and> distinct (map ack_task (awaiting l))"
  using ledger_reachable_ok [OF assms] by (simp add: ledger_ok_def list_all_iff)

section \<open>Reconciliation\<close>

lemma update_record_find:
  "find_row (fst (update_record rows t f)) t' =
    (if t = t' then map_option f (find_row rows t) else find_row rows t')"
  if "\<And>r. record_id (f r) = record_id r"
  using that by (induction rows) (auto split: prod.splits)

lemma record_id_mark [simp]: "record_id (mark_interrupted r) = record_id r"
  by (simp add: mark_interrupted_def)

lemma mark_not_needed [simp]: "\<not> needs_mark (mark_interrupted r)"
  by (simp add: mark_interrupted_def needs_mark_def)

text \<open>The row of a task after reconciling: marked when a spawning claim names it.\<close>

definition reconciled_row :: "Claim list \<Rightarrow> string \<Rightarrow> Record \<Rightarrow> Record" where
  "reconciled_row cs t r =
    (if needs_mark r \<and> (\<exists>c \<in> set cs. spawns (claim_kind c) \<and> claim_task c = t)
     then mark_interrupted r else r)"

lemma reconcile_find:
  "find_row (fst (reconcile cs rows n)) t = map_option (reconciled_row cs t) (find_row rows t)"
proof (induction cs rows n rule: reconcile.induct)
  case (1 rows n)
  then show ?case by (simp add: reconciled_row_def option.map_id0 [unfolded id_def])
next
  case (2 c cs rows n)
  show ?case
  proof (cases "\<exists>r. spawns (claim_kind c) \<and> find_row rows (claim_task c) = Some r \<and> needs_mark r")
    case True
    then obtain r where r: "spawns (claim_kind c)" "find_row rows (claim_task c) = Some r" "needs_mark r"
      by blast
    note ih = "2.IH"(4) [OF _ r(2)]
    show ?thesis
      using r ih
      by (cases "find_row rows t")
        (auto simp: update_record_find reconciled_row_def Let_def split: prod.splits)
  next
    case False
    then have eq: "fst (reconcile (c # cs) rows n) = fst (reconcile cs rows n)"
      by (auto split: option.splits)
    have "find_row (fst (reconcile cs rows n)) t = map_option (reconciled_row cs t) (find_row rows t)"
      using False "2.IH" by (cases "find_row rows (claim_task c)") (auto split: if_splits)
    then show ?thesis
      using False unfolding eq
      by (cases "find_row rows t") (auto simp del: reconcile.simps simp: reconciled_row_def)
  qed
qed

lemma reconcile_ids: "map record_id (fst (reconcile cs rows n)) = map record_id rows"
proof (induction cs rows n rule: reconcile.induct)
  case (2 c cs rows n)
  have "map record_id (fst (update_record rows t mark_interrupted)) = map record_id rows" for t
    by (induction rows) (auto split: prod.splits)
  then show ?case
    using 2 by (auto simp: Let_def split: option.splits prod.splits)
qed simp

text \<open>The tasks reconciliation cuts off.\<close>

definition cut_off :: "Claim list \<Rightarrow> Record list \<Rightarrow> string set" where
  "cut_off cs rows = {t. (\<exists>c \<in> set cs. spawns (claim_kind c) \<and> claim_task c = t)
      \<and> (\<exists>r. find_row rows t = Some r \<and> needs_mark r)}"

lemma reconcile_acks:
  "ack_task ` set (snd (reconcile cs rows n)) = cut_off cs rows
   \<and> distinct (map ack_task (snd (reconcile cs rows n)))"
proof (induction cs rows n rule: reconcile.induct)
  case (2 c cs rows n)
  show ?case
  proof (cases "\<exists>r. spawns (claim_kind c) \<and> find_row rows (claim_task c) = Some r \<and> needs_mark r")
    case True
    then obtain r where r: "spawns (claim_kind c)" "find_row rows (claim_task c) = Some r" "needs_mark r"
      by blast
    let ?rows = "fst (update_record rows (claim_task c) mark_interrupted)"
    have "cut_off (c # cs) rows = insert (claim_task c) (cut_off cs ?rows)"
      "claim_task c \<notin> cut_off cs ?rows"
      using r by (auto simp: cut_off_def update_record_find split: if_splits)
    then show ?thesis
      using r "2.IH"(4) [OF _ r(2)] by (auto simp: Let_def split: prod.splits)
  next
    case False
    then have "reconcile (c # cs) rows n = reconcile cs rows n"
      by (auto split: option.splits)
    moreover have "cut_off (c # cs) rows = cut_off cs rows"
      using False by (auto simp: cut_off_def)
    ultimately show ?thesis
      using False "2.IH" by (cases "find_row rows (claim_task c)") (auto split: if_splits)
  qed
qed (simp add: cut_off_def)

text \<open>
  Reconciliation after a crash restarts nothing: every task with an unresolved start or
  resume ends interrupted unless it was detached, interrupted, done or failed already; every
  other task's row is the one that was there; no row is added, dropped or reordered; and
  exactly the tasks that were marked come back for acknowledgement, once each.
\<close>

theorem reconcile_marks_only_claimed:
  "map record_id (fst (reconcile cs rows n)) = map record_id rows
   \<and> find_row (fst (reconcile cs rows n)) t = map_option (\<lambda>r.
       if needs_mark r \<and> (\<exists>c \<in> set cs. spawns (claim_kind c) \<and> claim_task c = t)
       then mark_interrupted r else r) (find_row rows t)
   \<and> ack_task ` set (snd (reconcile cs rows n)) =
       {t. (\<exists>c \<in> set cs. spawns (claim_kind c) \<and> claim_task c = t)
         \<and> (\<exists>r. find_row rows t = Some r \<and> needs_mark r)}
   \<and> distinct (map ack_task (snd (reconcile cs rows n)))"
  using reconcile_ids [of cs rows n] reconcile_find [of cs rows n t, unfolded reconciled_row_def]
    reconcile_acks [of cs rows n, unfolded cut_off_def] by blast

text \<open>
  A cancelled row is treated as unfinished: with an unresolved start claim it becomes
  interrupted and keeps its end time, so a row that is not terminal carries one, against the
  rule the routine's own documentation states.
\<close>

theorem reconcile_cancelled_keeps_end_time:
  assumes "status_of r = Some Cancelled" "get r ''completedAt'' = Some v" "record_id r = Some t"
    and "spawns kind"
  shows "\<exists>r'. fst (reconcile [\<lparr>claim_task = t, claim_kind = kind, operation_key = k,
        claim_generation = g, claimed_at_ms = c\<rparr>] [r] n) = [r']
      \<and> status_of r' = Some Interrupted \<and> get r' ''completedAt'' = Some v \<and> \<not> end_time_ok r'"
  using assms
  by (simp add: needs_mark_def mark_interrupted_def end_time_ok_def contains_get Let_def)

end
