(* ===== verification/LaunchPlan.thy ===== *)
theory LaunchPlan
  imports Operations
begin

text \<open>
  From a task's row to a request: project locations (\<open>aeroric-protocol/src/project.rs\<close>,
  \<open>projects/mutations.rs\<close>), the executor port's vocabulary (\<open>tasks/executor.rs\<close>) and the
  decisions of \<open>tasks/launch_plan.rs\<close>. Which linked folders exist is the file system's answer
  and a parameter.
\<close>

section \<open>Where a project lives\<close>

datatype ProjectTarget =
    TargetLocal string
  | TargetSsh string string
  | TargetWsl string string

text \<open>\<open>#[serde(tag = "kind", rename_all = "lowercase", rename_all_fields = "camelCase")]\<close> on an object.\<close>

definition parse_target :: "Value \<Rightarrow> ProjectTarget option" where
  "parse_target v = (case v of
      Object m \<Rightarrow>
       (if str_field m ''kind'' = Some ''local'' then
          map_option TargetLocal (str_field m ''path'')
        else if str_field m ''kind'' = Some ''ssh'' then
          (case (str_field m ''connectionId'', str_field m ''remotePath'') of
             (Some c, Some p) \<Rightarrow> Some (TargetSsh c p) | _ \<Rightarrow> None)
        else if str_field m ''kind'' = Some ''wsl'' then
          (case (str_field m ''distribution'', str_field m ''linuxPath'') of
             (Some d, Some p) \<Rightarrow> Some (TargetWsl d p) | _ \<Rightarrow> None)
        else None)
    | _ \<Rightarrow> None)"

definition resolve_location :: "Record \<Rightarrow> ProjectTarget" where
  "resolve_location project =
    (case Option.bind (get project ''location'') parse_target of
       Some target \<Rightarrow> target
     | None \<Rightarrow> TargetLocal (unwrap_or (str_field project ''path'') []))"

definition is_addressable :: "Record \<Rightarrow> bool" where
  "is_addressable project =
    (case get project ''location'' of None \<Rightarrow> True | Some location \<Rightarrow> parse_target location \<noteq> None)"

definition is_local :: "ProjectTarget \<Rightarrow> bool" where
  "is_local target = (case target of TargetLocal _ \<Rightarrow> True | _ \<Rightarrow> False)"

section \<open>The executor's vocabulary\<close>

datatype CancelTarget = CancelSsh | CancelWsl | CancelDsh | CancelLocal string

datatype WorkingDirectory =
    WorkLocal string
  | WorkSsh string string
  | WorkWsl string string

record DshWindowFacts =
  workspace_id :: "string option"
  prompt_mode :: "string option"
  client_time_zone :: "string option"

record HostWindowFacts =
  terminal_size :: "(nat \<times> nat) option"
  dsh_facts :: "DshWindowFacts option"

record LaunchRequest =
  lr_task_id :: string
  lr_project_id :: string
  lr_operation_key :: string
  lr_generation :: nat
  lr_family :: ProtocolFamily
  lr_agent :: string
  lr_permission_mode :: PermissionMode
  lr_permission_mode_wire :: string
  lr_prompt :: string
  lr_prompt_override :: "string option"
  lr_images :: "string list"
  lr_texts :: "string list"
  lr_inject_prompt :: bool
  lr_session_id :: "string option"
  lr_selected_model :: "string option"
  lr_reasoning_effort :: "string option"
  lr_speed :: "string option"
  lr_dsh_agent_preset :: "string option"
  lr_agent_config_id :: "string option"
  lr_created_at_ms :: nat
  lr_dsh_window :: "DshWindowFacts option"
  lr_working_directory :: WorkingDirectory
  lr_linked_folders :: "string list"
  lr_terminal_size :: "(nat \<times> nat) option"

record ResumeRequest =
  rr_task_id :: string
  rr_project_id :: string
  rr_operation_key :: string
  rr_generation :: nat
  rr_family :: ProtocolFamily
  rr_agent :: string
  rr_session_id :: string
  rr_session_path :: "string option"
  rr_permission_mode :: PermissionMode
  rr_permission_mode_wire :: string
  rr_selected_model :: "string option"
  rr_reasoning_effort :: "string option"
  rr_speed :: "string option"
  rr_dsh_agent_preset :: "string option"
  rr_agent_config_id :: "string option"
  rr_prompt :: "string option"
  rr_working_directory :: WorkingDirectory
  rr_linked_folders :: "string list"
  rr_terminal_size :: "(nat \<times> nat) option"

record ResetOutcome =
  claude_session_id :: "string option"
  claude_session_path :: "string option"
  codex_session_id :: "string option"
  codex_session_path :: "string option"
  dsh_session_id :: "string option"
  dsh_session_path :: "string option"
  omp_session_id :: "string option"
  omp_session_path :: "string option"

datatype ExecutorFailure = SpawnFailed string | Unsupported string | Worktree string | StopFailed string

fun failure_text :: "ExecutorFailure \<Rightarrow> string" where
  "failure_text (SpawnFailed reason) = ''the process could not be started ('' @ reason @ '')''"
| "failure_text (Unsupported reason) = ''this task cannot be continued here: '' @ reason"
| "failure_text (Worktree reason) = ''the worktree could not be prepared: '' @ reason"
| "failure_text (StopFailed reason) = ''the running task could not be stopped: '' @ reason"

datatype ObservationOrigin = Transcript | Hook | Runtime

definition is_guarded :: "ObservationOrigin \<Rightarrow> bool" where
  "is_guarded origin \<longleftrightarrow> origin = Transcript \<or> origin = Hook"

datatype TaskEvent =
    Status (event_task: string) (event_generation: nat) TaskStatus "nat option" "string option" ObservationOrigin
  | Exit (event_task: string) (event_generation: nat) "int option"
  | TerminalReady (event_task: string) (event_generation: nat)

definition signed_decimal :: "int \<Rightarrow> string" where
  "signed_decimal i = (if i < 0 then ''-'' @ decimal (nat (- i)) else decimal (nat i))"

definition settled_by_exit :: "int option \<Rightarrow> TaskStatus \<times> string option" where
  "settled_by_exit code =
    (if code = Some 0 \<or> code = None then Done else Failed,
     case code of
       Some c \<Rightarrow> if c \<noteq> 0 then Some (''the process exited with code '' @ signed_decimal c) else None
     | None \<Rightarrow> None)"

text \<open>\<open>TaskNotification::Status\<close>: task, status, reason.\<close>

datatype TaskNotification = NotifyStatus string TaskStatus "string option"

definition notification_when_unrecorded :: "TaskEvent \<Rightarrow> TaskNotification option" where
  "notification_when_unrecorded event = (case event of
      Status t _ status _ reason _ \<Rightarrow> Some (NotifyStatus t status reason)
    | Exit t _ code \<Rightarrow> (case settled_by_exit code of (status, reason) \<Rightarrow> Some (NotifyStatus t status reason))
    | TerminalReady _ _ \<Rightarrow> None)"

section \<open>Launch plan\<close>

definition record_number :: "Record \<Rightarrow> string \<Rightarrow> nat option" where
  "record_number r key = Option.bind (get r key) (\<lambda>v.
    or_else (as_u64 v) (Option.bind (as_i64 v) u64_try_from))"

text \<open>
  \<open>serde_json::from_value\<close> of a unit variant takes the name as a string or as the only key of
  an object holding null.
\<close>

definition permission_of_value :: "Value \<Rightarrow> PermissionMode option" where
  "permission_of_value v = List.find (\<lambda>m. v = String (permission_word m)
      \<or> v = Object (fmupd (permission_word m) Null fmempty)) [Ask, AutoEdit, FullAccess]"

definition permission_mode :: "Record \<Rightarrow> PermissionMode" where
  "permission_mode r = unwrap_or (Option.bind (get r ''permissionMode'') permission_of_value) Ask"

definition working_directory :: "Record \<Rightarrow> Record \<Rightarrow> WorkingDirectory option" where
  "working_directory r project =
    (if \<not> is_addressable project then None
     else case resolve_location project of
       TargetSsh connection_id remote_path \<Rightarrow> Some (WorkSsh connection_id remote_path)
     | TargetWsl distribution linux_path \<Rightarrow> Some (WorkWsl distribution linux_path)
     | TargetLocal path \<Rightarrow> Some (WorkLocal (unwrap_or (str_field r ''worktreePath'') path)))"

definition process_path :: "Record \<Rightarrow> Record \<Rightarrow> string" where
  "process_path r project = (case working_directory r project of
      Some (WorkLocal path) \<Rightarrow> path
    | Some (WorkSsh _ path) \<Rightarrow> path
    | Some (WorkWsl _ path) \<Rightarrow> path
    | None \<Rightarrow> unwrap_or (str_field r ''worktreePath'') [])"

definition cancel_target :: "Record \<Rightarrow> Record \<Rightarrow> AgentFamilies \<Rightarrow> CancelTarget" where
  "cancel_target r project families =
    (if launch_family_of r families = Dsh then CancelDsh
     else if \<not> is_addressable project then CancelLocal []
     else case resolve_location project of
       TargetSsh _ _ \<Rightarrow> CancelSsh
     | TargetWsl _ _ \<Rightarrow> CancelWsl
     | TargetLocal _ \<Rightarrow> CancelLocal (process_path r project))"

definition linked_folders :: "(Record \<Rightarrow> string list) \<Rightarrow> WorkingDirectory \<Rightarrow> Record \<Rightarrow> string list" where
  "linked_folders usable wd project = (case wd of WorkLocal _ \<Rightarrow> usable project | _ \<Rightarrow> [])"

definition launch_request ::
  "(Record \<Rightarrow> string list) \<Rightarrow> Record \<Rightarrow> Record \<Rightarrow> AgentFamilies \<Rightarrow> string \<Rightarrow> nat \<Rightarrow> string list \<Rightarrow>
   string list \<Rightarrow> bool \<Rightarrow> string option \<Rightarrow> DshWindowFacts option \<Rightarrow> LaunchRequest option" where
  "launch_request usable r project families op_key generation images texts inject prompt_override dsh_window =
    Option.bind (working_directory r project) (\<lambda>wd.
    Option.bind (str_field r ''id'') (\<lambda>task_id.
    Option.bind (str_field r ''projectId'') (\<lambda>project_id.
      let session_prefix = family_prefix (owner_family (resolve_session_owner r families)) in
      Some \<lparr>lr_task_id = task_id, lr_project_id = project_id, lr_operation_key = op_key,
        lr_generation = generation, lr_family = launch_family_of r families,
        lr_agent = unwrap_or (str_field r ''agent'') [],
        lr_permission_mode = permission_mode r,
        lr_permission_mode_wire = unwrap_or (str_field r ''permissionMode'') [],
        lr_prompt = unwrap_or (str_field r ''prompt'') [], lr_prompt_override = prompt_override,
        lr_images = images, lr_texts = texts, lr_inject_prompt = inject,
        lr_session_id = str_field r (id_key session_prefix),
        lr_selected_model = str_field r ''selectedModel'',
        lr_reasoning_effort = str_field r ''reasoningEffort'', lr_speed = str_field r ''speed'',
        lr_dsh_agent_preset = str_field r ''dshAgentPreset'',
        lr_agent_config_id = str_field r ''agentConfigId'',
        lr_created_at_ms = unwrap_or (record_number r ''createdAt'') 0,
        lr_dsh_window = dsh_window, lr_working_directory = wd,
        lr_linked_folders = linked_folders usable wd project, lr_terminal_size = None\<rparr>)))"

definition resume_request ::
  "(Record \<Rightarrow> string list) \<Rightarrow> Record \<Rightarrow> Record \<Rightarrow> AgentFamilies \<Rightarrow> string \<Rightarrow> nat \<Rightarrow> string \<Rightarrow>
   ResumeRequest option" where
  "resume_request usable r project families op_key generation sid =
    Option.bind (working_directory r project) (\<lambda>wd.
    Option.bind (str_field r ''id'') (\<lambda>task_id.
    Option.bind (str_field r ''projectId'') (\<lambda>project_id.
      let launch = launch_family_of r families;
          takes_prompt = (launch \<noteq> Dsh \<and> (case wd of WorkLocal _ \<Rightarrow> True | _ \<Rightarrow> False)) in
      Some \<lparr>rr_task_id = task_id, rr_project_id = project_id, rr_operation_key = op_key,
        rr_generation = generation, rr_family = launch,
        rr_agent = unwrap_or (str_field r ''agent'') [], rr_session_id = sid,
        rr_session_path =
          str_field r (path_key (family_prefix (owner_family (resolve_session_owner r families)))),
        rr_permission_mode = permission_mode r,
        rr_permission_mode_wire = unwrap_or (str_field r ''permissionMode'') [],
        rr_selected_model = str_field r ''selectedModel'',
        rr_reasoning_effort = str_field r ''reasoningEffort'', rr_speed = str_field r ''speed'',
        rr_dsh_agent_preset = str_field r ''dshAgentPreset'',
        rr_agent_config_id = str_field r ''agentConfigId'',
        rr_prompt = (if takes_prompt then Some (unwrap_or (str_field r ''prompt'') []) else None),
        rr_working_directory = wd, rr_linked_folders = linked_folders usable wd project,
        rr_terminal_size = None\<rparr>)))"

datatype Completion = CompleteDsh | StopProcess | Nothing

definition is_live_for_completion :: "TaskStatus \<Rightarrow> bool" where
  "is_live_for_completion status \<longleftrightarrow> status = Pending \<or> status = Running \<or> status = InputRequired"

definition completion_for :: "Record \<Rightarrow> AgentFamilies \<Rightarrow> Completion" where
  "completion_for r families =
    (if launch_family_of r families = Dsh then CompleteDsh
     else case status_of r of
       Some status \<Rightarrow> if is_live_for_completion status then StopProcess else Nothing
     | None \<Rightarrow> Nothing)"

definition reset_pairs :: "ResetOutcome \<Rightarrow> (ProtocolFamily \<times> string option \<times> string option) list" where
  "reset_pairs s =
    [(Codex, codex_session_id s, codex_session_path s), (Claude, claude_session_id s, claude_session_path s),
     (Dsh, dsh_session_id s, dsh_session_path s), (Omp, omp_session_id s, omp_session_path s)]"

definition overlay_pair ::
  "Record \<Rightarrow> ProtocolFamily \<times> string option \<times> string option \<Rightarrow> Record" where
  "overlay_pair r entry = (case entry of (family, i, p) \<Rightarrow>
    insert_opt (path_key (family_prefix family)) p (insert_opt (id_key (family_prefix family)) i r))"

definition merge_reset_session :: "Record \<Rightarrow> ResetOutcome \<Rightarrow> Record" where
  "merge_reset_session r snapshot =
    (let pairs = reset_pairs snapshot;
         next = foldl overlay_pair r pairs;
         present = map fst (filter (\<lambda>(_, i, p). non_empty_text i \<or> non_empty_text p) pairs)
     in case present of
          [family] \<Rightarrow>
            (let cleared = foldl (\<lambda>u other. if other = family then u
                   else fmdrop (path_key (family_prefix other)) (fmdrop (id_key (family_prefix other)) u))
                   next [Claude, Codex, Dsh, Omp];
                 agent = unwrap_or (str_field cleared ''agent'') []
             in fmupd ''sessionFamily'' (String (family_word family))
                  (fmupd ''sessionCodexLike'' (Bool (family = Codex))
                    (fmupd ''sessionAgent'' (String agent) cleared)))
        | _ \<Rightarrow> next)"

end
