(* ===== verification/Storage.thy ===== *)
theory Storage
  imports Json "HOL-Library.Char_ord"
begin

text \<open>
  Persistence as the task service uses it: \<open>storage/atomic.rs\<close> (atomic replace, corrupt files,
  stale temporaries), \<open>storage/compat.rs\<close> (arrays of records), \<open>storage/fingerprint.rs\<close> (which
  bytes a writer may cover), \<open>storage/runtime.rs\<close> (revision and cover table) and
  \<open>storage/tasks.rs\<close>. The disk is a finite map from paths relative to the data directory to
  bytes. \<open>serde_json\<close>'s printer and parser, SHA-256 and the operating system's answers are
  fields of \<open>Store\<close>: I/O number \<open>n\<close> fails as \<open>io_fault n\<close> says, for want of permission or for
  another reason, and a write that fails leaves \<open>torn bytes\<close> behind. The free-text reasons of
  \<open>StorageError\<close> and the file modes are dropped.
\<close>

section \<open>Paths\<close>

datatype PathError = EmptyId | IllegalIdCharacter string

definition id_char :: "char \<Rightarrow> bool" where
  "id_char c \<longleftrightarrow> (let x = byte_of c in
     48 \<le> x \<and> x \<le> 57 \<or> 65 \<le> x \<and> x \<le> 90 \<or> 97 \<le> x \<and> x \<le> 122 \<or> x = 45 \<or> x = 95)"

definition validate_id :: "string \<Rightarrow> PathError option" where
  "validate_id i =
    (if trim i = [] then Some EmptyId
     else if \<not> list_all id_char (trim i) then Some (IllegalIdCharacter i)
     else None)"

section \<open>Errors and the disk\<close>

datatype StorageError =
    Corrupt string
  | Unreadable string
  | WriteFailed string
  | ReplaceFailed string
  | PermissionDenied string
  | UnsupportedSchema string nat nat
  | ContentDiverged string
  | InvalidId PathError
  | WritePermission

definition is_stale_write :: "StorageError \<Rightarrow> bool" where
  "is_stale_write e = (case e of ContentDiverged _ \<Rightarrow> True | _ \<Rightarrow> False)"

record Fingerprint =
  fp_sha256 :: string
  fp_size :: nat

record RuntimeMetadata =
  schema_version :: nat
  epoch :: string
  revision :: string
  updated_at_ms :: nat
  volume_kind :: string
  content_fingerprints :: "(string, Fingerprint option) fmap"

text \<open>What reading \<open>runtime.json\<close> finds: nothing, a document serde refuses, or metadata.\<close>

datatype RuntimeFile = NoRuntime | BadRuntime | HasRuntime RuntimeMetadata

record Disk =
  files :: "(string, string) fmap"
  runtime_file :: RuntimeFile
  ios :: nat

datatype IoFault = Denied | Broken

record Store =
  to_pretty :: "Value \<Rightarrow> string"
  from_slice :: "string \<Rightarrow> Value option"
  sha256 :: "string \<Rightarrow> string"
  lease :: "string option"
  lease_volume :: string
  clock_ms :: nat
  io_fault :: "nat \<Rightarrow> IoFault option"
  torn :: "string \<Rightarrow> string"
  process_id :: nat
  nanos :: "nat \<Rightarrow> nat"

definition io_step :: "Store \<Rightarrow> (IoFault \<Rightarrow> StorageError) \<Rightarrow> (Disk, StorageError, unit) op" where
  "io_step S err d =
    (case io_fault S (ios d) of Some fault \<Rightarrow> Inl (err fault) | None \<Rightarrow> Inr (), d\<lparr>ios := ios d + 1\<rparr>)"

fun read_error :: "string \<Rightarrow> IoFault \<Rightarrow> StorageError" where
  "read_error path Denied = PermissionDenied path"
| "read_error path Broken = Unreadable path"

fun io_error :: "string \<Rightarrow> IoFault \<Rightarrow> StorageError" where
  "io_error path Denied = PermissionDenied path"
| "io_error path Broken = WriteFailed path"

abbreviation no_faults :: "Store \<Rightarrow> bool" where
  "no_faults S \<equiv> (\<forall>n. io_fault S n = None)"

definition tasks_path :: "string \<Rightarrow> string" where
  "tasks_path project_id = ''projects/'' @ project_id @ ''/tasks.json''"

definition tasks_file :: "string \<Rightarrow> (Disk, StorageError, string) op" where
  "tasks_file project_id =
    (case validate_id project_id of
       Some e \<Rightarrow> fail (InvalidId e)
     | None \<Rightarrow> ok (tasks_path project_id))"

definition require_writer :: "Store \<Rightarrow> (Disk, StorageError, string) op" where
  "require_writer S = (case lease S of None \<Rightarrow> fail WritePermission | Some holder \<Rightarrow> ok holder)"

section \<open>Reading\<close>

definition read_bytes :: "Store \<Rightarrow> string \<Rightarrow> (Disk, StorageError, string option) op" where
  "read_bytes S path = andThen (io_step S (read_error path)) (\<lambda>_ d. (Inr (fmlookup (files d) path), d))"

definition read_json :: "Store \<Rightarrow> string \<Rightarrow> (Disk, StorageError, Value option) op" where
  "read_json S path = andThen (read_bytes S path) (\<lambda>found. case found of
      None \<Rightarrow> ok None
    | Some bytes \<Rightarrow> (case from_slice S bytes of
         None \<Rightarrow> fail (Corrupt path)
       | Some v \<Rightarrow> ok (Some v)))"

fun as_records :: "Value list \<Rightarrow> Record list option" where
  "as_records [] = Some []"
| "as_records (Object m # vs) = map_option (\<lambda>rs. m # rs) (as_records vs)"
| "as_records (_ # vs) = None"

definition read_array :: "Store \<Rightarrow> string \<Rightarrow> (Disk, StorageError, Record list option) op" where
  "read_array S path = andThen (read_json S path) (\<lambda>found. case found of
      None \<Rightarrow> ok None
    | Some (Array items) \<Rightarrow> (case as_records items of
         None \<Rightarrow> fail (Corrupt path)
       | Some rows \<Rightarrow> ok (Some rows))
    | Some _ \<Rightarrow> fail (Corrupt path))"

definition fingerprint_of :: "Store \<Rightarrow> string \<Rightarrow> Fingerprint" where
  "fingerprint_of S bytes = \<lparr>fp_sha256 = sha256 S bytes, fp_size = length bytes\<rparr>"

definition of_file :: "Store \<Rightarrow> string \<Rightarrow> (Disk, StorageError, Fingerprint option) op" where
  "of_file S path = andThen (read_bytes S path) (\<lambda>found. ok (map_option (fingerprint_of S) found))"

record StampedTasks =
  stamped_records :: "Record list"
  stamped_fingerprint :: "Fingerprint option"
  stamped_key :: string

definition load_stamped :: "Store \<Rightarrow> string \<Rightarrow> (Disk, StorageError, StampedTasks) op" where
  "load_stamped S project_id =
    andThen (tasks_file project_id) (\<lambda>path.
    andThen (of_file S path) (\<lambda>fp.
    andThen (read_array S path) (\<lambda>found.
      ok \<lparr>stamped_records = (case found of None \<Rightarrow> [] | Some rows \<Rightarrow> rows),
          stamped_fingerprint = fp, stamped_key = path\<rparr>)))"

section \<open>Atomic replacement\<close>

text \<open>
  \<open>write_atomic\<close>: a temporary in the same directory, created anew, written, synced and renamed
  over the target; a step that fails discards the temporary, and the discard itself may fail.
  The temporary's name carries the process id and the clock.
\<close>

definition file_name :: "string \<Rightarrow> string" where
  "file_name path = rev (takeWhile (\<lambda>c. c \<noteq> CHR ''/'') (rev path))"

definition directory_of :: "string \<Rightarrow> string" where
  "directory_of path = rev (dropWhile (\<lambda>c. c \<noteq> CHR ''/'') (rev path))"

definition temporary_name :: "string \<Rightarrow> nat \<Rightarrow> nat \<Rightarrow> string" where
  "temporary_name target pid ns = ''.'' @ target @ ''.'' @ decimal pid @ ''-'' @ decimal ns @ ''.tmp''"

definition temporary_path :: "Store \<Rightarrow> string \<Rightarrow> nat \<Rightarrow> string" where
  "temporary_path S path ns = directory_of path @ temporary_name (file_name path) (process_id S) ns"

definition create_private :: "Store \<Rightarrow> string \<Rightarrow> (Disk, StorageError, unit) op" where
  "create_private S temp = andThen (io_step S (io_error temp)) (\<lambda>_ d.
    if fmlookup (files d) temp \<noteq> None then (Inl (WriteFailed temp), d)
    else (Inr (), d\<lparr>files := fmupd temp [] (files d)\<rparr>))"

definition write_all :: "Store \<Rightarrow> string \<Rightarrow> string \<Rightarrow> string \<Rightarrow> (Disk, StorageError, unit) op" where
  "write_all S path temp bytes d = (case io_fault S (ios d) of
      Some fault \<Rightarrow> (Inl (io_error path fault),
        d\<lparr>ios := ios d + 1, files := fmupd temp (torn S bytes) (files d)\<rparr>)
    | None \<Rightarrow> (Inr (), d\<lparr>ios := ios d + 1, files := fmupd temp bytes (files d)\<rparr>))"

definition discard :: "Store \<Rightarrow> string \<Rightarrow> Disk \<Rightarrow> Disk" where
  "discard S temp d = (case io_fault S (ios d) of
      Some _ \<Rightarrow> d\<lparr>ios := ios d + 1\<rparr>
    | None \<Rightarrow> d\<lparr>ios := ios d + 1, files := fmdrop temp (files d)\<rparr>)"

definition or_discard ::
  "Store \<Rightarrow> string \<Rightarrow> (Disk, StorageError, 'a) op \<Rightarrow> (Disk, StorageError, 'a) op" where
  "or_discard S temp m d = (case m d of
      (Inl e, d') \<Rightarrow> (Inl e, discard S temp d')
    | (Inr a, d') \<Rightarrow> (Inr a, d'))"

definition rename_file :: "Store \<Rightarrow> string \<Rightarrow> string \<Rightarrow> (Disk, StorageError, unit) op" where
  "rename_file S temp path = andThen (io_step S (io_error path)) (\<lambda>_ d.
    case fmlookup (files d) temp of
      None \<Rightarrow> (Inl (WriteFailed path), d)
    | Some bytes \<Rightarrow> (Inr (), d\<lparr>files := fmupd path bytes (fmdrop temp (files d))\<rparr>))"

definition write_atomic :: "Store \<Rightarrow> string \<Rightarrow> string \<Rightarrow> (Disk, StorageError, unit) op" where
  "write_atomic S path bytes =
    andThen (io_step S (\<lambda>_. WriteFailed path)) (\<lambda>_ d.
      let temp = temporary_path S path (nanos S (ios d)) in
      andThen (create_private S temp) (\<lambda>_.
      andThen (or_discard S temp (write_all S path temp bytes)) (\<lambda>_.
      andThen (or_discard S temp (io_step S (io_error path))) (\<lambda>_.
      or_discard S temp (rename_file S temp path)))) d)"

definition backup_path :: "string \<Rightarrow> string" where
  "backup_path path =
    path @ (if CHR ''.'' \<in> set (tl (file_name path)) then ''.bak'' else ''.dat.bak'')"

definition keep_copy :: "Store \<Rightarrow> string \<Rightarrow> string \<Rightarrow> (Disk, StorageError, unit) op" where
  "keep_copy S path old d = (case io_fault S (ios d) of
      Some _ \<Rightarrow> (Inl (WriteFailed path),
        d\<lparr>ios := ios d + 1, files := fmupd (backup_path path) (torn S old) (files d)\<rparr>)
    | None \<Rightarrow> (Inr (), d\<lparr>ios := ios d + 1, files := fmupd (backup_path path) old (files d)\<rparr>))"

definition replace_with_backup :: "Store \<Rightarrow> string \<Rightarrow> string \<Rightarrow> (Disk, StorageError, bool) op" where
  "replace_with_backup S path bytes d =
    (case fmlookup (files d) path of
       None \<Rightarrow> andThen (write_atomic S path bytes) (\<lambda>_. ok False) d
     | Some old \<Rightarrow>
        andThen (keep_copy S path old) (\<lambda>_.
        andThen (write_atomic S path bytes) (\<lambda>_. ok True)) d)"

definition write_array :: "Store \<Rightarrow> string \<Rightarrow> Record list \<Rightarrow> (Disk, StorageError, unit) op" where
  "write_array S path rows =
    andThen (read_json S path) (\<lambda>_.
    andThen (replace_with_backup S path (to_pretty S (Array (map Object rows)))) (\<lambda>_. ok ()))"

definition load_tasks :: "Store \<Rightarrow> string \<Rightarrow> (Disk, StorageError, Record list) op" where
  "load_tasks S project_id =
    andThen (tasks_file project_id) (\<lambda>path.
    andThen (read_array S path) (\<lambda>found. ok (case found of None \<Rightarrow> [] | Some rows \<Rightarrow> rows)))"

definition save_tasks :: "Store \<Rightarrow> string \<Rightarrow> Record list \<Rightarrow> (Disk, StorageError, unit) op" where
  "save_tasks S project_id rows =
    andThen (require_writer S) (\<lambda>_.
    andThen (tasks_file project_id) (\<lambda>path.
    andThen (io_step S (\<lambda>_. WriteFailed path)) (\<lambda>_. write_array S path rows)))"

definition projects_file :: string where
  "projects_file = ''projects.json''"

definition load_projects :: "Store \<Rightarrow> (Disk, StorageError, Record list) op" where
  "load_projects S =
    andThen (read_array S projects_file) (\<lambda>found. ok (case found of None \<Rightarrow> [] | Some rows \<Rightarrow> rows))"

definition save_projects :: "Store \<Rightarrow> Record list \<Rightarrow> (Disk, StorageError, unit) op" where
  "save_projects S rows =
    andThen (require_writer S) (\<lambda>_.
    andThen (io_step S (\<lambda>_. WriteFailed projects_file)) (\<lambda>_. write_array S projects_file rows))"

section \<open>The revision and cover table\<close>

definition RUNTIME_SCHEMA_VERSION :: nat where
  "RUNTIME_SCHEMA_VERSION = 2"

definition canonical_decimal :: "string \<Rightarrow> nat option" where
  "canonical_decimal text = (case parse_uint 64 text of
      Some v \<Rightarrow> if decimal v = text then Some v else None
    | None \<Rightarrow> None)"

definition runtime_path :: string where
  "runtime_path = ''runtime.json''"

definition parse_runtime :: "RuntimeMetadata \<Rightarrow> StorageError + RuntimeMetadata" where
  "parse_runtime meta =
    (if RUNTIME_SCHEMA_VERSION < schema_version meta
     then Inl (UnsupportedSchema runtime_path (schema_version meta) RUNTIME_SCHEMA_VERSION)
     else if canonical_decimal (revision meta) = None then Inl (Corrupt runtime_path)
     else Inr (meta\<lparr>schema_version := RUNTIME_SCHEMA_VERSION\<rparr>))"

definition runtime_load :: "Store \<Rightarrow> (Disk, StorageError, RuntimeMetadata option) op" where
  "runtime_load S = andThen (io_step S (read_error runtime_path)) (\<lambda>_ d.
    (case runtime_file d of
       NoRuntime \<Rightarrow> Inr None
     | BadRuntime \<Rightarrow> Inl (Corrupt runtime_path)
     | HasRuntime meta \<Rightarrow> (case parse_runtime meta of Inl e \<Rightarrow> Inl e | Inr m \<Rightarrow> Inr (Some m)), d))"

definition recorded_cover :: "Store \<Rightarrow> string \<Rightarrow> (Disk, StorageError, Fingerprint option option) op" where
  "recorded_cover S key = andThen (runtime_load S) (\<lambda>found. ok (case found of
      None \<Rightarrow> None
    | Some meta \<Rightarrow> fmlookup (content_fingerprints meta) key))"

definition publish_covers ::
  "(string \<times> Fingerprint option) list \<Rightarrow> (string, Fingerprint option) fmap \<Rightarrow>
   (string, Fingerprint option) fmap" where
  "publish_covers updates table = foldl (\<lambda>t (key, v). fmupd key v t) table updates"

definition bumped_metadata ::
  "Store \<Rightarrow> string \<Rightarrow> (string \<times> Fingerprint option) list \<Rightarrow> RuntimeMetadata option \<Rightarrow>
   RuntimeMetadata option" where
  "bumped_metadata S holder updates found =
    (let meta = (case found of
          Some m \<Rightarrow> m
        | None \<Rightarrow> \<lparr>schema_version = RUNTIME_SCHEMA_VERSION, epoch = holder, revision = ''0'',
                   updated_at_ms = clock_ms S, volume_kind = lease_volume S,
                   content_fingerprints = fmempty\<rparr>) in
     case canonical_decimal (revision meta) of
       None \<Rightarrow> None
     | Some v \<Rightarrow>
        if 2 ^ 64 \<le> v + 1 then None
        else Some (meta\<lparr>revision := decimal (v + 1), epoch := holder, updated_at_ms := clock_ms S,
               volume_kind := lease_volume S,
               content_fingerprints := publish_covers updates (content_fingerprints meta)\<rparr>))"

definition bump_covering ::
  "Store \<Rightarrow> (string \<times> Fingerprint option) list \<Rightarrow> (Disk, StorageError, RuntimeMetadata) op" where
  "bump_covering S updates =
    andThen (require_writer S) (\<lambda>holder.
    andThen (runtime_load S) (\<lambda>found.
      case bumped_metadata S holder updates found of
        None \<Rightarrow> fail (Corrupt runtime_path)
      | Some next \<Rightarrow> andThen (io_step S (io_error runtime_path)) (\<lambda>_ d.
           (Inr next, d\<lparr>runtime_file := HasRuntime next\<rparr>))))"

section \<open>Covering writes\<close>

datatype Cover = Observed "Fingerprint option" | LastCoreWrite

definition check_cover ::
  "Store \<Rightarrow> string \<Rightarrow> Cover \<Rightarrow> (Disk, StorageError, Fingerprint option) op" where
  "check_cover S path cover =
    andThen (of_file S path) (\<lambda>on_disk.
    andThen (case cover of
        Observed baseline \<Rightarrow> ok baseline
      | LastCoreWrite \<Rightarrow> andThen (recorded_cover S path) (\<lambda>found. ok (case found of
           Some recorded \<Rightarrow> recorded
         | None \<Rightarrow> on_disk)))
      (\<lambda>baseline. if on_disk \<noteq> baseline then fail (ContentDiverged path) else ok on_disk))"

text \<open>
  \<open>save_covering\<close> ends with \<open>of_file(..)?.expect(..)\<close>: the bytes were just written, so the absent
  case is the panic of \<open>expect\<close>; it is written here as \<open>Corrupt\<close>, and \<open>save_covering_ok\<close> below
  shows a successful save never takes it.
\<close>

definition save_covering ::
  "Store \<Rightarrow> string \<Rightarrow> Record list \<Rightarrow> Cover \<Rightarrow> (Disk, StorageError, Fingerprint \<times> string) op" where
  "save_covering S project_id rows cover =
    andThen (require_writer S) (\<lambda>_.
    andThen (tasks_file project_id) (\<lambda>path.
    andThen (io_step S (\<lambda>_. WriteFailed path)) (\<lambda>_.
    andThen (check_cover S path cover) (\<lambda>_.
    andThen (write_array S path rows) (\<lambda>_.
    andThen (of_file S path) (\<lambda>written. case written of
        Some fp \<Rightarrow> ok (fp, path)
      | None \<Rightarrow> fail (Corrupt path)))))))"

definition remove_covering ::
  "Store \<Rightarrow> string \<Rightarrow> Cover \<Rightarrow> (Disk, StorageError, Fingerprint option \<times> string) op" where
  "remove_covering S project_id cover =
    andThen (require_writer S) (\<lambda>_.
    andThen (tasks_file project_id) (\<lambda>path.
    andThen (check_cover S path cover) (\<lambda>_ d.
      if fmlookup (files d) path = None then ok (None, path) d
      else andThen (io_step S (\<lambda>_. WriteFailed path)) (\<lambda>_ d.
        (Inr (None, path), d\<lparr>files := fmdrop path (files d)\<rparr>)) d)))"

section \<open>Temporaries a crashed writer left\<close>

definition rsplit_dash :: "string \<Rightarrow> string option" where
  "rsplit_dash name =
    (if CHR ''-'' \<in> set name then Some (rev (takeWhile (\<lambda>c. c \<noteq> CHR ''-'') (rev name))) else None)"

definition ends_with :: "string \<Rightarrow> string \<Rightarrow> bool" where
  "ends_with s suffix \<longleftrightarrow> length suffix \<le> length s \<and> drop (length s - length suffix) s = suffix"

definition strip_suffix :: "string \<Rightarrow> string \<Rightarrow> string option" where
  "strip_suffix s suffix =
    (if ends_with s suffix then Some (take (length s - length suffix) s) else None)"

definition temp_stamp :: "string \<Rightarrow> nat option" where
  "temp_stamp name = Option.bind (Option.bind (rsplit_dash name) (\<lambda>rest. strip_suffix rest ''.tmp''))
    (parse_uint 128)"

definition temp_age :: "nat \<Rightarrow> string \<Rightarrow> nat option" where
  "temp_age now_ms name = Option.bind (temp_stamp name) (\<lambda>ns.
    let now_ns = now_ms * 1000 in
    if ns \<le> now_ns then Some ((now_ns - ns) div 1000 mod 2 ^ 64) else None)"

definition temp_removed :: "nat \<Rightarrow> nat \<Rightarrow> string \<Rightarrow> bool" where
  "temp_removed now_ms max_age_ms name \<longleftrightarrow>
    (case name of [] \<Rightarrow> False | c # _ \<Rightarrow> c = CHR ''.'') \<and> ends_with name ''.tmp''
    \<and> (case temp_age now_ms name of None \<Rightarrow> True | Some age \<Rightarrow> max_age_ms < age)"

definition remove_stale_temps :: "(string \<Rightarrow> bool) \<Rightarrow> string list \<Rightarrow> nat \<Rightarrow> nat \<Rightarrow> string list" where
  "remove_stale_temps removable names now_ms max_age_ms =
    filter (\<lambda>name. temp_removed now_ms max_age_ms name \<and> removable name) names"

section \<open>What the steps keep\<close>

text \<open>An operation that reads: it consumes I/O numbers and leaves every file as it was.\<close>

definition quiet :: "(Disk, 'e, 'a) op \<Rightarrow> bool" where
  "quiet m \<longleftrightarrow> (\<forall>d. files (snd (m d)) = files d \<and> runtime_file (snd (m d)) = runtime_file d)"

named_theorems quiet_intros \<open>operations that read\<close>

lemma quiet_andThen [quiet_intros]: "quiet m \<Longrightarrow> (\<And>a. quiet (f a)) \<Longrightarrow> quiet (andThen m f)"
proof (unfold quiet_def, intro allI)
  fix d
  assume m: "\<forall>d. files (snd (m d)) = files d \<and> runtime_file (snd (m d)) = runtime_file d"
    and f: "\<And>a. \<forall>d. files (snd (f a d)) = files d \<and> runtime_file (snd (f a d)) = runtime_file d"
  obtain r t where eq: "m d = (r, t)" by fastforce
  with m have "files t = files d \<and> runtime_file t = runtime_file d" by (metis snd_conv)
  with f eq show "files (snd (andThen m f d)) = files d \<and> runtime_file (snd (andThen m f d)) = runtime_file d"
    by (cases r) (simp_all add: andThen_def)
qed

lemma quiet_basic [quiet_intros]: "quiet (ok a)" "quiet (fail e)" "quiet (io_step S err)"
  by (simp_all add: quiet_def ok_def fail_def io_step_def)

lemma quiet_cases [quiet_intros]:
  "(x = None \<Longrightarrow> quiet m) \<Longrightarrow> (\<And>a. x = Some a \<Longrightarrow> quiet (f a)) \<Longrightarrow> quiet (case x of None \<Rightarrow> m | Some a \<Rightarrow> f a)"
  "quiet m \<Longrightarrow> quiet m' \<Longrightarrow> quiet (if b then m else m')"
  by (cases x) auto

lemma quiet_answer [quiet_intros]: "quiet (\<lambda>d. (g d, d))"
  by (simp add: quiet_def)

lemma quiet_read_bytes [quiet_intros]: "quiet (read_bytes S path)"
  unfolding read_bytes_def by (intro quiet_intros)

lemma quiet_read_json [quiet_intros]: "quiet (read_json S path)"
  unfolding read_json_def by (intro quiet_intros)

lemma quiet_of_file [quiet_intros]: "quiet (of_file S path)"
  unfolding of_file_def by (intro quiet_intros)

lemma quiet_tasks_file [quiet_intros]: "quiet (tasks_file project_id)"
  unfolding tasks_file_def by (intro quiet_intros)

lemma quiet_require_writer [quiet_intros]: "quiet (require_writer S)"
  unfolding require_writer_def by (intro quiet_intros)

lemma quiet_runtime_load [quiet_intros]: "quiet (runtime_load S)"
  unfolding runtime_load_def by (intro quiet_intros)

lemma quiet_recorded_cover [quiet_intros]: "quiet (recorded_cover S key)"
  unfolding recorded_cover_def by (intro quiet_intros)

lemma quiet_check_cover [quiet_intros]: "quiet (check_cover S path cover)"
  unfolding check_cover_def by (cases cover) (simp_all, (intro quiet_intros)+)

lemma quiet_read_array [quiet_intros]: "quiet (read_array S path)"
  unfolding read_array_def
  by (intro quiet_intros) (auto split: Value.splits option.splits intro: quiet_intros)

lemma quiet_load_stamped [quiet_intros]: "quiet (load_stamped S p)"
  unfolding load_stamped_def by (intro quiet_intros)

lemma quiet_load_tasks [quiet_intros]: "quiet (load_tasks S p)"
  unfolding load_tasks_def by (intro quiet_intros)

lemma quiet_load_projects [quiet_intros]: "quiet (load_projects S)"
  unfolding load_projects_def by (intro quiet_intros)

lemma quietD:
  "quiet m \<Longrightarrow> m d = (r, d') \<Longrightarrow> files d' = files d \<and> runtime_file d' = runtime_file d"
  by (metis quiet_def snd_conv)

section \<open>Covering writes\<close>

lemma andThen_Inl:
  "andThen m f d = (Inl e, d') \<longleftrightarrow>
    m d = (Inl e, d') \<or> (\<exists>a t. m d = (Inr a, t) \<and> f a t = (Inl e, d'))"
  by (auto simp: andThen_def split: prod.splits sum.splits)

lemma of_file_result:
  "of_file S path d = (Inr x, d') \<Longrightarrow> x = map_option (fingerprint_of S) (fmlookup (files d) path)"
  by (auto simp: of_file_def read_bytes_def andThen_Inr ok_def io_step_def split: if_splits)

lemma recorded_cover_result:
  assumes "recorded_cover S path d = (Inr x, d')"
  shows "x = (case runtime_file d of HasRuntime meta \<Rightarrow> fmlookup (content_fingerprints meta) path | _ \<Rightarrow> None)"
  using assms
  by (auto simp: recorded_cover_def runtime_load_def parse_runtime_def andThen_Inr ok_def io_step_def
      split: if_splits RuntimeFile.splits sum.splits)

text \<open>The bytes on disk are the bytes the table says this core last produced.\<close>

definition covered :: "Store \<Rightarrow> string \<Rightarrow> Disk \<Rightarrow> bool" where
  "covered S path d = (case runtime_file d of
      HasRuntime meta \<Rightarrow> (case fmlookup (content_fingerprints meta) path of
         Some recorded \<Rightarrow> recorded = map_option (fingerprint_of S) (fmlookup (files d) path)
       | None \<Rightarrow> True)
    | _ \<Rightarrow> True)"

lemma covered_cong:
  "files d = files d' \<Longrightarrow> runtime_file d = runtime_file d' \<Longrightarrow> covered S path d = covered S path d'"
  by (auto simp: covered_def split: RuntimeFile.splits option.splits)

lemma io_error_not_stale [simp]:
  "\<not> is_stale_write (io_error path f)" "\<not> is_stale_write (read_error path f)"
  "\<not> is_stale_write (WriteFailed path)" "\<not> is_stale_write (Corrupt path)"
  "\<not> is_stale_write (UnsupportedSchema path i j)" "\<not> is_stale_write (InvalidId x)"
  "\<not> is_stale_write WritePermission"
  by (cases f; simp add: is_stale_write_def)+

lemma check_last_write_ok:
  assumes "check_cover S path LastCoreWrite d = (Inr x, d')"
  shows "covered S path d"
proof -
  obtain fp d1 where fp: "of_file S path d = (Inr fp, d1)"
    and rest: "andThen (andThen (recorded_cover S path) (\<lambda>found. ok (case found of
        Some recorded \<Rightarrow> recorded | None \<Rightarrow> fp)))
      (\<lambda>b. if fp \<noteq> b then fail (ContentDiverged path) else ok fp) d1 = (Inr x, d')"
    using assms by (auto simp: check_cover_def andThen_Inr)
  then obtain found d2 where found: "recorded_cover S path d1 = (Inr found, d2)"
    and eq: "fp = (case found of Some recorded \<Rightarrow> recorded | None \<Rightarrow> fp)"
    by (auto simp: andThen_Inr ok_def fail_def split: if_splits)
  have "runtime_file d1 = runtime_file d" using quietD [OF quiet_of_file fp] by simp
  then show ?thesis
    using of_file_result [OF fp] recorded_cover_result [OF found] eq
    by (auto simp: covered_def split: RuntimeFile.splits option.splits)
qed

lemma check_last_write_diverged:
  assumes "check_cover S path LastCoreWrite d = (Inl e, d')" "is_stale_write e"
  shows "\<not> covered S path d"
proof
  assume cov: "covered S path d"
  have stale: "\<not> of_file S path d0 = (Inl e, d')" "\<not> recorded_cover S path d0 = (Inl e, d')" for d0
    using assms(2)
    by (auto simp: of_file_def read_bytes_def recorded_cover_def runtime_load_def parse_runtime_def
        andThen_Inl ok_def io_step_def split: if_splits RuntimeFile.splits sum.splits option.splits)
  obtain fp d1 found d2 where fp: "of_file S path d = (Inr fp, d1)"
    and found: "recorded_cover S path d1 = (Inr found, d2)"
    and ne: "fp \<noteq> (case found of Some recorded \<Rightarrow> recorded | None \<Rightarrow> fp)"
    using assms(1) stale
    by (auto simp: check_cover_def andThen_Inl andThen_Inr ok_def fail_def split: if_splits)
  have "runtime_file d1 = runtime_file d" using quietD [OF quiet_of_file fp] by simp
  with cov ne show False
    using of_file_result [OF fp] recorded_cover_result [OF found]
    by (auto simp: covered_def split: RuntimeFile.splits option.splits)
qed

lemma backup_path_neq [simp]: "backup_path path \<noteq> path" "path \<noteq> backup_path path"
  by (simp_all add: backup_path_def)

lemma directory_file: "directory_of path @ file_name path = path"
proof -
  have "rev path = takeWhile (\<lambda>c. c \<noteq> CHR ''/'') (rev path) @ dropWhile (\<lambda>c. c \<noteq> CHR ''/'') (rev path)"
    by simp
  then show ?thesis
    unfolding directory_of_def file_name_def by (metis rev_append rev_rev_ident)
qed

lemma temporary_path_neq [simp]:
  "temporary_path S path ns \<noteq> path" "path \<noteq> temporary_path S path ns"
  "temporary_path S path ns \<noteq> backup_path path" "backup_path path \<noteq> temporary_path S path ns"
proof -
  have "length path = length (directory_of path) + length (file_name path)"
    by (metis directory_file length_append)
  then have "length path < length (temporary_path S path ns)"
    by (simp add: temporary_path_def temporary_name_def)
  moreover have "last (temporary_path S path ns) \<noteq> last (backup_path path)"
    by (simp add: temporary_path_def temporary_name_def backup_path_def)
  ultimately show "temporary_path S path ns \<noteq> path" "path \<noteq> temporary_path S path ns"
    "temporary_path S path ns \<noteq> backup_path path" "backup_path path \<noteq> temporary_path S path ns"
    by auto
qed

lemmas atomic_defs = write_atomic_def create_private_def write_all_def discard_def or_discard_def
  rename_file_def io_step_def Let_def

lemma write_atomic_ok:
  assumes "write_atomic S path bytes d = (Inr u, d')"
  shows "files d' = fmupd path bytes (files d)" "runtime_file d' = runtime_file d"
proof -
  have "fmlookup (files d') = fmlookup (fmupd path bytes (files d)) \<and> runtime_file d' = runtime_file d"
    using assms
    by (auto simp: atomic_defs andThen_Inr split: option.splits if_splits prod.splits sum.splits)
  then show "files d' = fmupd path bytes (files d)" "runtime_file d' = runtime_file d"
    by (simp_all add: fmlookup_inject)
qed

lemma write_atomic_err:
  assumes "write_atomic S path bytes d = (Inl e, d')"
  shows "\<exists>ns. \<forall>k. k \<noteq> temporary_path S path ns \<longrightarrow> fmlookup (files d') k = fmlookup (files d) k"
    and "runtime_file d' = runtime_file d" "\<not> is_stale_write e"
proof -
  let ?temp = "temporary_path S path (nanos S (ios d + 1))"
  have "(\<forall>k. k \<noteq> ?temp \<longrightarrow> fmlookup (files d') k = fmlookup (files d) k)
      \<and> runtime_file d' = runtime_file d \<and> \<not> is_stale_write e"
    using assms
    by (auto simp: atomic_defs andThen_Inl andThen_Inr split: option.splits if_splits prod.splits sum.splits)
  then show "\<exists>ns. \<forall>k. k \<noteq> temporary_path S path ns \<longrightarrow> fmlookup (files d') k = fmlookup (files d) k"
    and "runtime_file d' = runtime_file d" "\<not> is_stale_write e" by blast+
qed

text \<open>No temporary of this process for the target is on disk, so the next one can be created.\<close>

definition no_temporaries :: "Store \<Rightarrow> string \<Rightarrow> Disk \<Rightarrow> bool" where
  "no_temporaries S path d \<longleftrightarrow> (\<forall>ns. fmlookup (files d) (temporary_path S path ns) = None)"

lemma write_atomic_no_fault:
  assumes "no_faults S" "no_temporaries S path d"
  shows "\<exists>i. write_atomic S path bytes d = (Inr (), d\<lparr>files := fmupd path bytes (files d), ios := i\<rparr>)"
proof -
  obtain r d' where w: "write_atomic S path bytes d = (r, d')" by fastforce
  then obtain u where "r = Inr u"
    using assms
    by (cases r) (auto simp: atomic_defs op_defs no_temporaries_def split: option.splits)
  with w write_atomic_ok [of S path bytes d u d'] show ?thesis
    by (intro exI [of _ "ios d'"]) simp
qed

lemma replace_ok:
  assumes "replace_with_backup S path bytes d = (Inr existed, d')"
  shows "fmlookup (files d') path = Some bytes" "runtime_file d' = runtime_file d"
    and "k \<notin> {path, backup_path path} \<Longrightarrow> fmlookup (files d') k = fmlookup (files d) k"
  using assms
  by (auto simp: replace_with_backup_def keep_copy_def andThen_Inr ok_def write_atomic_ok
      split: option.splits if_splits)

lemma replace_err:
  assumes "replace_with_backup S path bytes d = (Inl e, d')"
  shows "\<not> is_stale_write e" "fmlookup (files d') path = fmlookup (files d) path"
proof -
  have w: "fmlookup (files t') path = fmlookup (files t) path \<and> \<not> is_stale_write e"
    if "write_atomic S path bytes t = (Inl e, t')" for t t'
    using write_atomic_err [OF that] by (metis temporary_path_neq(2))
  show "\<not> is_stale_write e" "fmlookup (files d') path = fmlookup (files d) path"
    using assms
    by (auto simp: replace_with_backup_def keep_copy_def andThen_Inl andThen_Inr ok_def
        split: option.splits dest: w)
qed

lemma replace_no_fault:
  assumes "no_faults S" "no_temporaries S path d"
  shows "\<exists>existed d'. replace_with_backup S path bytes d = (Inr existed, d')"
proof (cases "fmlookup (files d) path")
  case None
  then show ?thesis
    using write_atomic_no_fault [OF assms, of bytes]
    by (auto simp: replace_with_backup_def op_defs)
next
  case (Some old)
  let ?d = "d\<lparr>ios := ios d + 1, files := fmupd (backup_path path) old (files d)\<rparr>"
  have "no_temporaries S path ?d" using assms(2) by (simp add: no_temporaries_def)
  from write_atomic_no_fault [OF assms(1) this, of bytes] Some assms(1) show ?thesis
    by (auto simp: replace_with_backup_def keep_copy_def op_defs)
qed

lemma read_json_err: "read_json S path d = (Inl e, d') \<Longrightarrow> \<not> is_stale_write e"
  by (auto simp: read_json_def read_bytes_def andThen_Inl andThen_Inr ok_def fail_def io_step_def
      split: option.splits if_splits)

lemma write_array_ok:
  assumes "write_array S path rows d = (Inr u, d')"
  shows "fmlookup (files d') path = Some (to_pretty S (Array (map Object rows)))"
    and "runtime_file d' = runtime_file d"
    and "k \<notin> {path, backup_path path} \<Longrightarrow> fmlookup (files d') k = fmlookup (files d) k"
proof -
  from assms obtain v d1 existed where
    j: "read_json S path d = (Inr v, d1)" and
    r: "replace_with_backup S path (to_pretty S (Array (map Object rows))) d1 = (Inr existed, d')"
    by (auto simp: write_array_def andThen_Inr ok_def)
  show "fmlookup (files d') path = Some (to_pretty S (Array (map Object rows)))"
    by (rule replace_ok(1) [OF r])
  show "runtime_file d' = runtime_file d"
    using replace_ok(2) [OF r] quietD [OF quiet_read_json j] by simp
  show "k \<notin> {path, backup_path path} \<Longrightarrow> fmlookup (files d') k = fmlookup (files d) k"
    using replace_ok(3) [OF r] quietD [OF quiet_read_json j] by simp
qed

lemma write_array_err: "write_array S path rows d = (Inl e, d') \<Longrightarrow> \<not> is_stale_write e"
  by (auto simp: write_array_def andThen_Inl andThen_Inr ok_def dest: read_json_err replace_err(1))

lemma tasks_file_result: "tasks_file p d = (Inr path, d') \<longleftrightarrow> validate_id p = None \<and> path = tasks_path p \<and> d' = d"
  by (auto simp: tasks_file_def ok_def fail_def split: option.splits)

text \<open>A save of a task list goes through only over covered bytes.\<close>

lemma save_covering_ok:
  assumes "save_covering S p rows LastCoreWrite d = (Inr (fp, key), d')"
  shows "covered S (tasks_path p) d" "key = tasks_path p"
    and "fmlookup (files d') key = Some (to_pretty S (Array (map Object rows)))"
    and "fp = fingerprint_of S (to_pretty S (Array (map Object rows)))"
    and "runtime_file d' = runtime_file d"
proof -
  from assms obtain h d0 path d1 x d2 d3 u d4 where
    w: "require_writer S d = (Inr h, d0)" and t: "tasks_file p d0 = (Inr path, d1)" and
    i: "io_step S (\<lambda>_. WriteFailed path) d1 = (Inr (), d2)" and
    c: "check_cover S path LastCoreWrite d2 = (Inr x, d3)" and
    a: "write_array S path rows d3 = (Inr u, d4)" and
    o: "of_file S path d4 = (Inr (Some fp), d')" and k: "key = path"
    by (auto simp: save_covering_def andThen_Inr ok_def fail_def split: option.splits)
  note keep = quietD [OF quiet_require_writer w] quietD [OF quiet_tasks_file t]
    quietD [OF quiet_basic(3) i] quietD [OF quiet_check_cover c] quietD [OF quiet_of_file o]
  have path: "path = tasks_path p" using t by (simp add: tasks_file_result)
  then show "key = tasks_path p" using k by simp
  show "covered S (tasks_path p) d"
    using check_last_write_ok [OF c] keep path covered_cong [of d2 d] by simp
  show "fmlookup (files d') key = Some (to_pretty S (Array (map Object rows)))"
    using write_array_ok(1) [OF a] keep k by simp
  show "fp = fingerprint_of S (to_pretty S (Array (map Object rows)))"
    using of_file_result [OF o] write_array_ok(1) [OF a] by simp
  show "runtime_file d' = runtime_file d"
    using write_array_ok(2) [OF a] keep by simp
qed

lemma canonical_decimal_Some: "canonical_decimal t = Some v \<Longrightarrow> t = decimal v"
  by (auto simp: canonical_decimal_def split: option.splits if_splits)

lemma decimal_zero: "decimal 0 = ''0''"
  by code_simp

lemma canonical_decimal_decimal: "n < 2 ^ 64 \<Longrightarrow> canonical_decimal (decimal n) = Some n"
  by (simp add: canonical_decimal_def)

lemma canonical_zero: "canonical_decimal ''0'' = Some 0"
  using canonical_decimal_decimal [of 0] by (simp add: decimal_zero)

lemma bumped_metadata_Some:
  assumes "bumped_metadata S holder updates found = Some next"
  shows "\<exists>table. content_fingerprints next = publish_covers updates table"
    and "\<exists>v. revision next = decimal (v + 1) \<and> v + 1 < 2 ^ 64 \<and>
      (case found of Some old \<Rightarrow> revision old = decimal v | None \<Rightarrow> v = 0)"
  using assms canonical_zero
  by (auto simp: bumped_metadata_def Let_def dest: canonical_decimal_Some split: option.splits if_splits)

lemma runtime_load_result:
  assumes "runtime_load S d = (Inr found, d')"
  shows "case runtime_file d of
      HasRuntime old \<Rightarrow> (\<exists>m. found = Some m \<and> revision m = revision old) | _ \<Rightarrow> found = None"
  using assms
  by (auto simp: runtime_load_def parse_runtime_def andThen_Inr io_step_def
      split: RuntimeFile.splits if_splits sum.splits)

lemma bump_covering_ok:
  assumes "bump_covering S updates d = (Inr meta, d')"
  shows "runtime_file d' = HasRuntime meta" "files d' = files d"
    and "\<exists>table. content_fingerprints meta = publish_covers updates table"
    and "\<exists>v. revision meta = decimal (v + 1) \<and> v + 1 < 2 ^ 64 \<and>
      (case runtime_file d of HasRuntime old \<Rightarrow> revision old = decimal v | _ \<Rightarrow> v = 0)"
proof -
  from assms obtain holder d0 found d1 where
    l: "require_writer S d = (Inr holder, d0)" "runtime_load S d0 = (Inr found, d1)" and
    n: "bumped_metadata S holder updates found = Some meta" and
    w: "runtime_file d' = HasRuntime meta" "files d' = files d1"
    by (auto simp: bump_covering_def andThen_Inr fail_def io_step_def split: option.splits if_splits)
  note keep = quietD [OF quiet_require_writer l(1)] quietD [OF quiet_runtime_load l(2)]
  show "runtime_file d' = HasRuntime meta" by fact
  show "files d' = files d" using w keep by simp
  show "\<exists>table. content_fingerprints meta = publish_covers updates table"
    by (rule bumped_metadata_Some(1) [OF n])
  show "\<exists>v. revision meta = decimal (v + 1) \<and> v + 1 < 2 ^ 64 \<and>
      (case runtime_file d of HasRuntime old \<Rightarrow> revision old = decimal v | _ \<Rightarrow> v = 0)"
    using bumped_metadata_Some(2) [OF n] runtime_load_result [OF l(2)] keep
    by (cases "runtime_file d") auto
qed

section \<open>Properties\<close>

text \<open>The storage half of \<open>TaskService::commit\<close>: save the list, then publish its cover.\<close>

definition publish :: "Store \<Rightarrow> string \<Rightarrow> Record list \<Rightarrow> (Disk, StorageError, RuntimeMetadata \<times> Fingerprint) op" where
  "publish S project_id rows =
    andThen (save_covering S project_id rows LastCoreWrite) (\<lambda>(fp, key).
    andThen (bump_covering S [(key, Some fp)]) (\<lambda>meta. ok (meta, fp)))"

lemma publish_ok:
  assumes "publish S p rows d = (Inr (meta, fp), d')"
  obtains d1 where "save_covering S p rows LastCoreWrite d = (Inr (fp, tasks_path p), d1)"
    "bump_covering S [(tasks_path p, Some fp)] d1 = (Inr meta, d')"
proof -
  from assms obtain fp' key d1 where s: "save_covering S p rows LastCoreWrite d = (Inr (fp', key), d1)"
    and b: "bump_covering S [(key, Some fp')] d1 = (Inr meta, d')" and "fp' = fp"
    by (auto simp: publish_def andThen_Inr ok_def)
  with save_covering_ok(2) [OF s] that show thesis by simp
qed

text \<open>Refusal before anything is written.\<close>

lemma check_cover_refuses:
  assumes "\<not> covered S path d"
  obtains e d' where "check_cover S path LastCoreWrite d = (Inl e, d')"
    "files d' = files d" "runtime_file d' = runtime_file d"
proof -
  obtain r d' where c: "check_cover S path LastCoreWrite d = (r, d')" by fastforce
  then obtain e where "r = Inl e"
    using check_last_write_ok [of S path d] assms by (cases r) auto
  with c that show thesis using quietD [OF quiet_check_cover c] by blast
qed

lemma check_cover_diverges:
  assumes "\<not> covered S path d" "no_faults S"
    and "\<forall>meta. runtime_file d = HasRuntime meta \<longrightarrow> \<not> isl (parse_runtime meta)"
  shows "\<exists>d'. check_cover S path LastCoreWrite d = (Inl (ContentDiverged path), d')"
  using assms
  by (auto simp: covered_def check_cover_def of_file_def read_bytes_def recorded_cover_def
      runtime_load_def parse_runtime_def op_defs io_step_def
      split: RuntimeFile.splits option.splits if_splits)

lemma refused_save:
  assumes "\<not> covered S (tasks_path p) d"
  shows "\<exists>e d'. save_covering S p rows LastCoreWrite d = (Inl e, d')
      \<and> files d' = files d \<and> runtime_file d' = runtime_file d
      \<and> (lease S \<noteq> None \<and> validate_id p = None \<and> no_faults S
         \<and> (\<forall>meta. runtime_file d = HasRuntime meta \<longrightarrow> \<not> isl (parse_runtime meta))
         \<longrightarrow> e = ContentDiverged (tasks_path p))"
proof (cases "lease S = None \<or> validate_id p \<noteq> None \<or> io_fault S (ios d) \<noteq> None")
  case True
  then show ?thesis
    by (auto simp: save_covering_def require_writer_def tasks_file_def op_defs io_step_def
        split: option.splits)
next
  case False
  let ?d = "d\<lparr>ios := ios d + 1\<rparr>"
  have nc: "\<not> covered S (tasks_path p) ?d"
    using assms covered_cong [of ?d d] by simp
  obtain e d' where c: "check_cover S (tasks_path p) LastCoreWrite ?d = (Inl e, d')"
    "files d' = files ?d" "runtime_file d' = runtime_file ?d"
    by (rule check_cover_refuses [OF nc])
  have "save_covering S p rows LastCoreWrite d = (Inl e, d')"
    using False c(1)
    by (auto simp: save_covering_def require_writer_def tasks_file_def andThen_def ok_def
        io_step_def)
  then show ?thesis
    using c check_cover_diverges [OF nc] by auto
qed

lemma refused_remove:
  assumes "\<not> covered S (tasks_path p) d"
  shows "\<exists>e d'. remove_covering S p LastCoreWrite d = (Inl e, d')
      \<and> files d' = files d \<and> runtime_file d' = runtime_file d"
proof -
  obtain e d' where "check_cover S (tasks_path p) LastCoreWrite d = (Inl e, d')"
    "files d' = files d" "runtime_file d' = runtime_file d"
    by (rule check_cover_refuses [OF assms])
  then show ?thesis
    by (auto simp: remove_covering_def require_writer_def tasks_file_def op_defs
        split: option.splits)
qed

text \<open>
  C13. An atomic write is all or nothing at every point of failure: when it succeeds exactly the
  target changed and no temporary is left; when any of its steps fails, or the clean-up after a
  failed step fails too, the target still holds its old bytes and at most one temporary, in the
  target's own directory, differs. Without I/O failure and without a left-over temporary it
  succeeds.
\<close>

theorem write_atomic_all_or_nothing:
  "(case write_atomic S path bytes d of
      (Inr _, d') \<Rightarrow> files d' = fmupd path bytes (files d)
    | (Inl _, d') \<Rightarrow> fmlookup (files d') path = fmlookup (files d) path
        \<and> (\<exists>ns. fmdrop (temporary_path S path ns) (files d') = fmdrop (temporary_path S path ns) (files d)))
   \<and> (no_faults S \<and> no_temporaries S path d \<longrightarrow> \<not> isl (fst (write_atomic S path bytes d)))"
proof -
  obtain r d' where w: "write_atomic S path bytes d = (r, d')" by fastforce
  have err: "fmlookup (files d') path = fmlookup (files d) path
      \<and> (\<exists>ns. fmdrop (temporary_path S path ns) (files d') = fmdrop (temporary_path S path ns) (files d))"
    if bad: "r = Inl e" for e
  proof -
    obtain ns where ns: "\<forall>k. k \<noteq> temporary_path S path ns \<longrightarrow> fmlookup (files d') k = fmlookup (files d) k"
      using write_atomic_err(1) [of S path bytes d e d'] w bad by auto
    then have "fmdrop (temporary_path S path ns) (files d') = fmdrop (temporary_path S path ns) (files d)"
      by (intro fmap_ext) simp
    with ns show ?thesis by (metis temporary_path_neq(2))
  qed
  have "\<not> isl r" if "no_faults S" "no_temporaries S path d"
    using write_atomic_no_fault [OF that, of bytes] w by auto
  with err w write_atomic_ok(1) [of S path bytes d _ d'] show ?thesis
    by (cases r) auto
qed


text \<open>A store for the concrete instances: one document, an injective digest, no faults.\<close>

definition sample_store :: "Record list \<Rightarrow> Store" where
  "sample_store rows = \<lparr>to_pretty = (\<lambda>_. ''doc''), from_slice = (\<lambda>_. Some (Array (map Object rows))),
     sha256 = (\<lambda>bytes. bytes), lease = Some ''e1'', lease_volume = ''local'', clock_ms = 5,
     io_fault = (\<lambda>_. None), torn = (\<lambda>bytes. bytes), process_id = 7, nanos = (\<lambda>_. 5)\<rparr>"

definition sample_meta :: "string \<Rightarrow> Fingerprint option \<Rightarrow> RuntimeMetadata" where
  "sample_meta key cover = \<lparr>schema_version = 2, epoch = ''e0'', revision = ''0'', updated_at_ms = 1,
     volume_kind = ''local'', content_fingerprints = fmupd key cover fmempty\<rparr>"

theorem write_atomic_all_or_nothing_witness:
  "\<exists>d'. write_atomic (sample_store []) ''a/b.json'' ''new'' \<lparr>files = fmempty, runtime_file = NoRuntime, ios = 0\<rparr>
     = (Inr (), d') \<and> fmlookup (files d') ''a/b.json'' = Some ''new''"
  using write_atomic_all_or_nothing [where S = "sample_store []" and path = "''a/b.json''"
      and bytes = "''new''" and d = "\<lparr>files = fmempty, runtime_file = NoRuntime, ios = 0\<rparr>"]
  by (auto simp: sample_store_def no_temporaries_def split: prod.splits sum.splits)


lemma parse_runtime_published:
  assumes "bump_covering S updates d = (Inr meta, d')"
  shows "parse_runtime meta = Inr meta"
proof -
  from assms obtain holder d0 found d1 where
    l: "runtime_load S d0 = (Inr found, d1)" and
    n: "bumped_metadata S holder updates found = Some meta"
    by (auto simp: bump_covering_def andThen_Inr fail_def io_step_def split: option.splits if_splits)
  have "schema_version m = RUNTIME_SCHEMA_VERSION" if "found = Some m" for m
    using l that
    by (auto simp: runtime_load_def parse_runtime_def andThen_Inr io_step_def
        split: RuntimeFile.splits if_splits sum.splits)
  then have "schema_version meta = RUNTIME_SCHEMA_VERSION"
    using n by (auto simp: bumped_metadata_def Let_def split: option.splits if_splits)
  moreover from bumped_metadata_Some(2) [OF n] have "canonical_decimal (revision meta) \<noteq> None"
    by (auto simp: canonical_decimal_decimal)
  ultimately show ?thesis by (simp add: parse_runtime_def)
qed

lemma save_goes_through:
  assumes "lease S \<noteq> None" "validate_id p = None" "no_faults S" "no_temporaries S (tasks_path p) d"
    and "covered S (tasks_path p) d"
    and "\<forall>meta. runtime_file d = HasRuntime meta \<longrightarrow> \<not> isl (parse_runtime meta)" "runtime_file d \<noteq> BadRuntime"
    and "\<forall>bytes. fmlookup (files d) (tasks_path p) = Some bytes \<longrightarrow> from_slice S bytes \<noteq> None"
  shows "\<exists>fp d'. save_covering S p rows LastCoreWrite d = (Inr (fp, tasks_path p), d')"
proof -
  let ?path = "tasks_path p" and ?d = "d\<lparr>ios := ios d + 1\<rparr>"
  have "\<exists>x d1. check_cover S ?path LastCoreWrite ?d = (Inr x, d1)"
    using assms(3,5-7)
    by (auto simp: check_cover_def of_file_def read_bytes_def recorded_cover_def runtime_load_def
        covered_def op_defs io_step_def parse_runtime_def split: option.splits RuntimeFile.splits if_splits)
  then obtain x d1 where c: "check_cover S ?path LastCoreWrite ?d = (Inr x, d1)" by blast
  have keep1: "files d1 = files d" using quietD [OF quiet_check_cover c] by simp
  have "\<exists>v d2. read_json S ?path d1 = (Inr v, d2)"
    using assms(3,8) keep1
    by (auto simp: read_json_def read_bytes_def op_defs io_step_def split: option.splits)
  then obtain v d2 where j: "read_json S ?path d1 = (Inr v, d2)" by blast
  have keep2: "files d2 = files d" using quietD [OF quiet_read_json j] keep1 by simp
  then have "no_temporaries S ?path d2" using assms(4) by (simp add: no_temporaries_def)
  from replace_no_fault [OF assms(3) this] obtain existed d3 where
    r: "replace_with_backup S ?path (to_pretty S (Array (map Object rows))) d2 = (Inr existed, d3)" by blast
  then have w: "write_array S ?path rows d1 = (Inr (), d3)"
    using j by (simp add: write_array_def op_defs)
  obtain y d4 where "of_file S ?path d3 = (Inr (Some y), d4)"
    using assms(3) replace_ok(1) [OF r] by (auto simp: of_file_def read_bytes_def op_defs io_step_def)
  then show ?thesis
    using assms(1-3) c w
    by (auto simp: save_covering_def require_writer_def tasks_file_def op_defs io_step_def)
qed

lemma read_not_stale:
  "of_file S path d = (Inl e, d') \<Longrightarrow> \<not> is_stale_write e"
  "io_step S (\<lambda>_. WriteFailed path) d = (Inl e, d') \<Longrightarrow> \<not> is_stale_write e"
  "tasks_file p d = (Inl e, d') \<Longrightarrow> \<not> is_stale_write e"
  "require_writer S d = (Inl e, d') \<Longrightarrow> \<not> is_stale_write e"
  by (auto simp: of_file_def read_bytes_def tasks_file_def require_writer_def andThen_Inl op_defs
      io_step_def split: option.splits)

lemma save_stale:
  assumes save: "save_covering S p rows LastCoreWrite d = (Inl e, d')" and stale: "is_stale_write e"
  shows "\<not> covered S (tasks_path p) d"
proof -
  from save stale obtain h d0 path d1 where w: "require_writer S d = (Inr h, d0)"
    and t: "tasks_file p d0 = (Inr path, d1)"
    and rest: "andThen (io_step S (\<lambda>_. WriteFailed path)) (\<lambda>_.
      andThen (check_cover S path LastCoreWrite) (\<lambda>_.
      andThen (write_array S path rows) (\<lambda>_.
      andThen (of_file S path) (\<lambda>written. case written of
          Some fp \<Rightarrow> ok (fp, path) | None \<Rightarrow> fail (Corrupt path))))) d1 = (Inl e, d')"
    by (auto simp: save_covering_def andThen_Inl dest: read_not_stale)
  from rest stale obtain d2 where i: "io_step S (\<lambda>_. WriteFailed path) d1 = (Inr (), d2)"
    and c: "andThen (check_cover S path LastCoreWrite) (\<lambda>_.
      andThen (write_array S path rows) (\<lambda>_.
      andThen (of_file S path) (\<lambda>written. case written of
          Some fp \<Rightarrow> ok (fp, path) | None \<Rightarrow> fail (Corrupt path)))) d2 = (Inl e, d')"
    by (auto simp: andThen_Inl [of "io_step S _"] dest: read_not_stale)
  from c stale have "\<exists>c'. check_cover S path LastCoreWrite d2 = (Inl e, c')"
    by (auto simp: andThen_Inl ok_def fail_def split: option.splits dest: read_not_stale write_array_err)
  then have "\<not> covered S path d2" using check_last_write_diverged stale by blast
  moreover have "files d2 = files d" "runtime_file d2 = runtime_file d"
    using quietD [OF quiet_require_writer w] quietD [OF quiet_tasks_file t] quietD [OF quiet_basic(3) i]
    by simp_all
  ultimately show ?thesis
    using t covered_cong [of d2 d] by (simp add: tasks_file_result)
qed

lemma publish_covers_single:
  "fmlookup (publish_covers [(k, v)] table) k = Some v"
  by (simp add: publish_covers_def)

text \<open>
  This core's own writes are never mistaken for foreign ones: after a published save the
  file holds the printed list, the table covers exactly those bytes, the revision has advanced
  by one, and the next save is not refused as diverged; with the lease, no I/O failure, no
  temporary left over and a printed document the parser accepts, it goes through.
\<close>

theorem own_write_covered:
  assumes "publish S p rows d = (Inr (meta, fp), d')"
  shows "fmlookup (files d') (tasks_path p) = Some (to_pretty S (Array (map Object rows)))
    \<and> covered S (tasks_path p) d'
    \<and> (\<exists>v. revision meta = decimal (v + 1) \<and>
         (case runtime_file d of HasRuntime old \<Rightarrow> revision old = decimal v | _ \<Rightarrow> v = 0))
    \<and> (\<forall>rows' e d''. save_covering S p rows' LastCoreWrite d' = (Inl e, d'') \<longrightarrow> \<not> is_stale_write e)
    \<and> (lease S \<noteq> None \<and> validate_id p = None \<and> no_faults S \<and> no_temporaries S (tasks_path p) d'
       \<and> from_slice S (to_pretty S (Array (map Object rows))) \<noteq> None \<longrightarrow>
       (\<forall>rows'. \<exists>fp' d''. save_covering S p rows' LastCoreWrite d' = (Inr (fp', tasks_path p), d'')))"
proof -
  obtain d1 where s: "save_covering S p rows LastCoreWrite d = (Inr (fp, tasks_path p), d1)"
    and b: "bump_covering S [(tasks_path p, Some fp)] d1 = (Inr meta, d')"
    by (rule publish_ok [OF assms])
  note saved = save_covering_ok [OF s]
  note bump = bump_covering_ok [OF b]
  have cov: "covered S (tasks_path p) d'"
    using bump saved by (auto simp: covered_def publish_covers_single)
  have err: "\<not> is_stale_write e" if "save_covering S p rows' LastCoreWrite d' = (Inl e, d'')" for rows' e d''
    using save_stale [OF that] cov by blast
  have live: "\<exists>fp' d''. save_covering S p rows' LastCoreWrite d' = (Inr (fp', tasks_path p), d'')"
    if "lease S \<noteq> None" "validate_id p = None" "no_faults S" "no_temporaries S (tasks_path p) d'"
      "from_slice S (to_pretty S (Array (map Object rows))) \<noteq> None" for rows'
    using save_goes_through [OF that(1-4) cov] saved(3) bump(1,2) that(5) parse_runtime_published [OF b]
    by simp
  have rev: "\<exists>v. revision meta = decimal (v + 1) \<and>
      (case runtime_file d of HasRuntime old \<Rightarrow> revision old = decimal v | _ \<Rightarrow> v = 0)"
    using bump(4) saved(5) by auto
  have bytes: "fmlookup (files d') (tasks_path p) = Some (to_pretty S (Array (map Object rows)))"
    using saved(3) bump(2) by simp
  show ?thesis
    by (intro conjI bytes cov rev allI impI) (erule err, elim conjE, rule live)
qed

lemma sample_id: "validate_id ''p'' = None"
  by code_simp

abbreviation empty_disk :: Disk where
  "empty_disk \<equiv> \<lparr>files = fmempty, runtime_file = NoRuntime, ios = 0\<rparr>"

lemma sample_save:
  "\<exists>fp d'. save_covering (sample_store rows) ''p'' rows' LastCoreWrite empty_disk
     = (Inr (fp, tasks_path ''p''), d')"
  by (rule save_goes_through)
    (simp_all add: sample_store_def sample_id no_temporaries_def covered_def)

lemma as_records_objects: "as_records (map Object rows) = Some rows"
  by (induction rows) auto

text \<open>
  C14. What is saved is what is loaded: after a successful save, a load with no I/O failure
  returns the same records, no field dropped, stamped with the fingerprint the save returned.
  The printer and the parser of the JSON library are assumed inverse on the saved document.
\<close>

theorem save_load_roundtrip:
  assumes "save_covering S p rows LastCoreWrite d = (Inr (fp, key), d')" "no_faults S"
    and "from_slice S (to_pretty S (Array (map Object rows))) = Some (Array (map Object rows))"
  shows "\<exists>d''. load_stamped S p d' =
    (Inr \<lparr>stamped_records = rows, stamped_fingerprint = Some fp, stamped_key = key\<rparr>, d'')"
proof -
  note saved = save_covering_ok [OF assms(1)]
  have "validate_id p = None"
    using assms(1)
    by (auto simp: save_covering_def andThen_Inr tasks_file_result)
  then show ?thesis
    using assms(2,3) saved
    by (simp add: load_stamped_def tasks_file_def of_file_def read_bytes_def read_array_def read_json_def
        op_defs io_step_def as_records_objects)
qed

theorem save_load_roundtrip_witness:
  "\<exists>d' d'' fp. save_covering (sample_store [fmempty]) ''p'' [fmempty] LastCoreWrite empty_disk
       = (Inr (fp, tasks_path ''p''), d')
     \<and> load_stamped (sample_store [fmempty]) ''p'' d' =
       (Inr \<lparr>stamped_records = [fmempty], stamped_fingerprint = Some fp,
             stamped_key = tasks_path ''p''\<rparr>, d'')"
proof -
  let ?S = "sample_store [fmempty]"
  obtain fp d' where s: "save_covering ?S ''p'' [fmempty] LastCoreWrite empty_disk
      = (Inr (fp, tasks_path ''p''), d')" using sample_save by blast
  have "no_faults ?S"
    "from_slice ?S (to_pretty ?S (Array (map Object [fmempty]))) = Some (Array (map Object [fmempty]))"
    by (simp_all add: sample_store_def)
  from save_load_roundtrip [OF s this] s show ?thesis by blast
qed

section \<open>Identifiers stay inside the data directory\<close>

text \<open>Not a slash, a backslash, a dot or NUL.\<close>

definition path_safe :: "char \<Rightarrow> bool" where
  "path_safe c \<longleftrightarrow> byte_of c \<notin> {0, 46, 47, 92}"

lemma blank_prefix: "blank_len s \<noteq> 0 \<Longrightarrow> is_blank (take (blank_len s) s)"
  by (auto simp: blank_len_def split: if_splits)

lemma is_blank_cases:
  assumes "is_blank (a # s)"
  obtains "byte_of a \<in> {9..13} \<union> {32}" "is_blank s"
  | b s' where "s = b # s'" "byte_of a \<ge> 128" "byte_of b \<ge> 128" "is_blank s'"
  | b c s' where "s = b # c # s'" "byte_of a \<ge> 128" "byte_of b \<ge> 128" "byte_of c \<ge> 128" "is_blank s'"
proof (cases s)
  case Nil
  with assms that(1) show thesis by (auto simp: Let_def split: if_splits)
next
  case (Cons b s1)
  show thesis
  proof (cases s1)
    case Nil
    with Cons assms that(1,2) show thesis by (simp add: Let_def split: if_splits) auto
  next
    case c: (Cons c s2)
    with Cons assms that show thesis by (simp add: Let_def split: if_splits) auto
  qed
qed

lemma path_safe_blank: "byte_of c \<in> {9..13} \<union> {32} \<or> byte_of c \<ge> 128 \<Longrightarrow> path_safe c"
  by (auto simp: path_safe_def)

lemma is_blank_bytes: "is_blank s \<Longrightarrow> list_all path_safe s"
proof (induction s rule: length_induct)
  case (1 s)
  have ih: "\<And>ys. length ys < length s \<Longrightarrow> is_blank ys \<Longrightarrow> list_all path_safe ys"
    using 1(1) by blast
  show ?case
  proof (cases s)
    case (Cons a s1)
    with 1(2) have "is_blank (a # s1)" by simp
    then show ?thesis
      using Cons by (cases rule: is_blank_cases) (simp_all del: is_blank.simps add: ih path_safe_blank)
  qed simp
qed

lemma trim_start_suffix:
  "\<exists>ws. s = ws @ trim_start s \<and> (\<forall>c \<in> set ws. path_safe c)"
proof (induction s rule: trim_start.induct)
  case (1 s)
  show ?case
  proof (cases "blank_len s = 0")
    case False
    with 1 obtain ws where "drop (blank_len s) s = ws @ trim_start (drop (blank_len s) s)"
      "\<forall>c \<in> set ws. path_safe c" by blast
    moreover have "trim_start s = trim_start (drop (blank_len s) s)"
      using False by (subst trim_start.simps) simp
    moreover have "\<forall>c \<in> set (take (blank_len s) s). path_safe c"
      using is_blank_bytes [OF blank_prefix [OF False]] by (simp add: list_all_iff)
    ultimately show ?thesis
      by (intro exI [of _ "take (blank_len s) s @ ws"])
        (metis Un_iff append.assoc append_take_drop_id set_append)
  qed (subst trim_start.simps, simp)
qed

text \<open>
  An accepted identifier cannot leave its directory: it contains no slash, no backslash,
  no dot and no NUL anywhere, surrounding blanks included.
\<close>

theorem validate_id_safe:
  assumes "validate_id i = None" "c \<in> set i"
  shows "path_safe c"
proof -
  obtain ws1 where a: "i = ws1 @ trim_start i" "\<forall>c \<in> set ws1. path_safe c"
    using trim_start_suffix by blast
  obtain ws2 where b: "trim_start i = trim i @ ws2" "is_blank ws2"
    using trim_end_prefix [of "trim_start i"] by (auto simp: trim_def)
  have "list_all id_char (trim i)" using assms(1) by (auto simp: validate_id_def split: if_splits)
  then have "\<forall>c \<in> set (trim i). path_safe c"
    by (auto simp: list_all_iff id_char_def Let_def path_safe_def)
  moreover have "i = ws1 @ trim i @ ws2" using a(1) b(1) by simp
  with assms(2) have "c \<in> set ws1 \<or> c \<in> set (trim i) \<or> c \<in> set ws2"
    by (metis Un_iff set_append)
  ultimately show ?thesis using a(2) is_blank_bytes [OF b(2)] by (auto simp: list_all_iff)
qed

section \<open>Temporaries\<close>

lemma decimal_no_dash: "CHR ''-'' \<notin> set (decimal n)"
  using decimal_digits [of "CHR ''-''" n] by (auto simp: byte_of_def)

lemma rsplit_dash_last:
  "CHR ''-'' \<notin> set rest \<Longrightarrow> rsplit_dash (pre @ ''-'' @ rest) = Some rest"
  by (simp add: rsplit_dash_def takeWhile_append)

lemma temp_stamp_temporary_name:
  assumes "ns < 2 ^ 128"
  shows "temp_stamp (temporary_name target pid ns) = Some ns"
proof -
  have eq: "temporary_name target pid ns =
      (''.'' @ target @ ''.'' @ decimal pid) @ ''-'' @ (decimal ns @ ''.tmp'')"
    by (simp add: temporary_name_def)
  have "rsplit_dash (temporary_name target pid ns) = Some (decimal ns @ ''.tmp'')"
    unfolding eq by (rule rsplit_dash_last) (simp add: decimal_no_dash)
  with assms show ?thesis by (simp add: temp_stamp_def strip_suffix_def ends_with_def)
qed

text \<open>
  The stale-temporary sweep compares a nanosecond stamp with a clock scaled to microseconds:
  a temporary created at \<open>created_ms\<close> (its name carries nanoseconds) is removed by every sweep
  that runs before a thousand times that time, whatever \<open>max_age_ms\<close> allows, so a live writer's
  fresh temporary is deleted although the routine promises to touch only files older than the
  given age.
\<close>

theorem fresh_temp_removed:
  assumes "sub_ms < 10 ^ 6" "created_ms * 10 ^ 6 + sub_ms < 2 ^ 128" "now_ms < 1000 * created_ms"
  shows "temporary_name target pid (created_ms * 10 ^ 6 + sub_ms)
    \<in> set (remove_stale_temps (\<lambda>_. True) [temporary_name target pid (created_ms * 10 ^ 6 + sub_ms)]
        now_ms max_age_ms)"
proof -
  let ?name = "temporary_name target pid (created_ms * 10 ^ 6 + sub_ms)"
  have "now_ms * 1000 < created_ms * 10 ^ 6 + sub_ms" using assms(3) by simp
  then have "temp_age now_ms ?name = None"
    using temp_stamp_temporary_name [OF assms(2)] by (simp add: temp_age_def Let_def)
  moreover have "ends_with ?name ''.tmp''" "\<exists>s. ?name = CHR ''.'' # s"
    by (auto simp: temporary_name_def ends_with_def)
  ultimately show ?thesis by (auto simp: remove_stale_temps_def temp_removed_def)
qed

end
