(* ===== verification/TaskService.thy ===== *)
theory TaskService
  imports LaunchPlan Storage
begin

text \<open>
  \<open>tasks/service.rs\<close>: the one place a task's status and a process's life are decided together.
  The state (\<open>World\<close>) is the data directory, the in-memory ledger and its file, the task
  router and the calls made to the executor, each logged with the data directory and the ledger
  file as they were at that moment. What the service does not own is in \<open>Service\<close>: storage primitives, the agent table,
  the executor's answers, the host's live-run answer, the host bridge and the clock, which is
  read once per operation. Every operation is one step: the mutation lock serialises the
  source's.
\<close>

section \<open>Data\<close>

record Attachments =
  att_images :: "string list"
  att_texts :: "string list"

record NewTask =
  nt_id :: string
  nt_project_id :: string
  nt_prompt :: string
  nt_agent :: string
  nt_permission_mode :: string
  nt_immediate :: bool
  nt_selected_model :: "string option"
  nt_reasoning_effort :: "string option"
  nt_speed :: "string option"
  nt_dsh_agent_preset :: "string option"
  nt_agent_config_id :: "string option"
  nt_images :: "string list"
  nt_texts :: "string list"

record Applied =
  applied_records :: "Record list"
  applied_revision :: "string option"
  applied_changed :: bool
  applied_fingerprint :: "Fingerprint option"
  applied_generation :: "nat option"

record ConfigSwitch =
  cs_agent :: string
  cs_permission_mode :: string
  cs_selected_model :: "string option"
  cs_reasoning_effort :: "string option"
  cs_speed :: "string option"

record SwitchEvidence =
  native_resume_supported :: bool
  ev_session_id :: "string option"
  adopted_session_id :: "string option"
  adopted_session_path :: "string option"
  handoff_prompt :: "string option"

datatype TaskError =
    StorageErr StorageError
  | NotFound string string
  | Unaddressable string
  | PersistFailed StorageError
  | DuplicateId string
  | AlreadyClaimed string string nat
  | NoSession string
  | LaunchErr string
  | AwaitingAcknowledgement string
  | WorktreeDiscarded string
  | NoContinuationContext string
  | UnsupportedOnRemote string string
  | FutureGeneration string nat nat

datatype EventOutcome =
    EventApplied TaskStatus bool "string option"
  | Dropped string

definition notification_for :: "EventOutcome \<Rightarrow> string \<Rightarrow> TaskNotification option" where
  "notification_for outcome task_id = (case outcome of
      EventApplied status _ reason \<Rightarrow> Some (NotifyStatus task_id status reason)
    | Dropped _ \<Rightarrow> None)"

datatype Persist = Commit | DecideOnly | ViaHost

datatype ExecutorCall =
    CallLaunch LaunchRequest
  | CallResume ResumeRequest
  | CallCancel string CancelTarget
  | CallComplete string string
  | CallReset string

text \<open>What reading \<open>task-operations.json\<close> finds.\<close>

datatype LedgerFile = NoLedger | BadLedger | HasLedger OperationLedger

record World =
  disk :: Disk
  ledger :: OperationLedger
  ledger_file :: LedgerFile
  task_projects :: "(string, string) fmap"
  calls :: "(ExecutorCall \<times> Disk \<times> LedgerFile) list"

record Service =
  store :: Store
  families :: AgentFamilies
  exec_launch :: "LaunchRequest \<Rightarrow> ExecutorFailure option"
  exec_resume :: "ResumeRequest \<Rightarrow> ExecutorFailure option"
  exec_cancel :: "string \<Rightarrow> CancelTarget \<Rightarrow> ExecutorFailure option"
  exec_complete :: "string \<Rightarrow> string \<Rightarrow> ExecutorFailure option"
  exec_reset :: "string \<Rightarrow> ExecutorFailure + ResetOutcome"
  has_live_run :: "string \<Rightarrow> bool"
  task_saver :: "(string \<Rightarrow> Record list \<Rightarrow> Disk \<Rightarrow> bool \<times> Disk) option"
  linked_usable :: "Record \<Rightarrow> string list"
  login_config_for :: "string \<Rightarrow> string option"

abbreviation service_now :: "Service \<Rightarrow> nat" where
  "service_now E \<equiv> clock_ms (store E)"

section \<open>Lifting\<close>

definition on_disk :: "(Disk, StorageError, 'a) op \<Rightarrow> (World, TaskError, 'a) op" where
  "on_disk m w = (case m (disk w) of
      (Inl e, d) \<Rightarrow> (Inl (StorageErr e), w\<lparr>disk := d\<rparr>)
    | (Inr a, d) \<Rightarrow> (Inr a, w\<lparr>disk := d\<rparr>))"

definition with_ledger :: "(OperationLedger \<Rightarrow> OperationLedger \<times> 'a) \<Rightarrow> (World, TaskError, 'a) op" where
  "with_ledger f w = (case f (ledger w) of (l, a) \<Rightarrow> (Inr a, w\<lparr>ledger := l\<rparr>))"

definition ask :: "(World \<Rightarrow> 'a) \<Rightarrow> (World, TaskError, 'a) op" where
  "ask f w = (Inr (f w), w)"

text \<open>\<open>let _ = ..\<close> and \<open>.ok()\<close>: the error is dropped, what was done stays done.\<close>

definition best_effort :: "(World, TaskError, 'a) op \<Rightarrow> (World, TaskError, unit) op" where
  "best_effort m w = (Inr (), snd (m w))"

definition log_call :: "ExecutorCall \<Rightarrow> (World, TaskError, unit) op" where
  "log_call c w = (Inr (), w\<lparr>calls := calls w @ [(c, disk w, ledger_file w)]\<rparr>)"

section \<open>Loading and committing\<close>

definition ledger_load :: "Service \<Rightarrow> (World, TaskError, OperationLedger option) op" where
  "ledger_load E =
    andThen (on_disk (io_step (store E) (read_error ''task-operations.json''))) (\<lambda>_ w.
      case ledger_file w of
        NoLedger \<Rightarrow> (Inr None, w)
      | BadLedger \<Rightarrow> (Inl (StorageErr (Corrupt ''task-operations.json'')), w)
      | HasLedger state \<Rightarrow> (Inr (Some state), w))"

definition service_new :: "Service \<Rightarrow> (World, TaskError, unit) op" where
  "service_new E = andThen (ledger_load E) (\<lambda>found w.
    (Inr (), w\<lparr>ledger := (case found of Some state \<Rightarrow> ledger_new state | None \<Rightarrow> ledger_empty),
               task_projects := fmempty\<rparr>))"

definition ledger_persist :: "Service \<Rightarrow> (World, TaskError, unit) op" where
  "ledger_persist E =
    andThen (on_disk (require_writer (store E))) (\<lambda>_.
    andThen (on_disk (io_step (store E) (\<lambda>_. WriteFailed ''task-operations.json''))) (\<lambda>_.
    andThen (on_disk (io_step (store E) (io_error ''task-operations.json''))) (\<lambda>_ w.
      (Inr (), w\<lparr>ledger_file := HasLedger (ledger w)\<rparr>))))"

definition remember_project :: "string \<Rightarrow> string \<Rightarrow> (World, TaskError, unit) op" where
  "remember_project task_id project_id w =
    (Inr (), w\<lparr>task_projects := fmupd task_id project_id (task_projects w)\<rparr>)"

definition forget_projects :: "string list \<Rightarrow> (World, TaskError, unit) op" where
  "forget_projects task_ids w = (Inr (), w\<lparr>task_projects := drop_keys task_ids (task_projects w)\<rparr>)"

fun scan_projects :: "Service \<Rightarrow> string \<Rightarrow> Record list \<Rightarrow> (World, TaskError, string option) op" where
  "scan_projects E task_id [] = ok None"
| "scan_projects E task_id (project # rest) = (case record_id project of
      None \<Rightarrow> scan_projects E task_id rest
    | Some project_id \<Rightarrow>
        andThen (on_disk (load_tasks (store E) project_id)) (\<lambda>rows.
          if find_row rows task_id \<noteq> None
          then andThen (remember_project task_id project_id) (\<lambda>_. ok (Some project_id))
          else scan_projects E task_id rest))"

definition project_of :: "Service \<Rightarrow> string \<Rightarrow> (World, TaskError, string option) op" where
  "project_of E task_id =
    andThen (ask (\<lambda>w. fmlookup (task_projects w) task_id)) (\<lambda>remembered. case remembered of
        Some project_id \<Rightarrow> ok (Some project_id)
      | None \<Rightarrow> andThen (on_disk (load_projects (store E))) (scan_projects E task_id))"

definition load :: "Service \<Rightarrow> string \<Rightarrow> (World, TaskError, StampedTasks) op" where
  "load E project_id = on_disk (load_stamped (store E) project_id)"

definition stamp_generation_copies :: "OperationLedger \<Rightarrow> Record list \<Rightarrow> Record list" where
  "stamp_generation_copies l rows = map (\<lambda>r. case record_id r of
      None \<Rightarrow> r
    | Some i \<Rightarrow>
       let known = String (decimal (peek_generation l i)) in
       if get r ''generation'' \<noteq> Some known then fmupd ''generation'' known r else r) rows"

definition commit_stamped :: "Service \<Rightarrow> string \<Rightarrow> Record list \<Rightarrow> (World, TaskError, Applied) op" where
  "commit_stamped E project_id stamped =
     andThen (on_disk (save_covering (store E) project_id stamped LastCoreWrite)) (\<lambda>(fp, key).
     andThen (on_disk (bump_covering (store E) [(key, Some fp)])) (\<lambda>bumped.
     andThen (ledger_persist E) (\<lambda>_.
       ok \<lparr>applied_records = stamped, applied_revision = Some (revision bumped),
           applied_changed = True, applied_fingerprint = Some fp, applied_generation = None\<rparr>)))"

definition commit :: "Service \<Rightarrow> string \<Rightarrow> Record list \<Rightarrow> (World, TaskError, Applied) op" where
  "commit E project_id rows w = commit_stamped E project_id (stamp_generation_copies (ledger w) rows) w"

definition unchanged :: "Record list \<Rightarrow> Fingerprint option \<Rightarrow> Applied" where
  "unchanged rows fp = \<lparr>applied_records = rows, applied_revision = None, applied_changed = False,
     applied_fingerprint = fp, applied_generation = None\<rparr>"

definition unchanged_snapshot :: "StampedTasks \<Rightarrow> Applied" where
  "unchanged_snapshot s = unchanged (stamped_records s) (stamped_fingerprint s)"

definition commit_removal :: "Service \<Rightarrow> string \<Rightarrow> (World, TaskError, Applied) op" where
  "commit_removal E project_id =
    andThen (on_disk (remove_covering (store E) project_id LastCoreWrite)) (\<lambda>(fp, key).
    andThen (on_disk (bump_covering (store E) [(key, fp)])) (\<lambda>bumped.
    andThen (ledger_persist E) (\<lambda>_.
      ok \<lparr>applied_records = [], applied_revision = Some (revision bumped),
          applied_changed = True, applied_fingerprint = fp, applied_generation = None\<rparr>)))"

definition save_via_host :: "Service \<Rightarrow> string \<Rightarrow> Record list \<Rightarrow> (World, TaskError, Applied) op" where
  "save_via_host E project_id rows w =
    (let stamped = stamp_generation_copies (ledger w) rows in
     case task_saver E of
       None \<Rightarrow> (Inl (StorageErr (WriteFailed [])), w)
     | Some saver \<Rightarrow>
        (case saver project_id stamped (disk w) of
           (False, d) \<Rightarrow> (Inl (StorageErr (WriteFailed [])), w\<lparr>disk := d\<rparr>)
         | (True, d) \<Rightarrow> (Inr \<lparr>applied_records = stamped, applied_revision = None, applied_changed = True,
                         applied_fingerprint = None, applied_generation = None\<rparr>, w\<lparr>disk := d\<rparr>)))"

definition decided :: "Record list \<Rightarrow> Applied" where
  "decided rows = \<lparr>applied_records = rows, applied_revision = None, applied_changed = True,
     applied_fingerprint = None, applied_generation = None\<rparr>"

definition finish_intent :: "Service \<Rightarrow> string \<Rightarrow> Record list \<Rightarrow> Persist \<Rightarrow> (World, TaskError, Applied) op" where
  "finish_intent E project_id rows persist = (case persist of
      Commit \<Rightarrow> if rows = [] then commit_removal E project_id else commit E project_id rows
    | ViaHost \<Rightarrow> save_via_host E project_id rows
    | DecideOnly \<Rightarrow> ok (decided rows))"

definition persist_launch :: "Service \<Rightarrow> string \<Rightarrow> Record list \<Rightarrow> Persist \<Rightarrow> (World, TaskError, Applied) op" where
  "persist_launch E project_id rows persist = (case persist of
      Commit \<Rightarrow> commit E project_id rows
    | ViaHost \<Rightarrow> save_via_host E project_id rows
    | DecideOnly \<Rightarrow> fail (StorageErr (WriteFailed [])))"

definition find_or_fail :: "string \<Rightarrow> string \<Rightarrow> StampedTasks \<Rightarrow> (World, TaskError, Record) op" where
  "find_or_fail project_id task_id s = (case find_row (stamped_records s) task_id of
      None \<Rightarrow> fail (NotFound project_id task_id)
    | Some r \<Rightarrow> ok r)"

section \<open>Creating\<close>

definition project_is_ssh :: "Record \<Rightarrow> bool" where
  "project_is_ssh project = (case get project ''location'' of
      Some (Object m) \<Rightarrow> str_field m ''kind'' = Some ''ssh''
    | _ \<Rightarrow> False)"

definition build_new_records ::
  "Service \<Rightarrow> string \<Rightarrow> NewTask \<Rightarrow> Record list \<Rightarrow> nat \<Rightarrow> Record \<times> Record list" where
  "build_new_records E project_id spec rows now =
    (let fam = families E; agent = nt_agent spec;
         launch = launch_family fam agent;
         r0 = fmupd ''prompt'' (String (nt_prompt spec))
               (fmupd ''projectId'' (String project_id) (fmupd ''id'' (String (nt_id spec)) fmempty));
         r1 = (if \<not> is_blank (nt_prompt spec) then fmdrop ''name'' r0
               else fmupd ''name'' (String agent) r0);
         r2 = fmupd ''resumeFamily'' (String (family_word (native_resume_family fam agent)))
               (fmupd ''sessionFamily'' (String (family_word (session_family fam agent)))
                 (fmupd ''launchFamily'' (String (family_word launch))
                   (fmupd ''agent'' (String agent) r1)));
         r3 = insert_opt ''agentConfigId'' (nt_agent_config_id spec)
               (insert_opt ''speed'' (nt_speed spec)
                 (insert_opt ''reasoningEffort'' (nt_reasoning_effort spec)
                   (insert_opt ''selectedModel'' (nt_selected_model spec) r2)));
         r4 = (if launch = Dsh
               then fmupd ''dshAgentPreset'' (String (unwrap_or (nt_dsh_agent_preset spec) ''standard'')) r3
               else r3);
         r = fmupd ''createdAt'' (json_u64 now)
              (fmupd ''status'' (status_value (if nt_immediate spec then Pending else Todo))
                (fmupd ''permissionMode'' (String (nt_permission_mode spec)) r4))
     in (r, r # rows))"

definition insert_new_task ::
  "Service \<Rightarrow> string \<Rightarrow> NewTask \<Rightarrow> Persist \<Rightarrow> (World, TaskError, Record \<times> Applied) op" where
  "insert_new_task E project_id spec persist =
    andThen (load E project_id) (\<lambda>snapshot.
      if find_row (stamped_records snapshot) (nt_id spec) \<noteq> None then fail (DuplicateId (nt_id spec))
      else case build_new_records E project_id spec (stamped_records snapshot) (service_now E) of
        (r, rows) \<Rightarrow> andThen (finish_intent E project_id rows persist) (\<lambda>applied. ok (r, applied)))"

definition create :: "Service \<Rightarrow> Record \<Rightarrow> NewTask \<Rightarrow> (World, TaskError, Record \<times> Applied) op" where
  "create E project spec =
    (let spec' = (if nt_agent_config_id spec = None \<and> \<not> project_is_ssh project
           then spec\<lparr>nt_agent_config_id := login_config_for E (nt_agent spec)\<rparr> else spec) in
     case record_id project of
       None \<Rightarrow> fail (StorageErr (InvalidId EmptyId))
     | Some project_id \<Rightarrow>
        if \<not> is_addressable project then fail (Unaddressable project_id)
        else insert_new_task E project_id spec' Commit)"

end
