(* ===== verification/TaskIntents.thy ===== *)
theory TaskIntents
  imports TaskService
begin

text \<open>
  The metadata half of \<open>tasks/service.rs\<close>: the named edits, the intents a host queues
  (\<open>TaskIntent\<close>) and the one dispatcher that runs them. Each loads the authoritative rows, runs
  the reducer on them and finishes as \<open>persist\<close> says: commit, hand the bytes to the host, or
  only report the decision.
\<close>

section \<open>Shapes shared by the edits\<close>

definition mutate ::
  "Service \<Rightarrow> string \<Rightarrow> (Record list \<Rightarrow> nat \<Rightarrow> Record list \<times> bool) \<Rightarrow> (World, TaskError, Applied) op" where
  "mutate E project_id change =
    andThen (load E project_id) (\<lambda>snapshot.
      case change (stamped_records snapshot) (service_now E) of (rows, moved) \<Rightarrow>
        if \<not> moved \<or> rows = stamped_records snapshot then ok (unchanged_snapshot snapshot)
        else commit E project_id rows)"

definition metadata_edit ::
  "Service \<Rightarrow> string \<Rightarrow> string \<Rightarrow> Persist \<Rightarrow> (Record list \<Rightarrow> Record list) \<Rightarrow> (World, TaskError, Applied) op" where
  "metadata_edit E project_id task_id persist change =
    andThen (load E project_id) (\<lambda>snapshot.
    andThen (find_or_fail project_id task_id snapshot) (\<lambda>_.
      let rows = change (stamped_records snapshot) in
      if rows = stamped_records snapshot then ok (unchanged_snapshot snapshot)
      else finish_intent E project_id rows persist))"

fun find_all_or_fail :: "string \<Rightarrow> string list \<Rightarrow> StampedTasks \<Rightarrow> (World, TaskError, unit) op" where
  "find_all_or_fail project_id [] snapshot = ok ()"
| "find_all_or_fail project_id (t # ts) snapshot =
    andThen (find_or_fail project_id t snapshot) (\<lambda>_. find_all_or_fail project_id ts snapshot)"

definition metadata_batch ::
  "Service \<Rightarrow> string \<Rightarrow> string list \<Rightarrow> Persist \<Rightarrow> (Record list \<Rightarrow> Record list \<times> bool) \<Rightarrow>
   (World, TaskError, Applied) op" where
  "metadata_batch E project_id task_ids persist change =
    andThen (load E project_id) (\<lambda>snapshot.
    andThen (find_all_or_fail project_id task_ids snapshot) (\<lambda>_.
      case change (stamped_records snapshot) of (rows, moved) \<Rightarrow>
        if \<not> moved \<or> rows = stamped_records snapshot then ok (unchanged_snapshot snapshot)
        else finish_intent E project_id rows persist))"

definition metadata_one ::
  "Service \<Rightarrow> string \<Rightarrow> string \<Rightarrow> Persist \<Rightarrow> (Record list \<Rightarrow> Record list \<times> bool) \<Rightarrow>
   (World, TaskError, Applied) op" where
  "metadata_one E project_id task_id persist change = metadata_batch E project_id [task_id] persist change"

section \<open>Rename with a precondition\<close>

definition resolved_session_path :: "Service \<Rightarrow> Record \<Rightarrow> string option" where
  "resolved_session_path E r =
    (let fields = session_fields r (owner_family (resolve_session_owner r (families E)))
     in or_else (session_path fields) (legacy_session_path fields))"

definition run_rename ::
  "Service \<Rightarrow> string \<Rightarrow> string \<Rightarrow> string \<Rightarrow> RenameExpect option \<Rightarrow> Persist \<Rightarrow> (World, TaskError, Applied) op" where
  "run_rename E project_id task_id name expect persist =
    andThen (load E project_id) (\<lambda>snapshot.
    andThen (find_or_fail project_id task_id snapshot) (\<lambda>r.
      if (case expect of
            Some want \<Rightarrow> \<not> rename_precondition_holds r want (resolved_session_path E r)
          | None \<Rightarrow> False)
      then ok (unchanged_snapshot snapshot)
      else let rows = rename_task (stamped_records snapshot) task_id name in
        if rows = stamped_records snapshot then ok (unchanged_snapshot snapshot)
        else finish_intent E project_id rows persist))"

section \<open>Start-up repair\<close>

definition normalize_after_boot_with ::
  "Service \<Rightarrow> string \<Rightarrow> string list \<Rightarrow> Persist \<Rightarrow> (World, TaskError, Applied) op" where
  "normalize_after_boot_with E project_id live_task_ids persist =
    andThen (load E project_id) (\<lambda>snapshot.
      case normalize_after_boot (stamped_records snapshot) live_task_ids (service_now E)
          (\<lambda>agent. session_family (families E) agent = Dsh) of (rows, moved) \<Rightarrow>
        if \<not> moved then ok (unchanged_snapshot snapshot)
        else finish_intent E project_id rows persist)"

fun settle_tasks :: "string list \<Rightarrow> OperationLedger \<Rightarrow> OperationLedger" where
  "settle_tasks [] l = l"
| "settle_tasks (t # ts) l = settle_tasks ts (fst (settle_task l t))"

definition service_settle_orphaned_sessions ::
  "Service \<Rightarrow> string \<Rightarrow> (Record \<Rightarrow> bool) \<Rightarrow> (World, TaskError, string list \<times> Applied) op" where
  "service_settle_orphaned_sessions E project_id is_orphan =
    andThen (load E project_id) (\<lambda>snapshot.
      case settle_orphaned_sessions (stamped_records snapshot) is_orphan (service_now E) of
        (rows, settled) \<Rightarrow>
          if settled = [] then ok (settled, unchanged_snapshot snapshot)
          else andThen (commit E project_id rows) (\<lambda>applied.
            andThen (with_ledger (\<lambda>l. (settle_tasks settled l, ()))) (\<lambda>_.
            andThen (best_effort (ledger_persist E)) (\<lambda>_. ok (settled, applied)))))"

section \<open>Composite session writes\<close>

definition resumed_row ::
  "Record \<Rightarrow> string \<Rightarrow> ProtocolFamily \<Rightarrow> string option \<Rightarrow> string option \<Rightarrow> Record" where
  "resumed_row r agent family sid spath =
    (let own = \<lparr>owner_agent = agent, owner_family = family, codex_like = (family = Codex)\<rparr>
     in fmdrop ''failureReason'' (fmdrop ''attentionRequestedAt''
          (fmupd ''status'' (status_value Pending)
            (fmupd ''agent'' (String agent) (apply_resolved_session r own sid spath)))))"

definition resume_with_session_with ::
  "Service \<Rightarrow> string \<Rightarrow> string \<Rightarrow> string \<Rightarrow> ProtocolFamily \<Rightarrow> string option \<Rightarrow> string option \<Rightarrow> Persist \<Rightarrow>
   (World, TaskError, Applied) op" where
  "resume_with_session_with E project_id task_id agent family sid spath persist =
    andThen (load E project_id) (\<lambda>snapshot.
    andThen (find_or_fail project_id task_id snapshot) (\<lambda>r.
      let committed = resumed_row r agent family sid spath in
      if committed = r then ok (unchanged_snapshot snapshot)
      else finish_intent E project_id
        (fst (update_record (stamped_records snapshot) task_id (\<lambda>_. committed))) persist))"

record SessionSnapshot =
  ss_claude_session_id :: "string option"
  ss_claude_session_path :: "string option"
  ss_codex_session_id :: "string option"
  ss_codex_session_path :: "string option"
  ss_dsh_session_id :: "string option"
  ss_dsh_session_path :: "string option"
  ss_omp_session_id :: "string option"
  ss_omp_session_path :: "string option"
  ss_session_agent :: "string option"
  ss_session_codex_like :: "bool option"
  ss_session_family :: "string option"

definition zip_entries ::
  "SessionSnapshot \<Rightarrow> SessionSnapshot \<Rightarrow> (string \<times> Value option \<times> Value option) list" where
  "zip_entries a b =
    (let t = map_option String; f = map_option Bool in
     [(''claudeSessionId'', t (ss_claude_session_id a), t (ss_claude_session_id b)),
      (''claudeSessionPath'', t (ss_claude_session_path a), t (ss_claude_session_path b)),
      (''codexSessionId'', t (ss_codex_session_id a), t (ss_codex_session_id b)),
      (''codexSessionPath'', t (ss_codex_session_path a), t (ss_codex_session_path b)),
      (''dshSessionId'', t (ss_dsh_session_id a), t (ss_dsh_session_id b)),
      (''dshSessionPath'', t (ss_dsh_session_path a), t (ss_dsh_session_path b)),
      (''ompSessionId'', t (ss_omp_session_id a), t (ss_omp_session_id b)),
      (''ompSessionPath'', t (ss_omp_session_path a), t (ss_omp_session_path b)),
      (''sessionAgent'', t (ss_session_agent a), t (ss_session_agent b)),
      (''sessionCodexLike'', f (ss_session_codex_like a), f (ss_session_codex_like b)),
      (''sessionFamily'', t (ss_session_family a), t (ss_session_family b))])"

definition switch_delta ::
  "string \<Rightarrow> string option \<Rightarrow> string option \<Rightarrow> string option \<Rightarrow> string \<Rightarrow> SessionSnapshot \<Rightarrow> SessionSnapshot \<Rightarrow>
   (string \<times> Value option) list" where
  "switch_delta agent model effort speed permission previous resolved =
    map (\<lambda>(key, _, after). (key, after))
      (filter (\<lambda>(_, before, after). before \<noteq> after) (zip_entries previous resolved))
    @ [(''agent'', Some (String agent)), (''selectedModel'', map_option String model),
       (''reasoningEffort'', map_option String effort), (''speed'', map_option String speed),
       (''permissionMode'', Some (String permission)), (''status'', Some (status_value Pending)),
       (''attentionRequestedAt'', None), (''failureReason'', None)]"

definition switch_config_write_with ::
  "Service \<Rightarrow> string \<Rightarrow> string \<Rightarrow> string \<Rightarrow> string option \<Rightarrow> string option \<Rightarrow> string option \<Rightarrow> string \<Rightarrow>
   SessionSnapshot \<Rightarrow> SessionSnapshot \<Rightarrow> Persist \<Rightarrow> (World, TaskError, Applied) op" where
  "switch_config_write_with E project_id task_id agent model effort speed permission previous resolved persist =
    andThen (load E project_id) (\<lambda>snapshot.
    andThen (find_or_fail project_id task_id snapshot) (\<lambda>_.
      case apply_field_delta (stamped_records snapshot) task_id
          (switch_delta agent model effort speed permission previous resolved) of (rows, moved) \<Rightarrow>
        if \<not> moved then ok (unchanged_snapshot snapshot)
        else finish_intent E project_id rows persist))"

section \<open>Deletion\<close>

record Deleted =
  removed :: "string list"
  skipped_starred :: "string list"
  deleted_applied :: Applied

definition row_starred :: "Record list \<Rightarrow> string \<Rightarrow> bool" where
  "row_starred rows i = (case find_row rows i of
      Some r \<Rightarrow> unwrap_or (Option.bind (get r ''starred'') as_bool) False
    | None \<Rightarrow> False)"

definition row_live :: "Record list \<Rightarrow> string \<Rightarrow> bool" where
  "row_live rows i = (case find_row rows i of
      Some r \<Rightarrow> (case status_of r of Some status \<Rightarrow> is_live status | None \<Rightarrow> False)
    | None \<Rightarrow> False)"

fun join_ids :: "string list \<Rightarrow> string" where
  "join_ids [] = []"
| "join_ids [i] = i"
| "join_ids (i # is) = i @ '', '' @ join_ids is"

fun settle_deleted :: "string list \<Rightarrow> OperationLedger \<Rightarrow> OperationLedger" where
  "settle_deleted [] l = l"
| "settle_deleted (i # is) l = settle_deleted is (fst (acknowledge (fst (settle_task l i)) i))"

definition without_ids :: "string list \<Rightarrow> Record list \<Rightarrow> Record list" where
  "without_ids ids rows = filter (\<lambda>r. \<not> list_ex (\<lambda>i. record_id r = Some i) ids) rows"

definition delete_with :: "Service \<Rightarrow> string \<Rightarrow> string list \<Rightarrow> Persist \<Rightarrow> (World, TaskError, Deleted) op" where
  "delete_with E project_id task_ids persist =
    andThen (load E project_id) (\<lambda>snapshot.
      let rows = stamped_records snapshot;
          requested = filter (\<lambda>i. \<not> row_starred rows i) task_ids;
          skipped = filter (row_starred rows) task_ids;
          blocked = filter (row_live rows) requested in
      if requested = [] then
        ok \<lparr>removed = [], skipped_starred = skipped, deleted_applied = unchanged_snapshot snapshot\<rparr>
      else if blocked \<noteq> [] then fail (AlreadyClaimed (join_ids blocked) ''running'' 0)
      else
        andThen (with_ledger (\<lambda>l. (settle_deleted requested l, ()))) (\<lambda>_.
        andThen (finish_intent E project_id (without_ids requested rows) persist) (\<lambda>applied.
        andThen (forget_projects requested) (\<lambda>_.
          ok \<lparr>removed = requested, skipped_starred = skipped, deleted_applied = applied\<rparr>))))"

section \<open>The intents\<close>

datatype TaskIntent =
    IntentRename string string "RenameExpect option"
  | IntentToggleStar string
  | IntentArchive "string list"
  | IntentUnarchive "string list"
  | IntentAttachSession string ProtocolFamily string "string option" "string option"
  | IntentSetWorktree string string string string
  | IntentDiscardWorktree string
  | IntentRecordDiffStats string nat nat
  | IntentCreate string string string string bool "string option" "string option" "string option" "string option"
  | IntentDelete "string list"
  | IntentNormalizeAfterBoot "string list"
  | IntentSwitchConfig string string "string option" "string option" "string option" string
      SessionSnapshot SessionSnapshot
  | IntentResumeWithSession string string ProtocolFamily "string option" "string option"
  | IntentEditTodo string string string string

datatype TaskIntentKind = Metadata | State

definition TASK_INTENT_VOCABULARY :: "(string \<times> TaskIntentKind) list" where
  "TASK_INTENT_VOCABULARY =
    [(''rename'', Metadata), (''toggleStar'', Metadata), (''archive'', Metadata),
     (''unarchive'', Metadata), (''attachSession'', Metadata), (''setWorktree'', Metadata),
     (''discardWorktree'', Metadata), (''recordDiffStats'', Metadata),
     (''normalizeAfterBoot'', Metadata), (''editTodo'', Metadata), (''create'', State),
     (''delete'', State), (''switchConfig'', State), (''resumeWithSession'', State)]"

fun op_name :: "TaskIntent \<Rightarrow> string" where
  "op_name (IntentRename _ _ _) = ''rename''"
| "op_name (IntentToggleStar _) = ''toggleStar''"
| "op_name (IntentArchive _) = ''archive''"
| "op_name (IntentUnarchive _) = ''unarchive''"
| "op_name (IntentAttachSession _ _ _ _ _) = ''attachSession''"
| "op_name (IntentSetWorktree _ _ _ _) = ''setWorktree''"
| "op_name (IntentDiscardWorktree _) = ''discardWorktree''"
| "op_name (IntentRecordDiffStats _ _ _) = ''recordDiffStats''"
| "op_name (IntentCreate _ _ _ _ _ _ _ _ _) = ''create''"
| "op_name (IntentDelete _) = ''delete''"
| "op_name (IntentNormalizeAfterBoot _) = ''normalizeAfterBoot''"
| "op_name (IntentSwitchConfig _ _ _ _ _ _ _ _) = ''switchConfig''"
| "op_name (IntentResumeWithSession _ _ _ _ _) = ''resumeWithSession''"
| "op_name (IntentEditTodo _ _ _ _) = ''editTodo''"

text \<open>\<open>kind\<close> ends in \<open>expect\<close>: \<open>None\<close> is that panic.\<close>

definition intent_kind :: "TaskIntent \<Rightarrow> TaskIntentKind option" where
  "intent_kind intent =
    map_option snd (List.find (\<lambda>(name, _). name = op_name intent) TASK_INTENT_VOCABULARY)"

definition run_intent :: "Service \<Rightarrow> string \<Rightarrow> TaskIntent \<Rightarrow> Persist \<Rightarrow> (World, TaskError, Applied) op" where
  "run_intent E project_id intent persist = (case intent of
      IntentRename t name expect \<Rightarrow> run_rename E project_id t name expect persist
    | IntentToggleStar t \<Rightarrow> metadata_edit E project_id t persist (\<lambda>rows. toggle_star rows t)
    | IntentArchive ts \<Rightarrow> metadata_batch E project_id ts persist (\<lambda>rows. archive rows ts (service_now E))
    | IntentUnarchive ts \<Rightarrow> metadata_batch E project_id ts persist (\<lambda>rows. unarchive rows ts)
    | IntentAttachSession t family agent sid spath \<Rightarrow>
        metadata_one E project_id t persist (\<lambda>rows. attach_session rows t family agent sid spath)
    | IntentSetWorktree t path branch base_branch \<Rightarrow>
        metadata_one E project_id t persist (\<lambda>rows. set_worktree rows t path branch base_branch)
    | IntentDiscardWorktree t \<Rightarrow> metadata_one E project_id t persist (\<lambda>rows. discard_worktree rows t)
    | IntentRecordDiffStats t additions deletions \<Rightarrow>
        metadata_one E project_id t persist (\<lambda>rows. record_diff_stats rows t additions deletions)
    | IntentCreate i prompt agent permission immediate model effort speed preset \<Rightarrow>
        andThen (insert_new_task E project_id
            \<lparr>nt_id = i, nt_project_id = project_id, nt_prompt = prompt, nt_agent = agent,
             nt_permission_mode = permission, nt_immediate = immediate, nt_selected_model = model,
             nt_reasoning_effort = effort, nt_speed = speed, nt_dsh_agent_preset = preset,
             nt_agent_config_id = None, nt_images = [], nt_texts = []\<rparr> persist)
          (\<lambda>(_, applied). ok applied)
    | IntentDelete ts \<Rightarrow>
        andThen (delete_with E project_id ts persist) (\<lambda>deleted. ok (deleted_applied deleted))
    | IntentNormalizeAfterBoot live \<Rightarrow> normalize_after_boot_with E project_id live persist
    | IntentSwitchConfig t agent model effort speed permission previous resolved \<Rightarrow>
        switch_config_write_with E project_id t agent model effort speed permission previous resolved persist
    | IntentResumeWithSession t agent family sid spath \<Rightarrow>
        resume_with_session_with E project_id t agent family sid spath persist
    | IntentEditTodo t prompt agent permission \<Rightarrow>
        metadata_one E project_id t persist (\<lambda>rows. edit_todo rows t prompt agent permission))"

definition apply_intent :: "Service \<Rightarrow> string \<Rightarrow> TaskIntent \<Rightarrow> (World, TaskError, Applied) op" where
  "apply_intent E project_id intent = run_intent E project_id intent Commit"

definition decide_intent :: "Service \<Rightarrow> string \<Rightarrow> TaskIntent \<Rightarrow> (World, TaskError, Applied) op" where
  "decide_intent E project_id intent = run_intent E project_id intent DecideOnly"

definition apply_intent_via_host :: "Service \<Rightarrow> string \<Rightarrow> TaskIntent \<Rightarrow> (World, TaskError, Applied) op" where
  "apply_intent_via_host E project_id intent = run_intent E project_id intent ViaHost"

section \<open>The named entries\<close>

text \<open>The public methods of the same edits; each is one intent's body with \<open>Persist::Commit\<close>.\<close>

definition service_rename :: "Service \<Rightarrow> string \<Rightarrow> string \<Rightarrow> string \<Rightarrow> (World, TaskError, Applied) op" where
  "service_rename E project_id task_id name = run_rename E project_id task_id name None Commit"

definition service_toggle_star :: "Service \<Rightarrow> string \<Rightarrow> string \<Rightarrow> (World, TaskError, Applied) op" where
  "service_toggle_star E project_id task_id =
    metadata_edit E project_id task_id Commit (\<lambda>rows. toggle_star rows task_id)"

definition service_archive :: "Service \<Rightarrow> string \<Rightarrow> string list \<Rightarrow> (World, TaskError, Applied) op" where
  "service_archive E project_id task_ids =
    metadata_batch E project_id task_ids Commit (\<lambda>rows. archive rows task_ids (service_now E))"

definition service_unarchive :: "Service \<Rightarrow> string \<Rightarrow> string list \<Rightarrow> (World, TaskError, Applied) op" where
  "service_unarchive E project_id task_ids =
    metadata_batch E project_id task_ids Commit (\<lambda>rows. unarchive rows task_ids)"

definition service_attach_session ::
  "Service \<Rightarrow> string \<Rightarrow> string \<Rightarrow> ProtocolFamily \<Rightarrow> string \<Rightarrow> string option \<Rightarrow> string option \<Rightarrow>
   (World, TaskError, Applied) op" where
  "service_attach_session E project_id task_id family agent sid spath =
    metadata_one E project_id task_id Commit (\<lambda>rows. attach_session rows task_id family agent sid spath)"

definition service_detach_session :: "Service \<Rightarrow> string \<Rightarrow> string \<Rightarrow> (World, TaskError, Applied) op" where
  "service_detach_session E project_id task_id =
    metadata_one E project_id task_id Commit (\<lambda>rows. detach_session rows task_id)"

definition service_set_worktree ::
  "Service \<Rightarrow> string \<Rightarrow> string \<Rightarrow> string \<Rightarrow> string \<Rightarrow> string \<Rightarrow> (World, TaskError, Applied) op" where
  "service_set_worktree E project_id task_id path branch base_branch =
    metadata_one E project_id task_id Commit (\<lambda>rows. set_worktree rows task_id path branch base_branch)"

definition service_discard_worktree :: "Service \<Rightarrow> string \<Rightarrow> string \<Rightarrow> (World, TaskError, Applied) op" where
  "service_discard_worktree E project_id task_id =
    metadata_one E project_id task_id Commit (\<lambda>rows. discard_worktree rows task_id)"

definition service_record_diff_stats ::
  "Service \<Rightarrow> string \<Rightarrow> string \<Rightarrow> nat \<Rightarrow> nat \<Rightarrow> (World, TaskError, Applied) op" where
  "service_record_diff_stats E project_id task_id additions deletions =
    metadata_one E project_id task_id Commit (\<lambda>rows. record_diff_stats rows task_id additions deletions)"

definition service_normalize_after_boot ::
  "Service \<Rightarrow> string \<Rightarrow> string list \<Rightarrow> (World, TaskError, Applied) op" where
  "service_normalize_after_boot E project_id live = normalize_after_boot_with E project_id live Commit"

definition resume_with_session ::
  "Service \<Rightarrow> string \<Rightarrow> string \<Rightarrow> string \<Rightarrow> ProtocolFamily \<Rightarrow> string option \<Rightarrow> string option \<Rightarrow>
   (World, TaskError, Applied) op" where
  "resume_with_session E project_id task_id agent family sid spath =
    resume_with_session_with E project_id task_id agent family sid spath Commit"

definition switch_config_write ::
  "Service \<Rightarrow> string \<Rightarrow> string \<Rightarrow> string \<Rightarrow> string option \<Rightarrow> string option \<Rightarrow> string option \<Rightarrow> string \<Rightarrow>
   SessionSnapshot \<Rightarrow> SessionSnapshot \<Rightarrow> (World, TaskError, Applied) op" where
  "switch_config_write E project_id task_id agent model effort speed permission previous resolved =
    switch_config_write_with E project_id task_id agent model effort speed permission previous resolved Commit"

definition service_delete :: "Service \<Rightarrow> string \<Rightarrow> string list \<Rightarrow> (World, TaskError, Deleted) op" where
  "service_delete E project_id task_ids = delete_with E project_id task_ids Commit"

end
