(* ===== verification/TaskRuns.thy ===== *)
theory TaskRuns
  imports TaskIntents
begin

text \<open>
  The running half of \<open>tasks/service.rs\<close>: claim, persist, spawn (\<open>begin_under_lock\<close> for start
  and resume), the configuration switch, the one entry for outside observations, completion,
  cancellation and reconciliation after a crash.
\<close>

section \<open>Ledger calls of the service\<close>

definition is_task_live :: "Service \<Rightarrow> OperationLedger \<Rightarrow> string \<Rightarrow> bool" where
  "is_task_live E l task_id \<longleftrightarrow> open_for l task_id \<noteq> [] \<or> has_live_run E task_id"

definition service_acknowledge :: "Service \<Rightarrow> string \<Rightarrow> (World, TaskError, bool) op" where
  "service_acknowledge E task_id =
    andThen (with_ledger (\<lambda>l. acknowledge l task_id)) (\<lambda>cleared.
    andThen (if cleared then best_effort (ledger_persist E) else ok ()) (\<lambda>_. ok cleared))"

definition settle_claim :: "Service \<Rightarrow> string \<Rightarrow> OperationKind \<Rightarrow> string \<Rightarrow> (World, TaskError, unit) op" where
  "settle_claim E task_id kind op_key =
    andThen (with_ledger (\<lambda>l. settle l task_id kind op_key)) (\<lambda>_. best_effort (ledger_persist E))"

definition settle_runs :: "string \<Rightarrow> nat \<Rightarrow> OperationLedger \<Rightarrow> OperationLedger" where
  "settle_runs task_id generation l =
    fst (settle_by_generation (fst (settle_by_generation l task_id Start generation)) task_id Resume generation)"

definition settle_generation :: "Service \<Rightarrow> string \<Rightarrow> nat \<Rightarrow> (World, TaskError, unit) op" where
  "settle_generation E task_id generation =
    andThen (with_ledger (\<lambda>l. (settle_runs task_id generation l, ()))) (\<lambda>_. best_effort (ledger_persist E))"

text \<open>The claim both \<open>begin_under_lock\<close> and \<open>switch_config\<close> take: look first, count second.\<close>

definition claim_run ::
  "Service \<Rightarrow> string \<Rightarrow> OperationKind \<Rightarrow> string \<Rightarrow> OperationLedger \<Rightarrow> OperationLedger \<times> nat \<times> Claimed" where
  "claim_run E task_id kind op_key l = (case open_claim l task_id kind op_key of
      Some existing \<Rightarrow> (l, peek_generation l task_id, Duplicate existing)
    | None \<Rightarrow>
       (case next_generation l task_id of (l1, generation) \<Rightarrow>
        (case claim_attempt l1 task_id kind op_key generation (service_now E) of
           (l2, claimed) \<Rightarrow> (l2, generation, claimed))))"

section \<open>Start and resume\<close>

definition prepare_for_launch :: "Record \<Rightarrow> OperationKind \<Rightarrow> Record" where
  "prepare_for_launch r kind =
    (let prepared = fmdrop ''attentionRequestedAt'' (fmupd ''status'' (status_value Pending) r)
     in if kind = Resume then fmdrop ''failureReason'' prepared else prepared)"

definition check_target_shape ::
  "Service \<Rightarrow> Record \<Rightarrow> string \<Rightarrow> Attachments \<Rightarrow> (World, TaskError, unit) op" where
  "check_target_shape E project task_id attachments =
    (let location = resolve_location project in
     if is_local location then ok ()
     else
       let kind = (case location of TargetSsh _ _ \<Rightarrow> ''ssh'' | _ \<Rightarrow> ''wsl'') in
       if att_images attachments \<noteq> [] \<or> att_texts attachments \<noteq> []
       then fail (UnsupportedOnRemote kind ''attachments'')
       else andThen (load E (unwrap_or (record_id project) [])) (\<lambda>snapshot.
         case find_row (stamped_records snapshot) task_id of
           None \<Rightarrow> ok ()
         | Some row \<Rightarrow>
            if non_empty_text (str_field row ''worktreePath'')
            then fail (UnsupportedOnRemote kind ''a worktree'') else ok ()))"

text \<open>
  The row written after a failed spawn. The list handed to the transition is the one rolled-back
  row alone, as the source has it.
\<close>

definition abandoned_rows ::
  "Record \<Rightarrow> Record \<Rightarrow> OperationKind \<Rightarrow> string \<Rightarrow> string \<Rightarrow> nat \<Rightarrow> Record list" where
  "abandoned_rows current r kind task_id reason now =
    records (apply_status_transition [rollback_mutation current r (prepare_for_launch r kind)]
      task_id Failed None (Some reason) now)"

definition abandon_launch ::
  "Service \<Rightarrow> Record \<Rightarrow> ExecutorFailure \<Rightarrow> OperationKind \<Rightarrow> string \<Rightarrow> Persist \<Rightarrow>
   (World, TaskError, TaskError) op" where
  "abandon_launch E r failure kind op_key persist =
    (let project_id = unwrap_or (str_field r ''projectId'') [];
         task_id = unwrap_or (record_id r) [];
         reason = failure_text failure in
     andThen (best_effort (andThen (load E project_id) (\<lambda>snapshot.
       case find_row (stamped_records snapshot) task_id of
         None \<Rightarrow> ok ()
       | Some current \<Rightarrow>
          andThen (persist_launch E project_id
              (abandoned_rows current r kind task_id reason (service_now E)) persist) (\<lambda>_. ok ())))) (\<lambda>_.
     andThen (settle_claim E task_id kind op_key) (\<lambda>_. ok (LaunchErr reason))))"

type_synonym spawner = "Record \<Rightarrow> Record \<Rightarrow> nat \<Rightarrow> (World, TaskError, unit) op"

definition spawn_start ::
  "Service \<Rightarrow> string \<Rightarrow> string option \<Rightarrow> bool \<Rightarrow> Attachments \<Rightarrow> HostWindowFacts \<Rightarrow> Persist \<Rightarrow> spawner" where
  "spawn_start E op_key prompt_override inject attachments host_facts persist r project generation =
    (case launch_request (linked_usable E) r project (families E) op_key generation
        (att_images attachments) (att_texts attachments) inject prompt_override (dsh_facts host_facts) of
       None \<Rightarrow> fail (Unaddressable (unwrap_or (record_id project) []))
     | Some planned \<Rightarrow>
        let request = planned\<lparr>lr_terminal_size := terminal_size host_facts\<rparr> in
        andThen (log_call (CallLaunch request)) (\<lambda>_.
          case exec_launch E request of
            None \<Rightarrow> ok ()
          | Some failure \<Rightarrow> andThen (abandon_launch E r failure Start op_key persist) fail))"

definition spawn_resume ::
  "Service \<Rightarrow> string \<Rightarrow> string \<Rightarrow> (nat \<times> nat) option \<Rightarrow> Persist \<Rightarrow> spawner" where
  "spawn_resume E sid op_key term_size persist r project generation =
    (let own = resolve_session_owner r (families E);
         with_session = apply_resolved_session r own (Some sid) None in
     case resume_request (linked_usable E) with_session project (families E) op_key generation sid of
       None \<Rightarrow> fail (Unaddressable (unwrap_or (record_id project) []))
     | Some planned \<Rightarrow>
        let request = planned\<lparr>rr_terminal_size := term_size\<rparr> in
        andThen (log_call (CallResume request)) (\<lambda>_.
          case exec_resume E request of
            None \<Rightarrow> ok ()
          | Some failure \<Rightarrow> andThen (abandon_launch E with_session failure Resume op_key persist) fail))"

definition refusal :: "TaskError \<Rightarrow> TaskError" where
  "refusal e = (case e of
      StorageErr inner \<Rightarrow> if is_stale_write inner then PersistFailed inner else e
    | _ \<Rightarrow> e)"

text \<open>\<open>begin_under_lock\<close> once the claim is taken: persist, acknowledge, spawn, settle.\<close>

definition launch_claimed ::
  "Service \<Rightarrow> Record \<Rightarrow> string \<Rightarrow> string \<Rightarrow> OperationKind \<Rightarrow> bool \<Rightarrow> Persist \<Rightarrow> spawner \<Rightarrow>
   StampedTasks \<Rightarrow> Record \<Rightarrow> nat \<Rightarrow> (World, TaskError, Applied) op" where
  "launch_claimed E project task_id op_key kind persist_before_launch persist spawn snapshot r generation =
    (let project_id = unwrap_or (record_id project) [];
         prepared = prepare_for_launch r kind;
         rows = fst (update_record (stamped_records snapshot) task_id (\<lambda>_. prepared)) in
     andThen (onError (persist_launch E project_id rows persist)
       (\<lambda>e. andThen (settle_claim E task_id kind op_key) (\<lambda>_. fail (refusal e)))) (\<lambda>applied.
     andThen (if kind = Start then service_acknowledge E task_id else ok False) (\<lambda>_.
     andThen (onError (spawn prepared project generation)
       (\<lambda>e. andThen (settle_claim E task_id kind op_key) (\<lambda>_. fail e))) (\<lambda>_.
     andThen (if persist_before_launch then ok () else settle_claim E task_id kind op_key) (\<lambda>_.
       ok applied)))))"

definition begin_under_lock ::
  "Service \<Rightarrow> Record \<Rightarrow> string \<Rightarrow> string \<Rightarrow> OperationKind \<Rightarrow> bool \<Rightarrow> Attachments \<Rightarrow> Persist \<Rightarrow> spawner \<Rightarrow>
   (World, TaskError, Applied) op" where
  "begin_under_lock E project task_id op_key kind persist_before_launch attachments persist spawn =
    (let project_id = unwrap_or (record_id project) [] in
     if \<not> is_addressable project then fail (Unaddressable project_id)
     else
       andThen (load E project_id) (\<lambda>snapshot.
       andThen (find_or_fail project_id task_id snapshot) (\<lambda>r.
       andThen (check_target_shape E project task_id attachments) (\<lambda>_.
       andThen (with_ledger (claim_run E task_id kind op_key)) (\<lambda>(generation, claimed).
         case claimed of
           Duplicate c \<Rightarrow> fail (AlreadyClaimed task_id (kind_word kind) (claimed_at_ms c))
         | New _ \<Rightarrow> launch_claimed E project task_id op_key kind persist_before_launch persist spawn
             snapshot r generation)))))"

definition start_as ::
  "Service \<Rightarrow> Record \<Rightarrow> string \<Rightarrow> string \<Rightarrow> bool \<Rightarrow> string option \<Rightarrow> bool \<Rightarrow> Attachments \<Rightarrow> HostWindowFacts \<Rightarrow>
   Persist \<Rightarrow> (World, TaskError, Applied) op" where
  "start_as E project task_id op_key persist_before prompt_override inject attachments host_facts persist =
    begin_under_lock E project task_id op_key Start persist_before attachments persist
      (spawn_start E op_key prompt_override inject attachments host_facts persist)"

definition start ::
  "Service \<Rightarrow> Record \<Rightarrow> string \<Rightarrow> string \<Rightarrow> bool \<Rightarrow> string option \<Rightarrow> bool \<Rightarrow> Attachments \<Rightarrow> HostWindowFacts \<Rightarrow>
   (World, TaskError, Applied) op" where
  "start E project task_id op_key persist_before prompt_override inject attachments host_facts =
    start_as E project task_id op_key persist_before prompt_override inject attachments host_facts Commit"

definition start_via_host ::
  "Service \<Rightarrow> Record \<Rightarrow> string \<Rightarrow> string \<Rightarrow> bool \<Rightarrow> string option \<Rightarrow> bool \<Rightarrow> Attachments \<Rightarrow> HostWindowFacts \<Rightarrow>
   (World, TaskError, Applied) op" where
  "start_via_host E project task_id op_key persist_before prompt_override inject attachments host_facts =
    start_as E project task_id op_key persist_before prompt_override inject attachments host_facts ViaHost"

definition resume_as ::
  "Service \<Rightarrow> Record \<Rightarrow> string \<Rightarrow> string \<Rightarrow> string \<Rightarrow> bool \<Rightarrow> (nat \<times> nat) option \<Rightarrow> Persist \<Rightarrow>
   (World, TaskError, Applied) op" where
  "resume_as E project task_id sid op_key persist_before term_size persist =
    andThen (load E (unwrap_or (record_id project) [])) (\<lambda>snapshot.
      if Option.bind (find_row (stamped_records snapshot) task_id)
           (\<lambda>row. Option.bind (get row ''worktreeDiscarded'') as_bool) = Some True
      then fail (WorktreeDiscarded task_id)
      else andThen (ask (\<lambda>w. awaiting_acknowledgement (ledger w) task_id)) (\<lambda>pending.
        if pending \<noteq> None then fail (AwaitingAcknowledgement task_id)
        else if is_blank sid then fail (NoSession task_id)
        else begin_under_lock E project task_id op_key Resume persist_before
          \<lparr>att_images = [], att_texts = []\<rparr> persist
          (spawn_resume E sid op_key term_size persist)))"

definition resume ::
  "Service \<Rightarrow> Record \<Rightarrow> string \<Rightarrow> string \<Rightarrow> string \<Rightarrow> bool \<Rightarrow> (nat \<times> nat) option \<Rightarrow> (World, TaskError, Applied) op" where
  "resume E project task_id sid op_key persist_before term_size =
    resume_as E project task_id sid op_key persist_before term_size Commit"

definition resume_via_host ::
  "Service \<Rightarrow> Record \<Rightarrow> string \<Rightarrow> string \<Rightarrow> string \<Rightarrow> bool \<Rightarrow> (nat \<times> nat) option \<Rightarrow> (World, TaskError, Applied) op" where
  "resume_via_host E project task_id sid op_key persist_before term_size =
    resume_as E project task_id sid op_key persist_before term_size ViaHost"

section \<open>Switching configuration\<close>

definition release_switch ::
  "Service \<Rightarrow> string \<Rightarrow> string \<Rightarrow> nat \<Rightarrow> (World, TaskError, unit) op" where
  "release_switch E task_id op_key generation =
    andThen (with_ledger (\<lambda>l. (release_generation (fst (settle l task_id Start op_key)) task_id generation, ())))
      (\<lambda>_. best_effort (ledger_persist E))"

definition switched_row ::
  "Record \<Rightarrow> SessionOwner \<Rightarrow> string option \<Rightarrow> string option \<Rightarrow> ConfigSwitch \<Rightarrow> Record" where
  "switched_row attributed own sid spath values =
    (let write = (\<lambda>key v u. case v of Some text \<Rightarrow> fmupd key (String text) u | None \<Rightarrow> fmdrop key u);
         u0 = fmupd ''agent'' (String (cs_agent values)) (apply_resolved_session attributed own sid spath);
         u1 = write ''permissionMode'' (Some (cs_permission_mode values))
               (write ''speed'' (cs_speed values)
                 (write ''reasoningEffort'' (cs_reasoning_effort values)
                   (write ''selectedModel'' (cs_selected_model values) u0)))
     in fmdrop ''failureReason'' (fmdrop ''attentionRequestedAt''
          (fmupd ''status'' (status_value Pending) u1)))"

definition switch_session :: "ConfigSwitchStrategy \<Rightarrow> SwitchEvidence \<Rightarrow> string option" where
  "switch_session strategy observed = (case strategy of
      ConfigSwitchStrategy.Resume \<Rightarrow> ev_session_id observed
    | Adopt \<Rightarrow> adopted_session_id observed
    | Handoff \<Rightarrow> None)"

definition switch_resuming :: "ConfigSwitchStrategy \<Rightarrow> SwitchEvidence \<Rightarrow> bool" where
  "switch_resuming strategy observed \<longleftrightarrow>
    strategy = ConfigSwitchStrategy.Resume \<or> (strategy = Adopt \<and> adopted_session_id observed \<noteq> None)"

text \<open>What follows the reset: decide, refuse without context, write, hand the run number back.\<close>

definition switch_after_reset ::
  "Service \<Rightarrow> string \<Rightarrow> string \<Rightarrow> string \<Rightarrow> ConfigSwitch \<Rightarrow> SwitchEvidence \<Rightarrow> StampedTasks \<Rightarrow> nat \<Rightarrow> Record \<Rightarrow>
   (World, TaskError, ConfigSwitchStrategy \<times> Applied) op" where
  "switch_after_reset E project_id task_id op_key values observed snapshot generation attributed =
    (let own = resolve_session_owner attributed (families E);
         strategy = resolve_config_switch_strategy attributed (cs_agent values)
           (native_resume_supported observed) (families E) in
     if \<not> switch_resuming strategy observed \<and> is_blank (unwrap_or (handoff_prompt observed) [])
        \<and> is_blank (unwrap_or (str_field attributed ''prompt'') [])
     then andThen (release_switch E task_id op_key generation) (\<lambda>_. fail (NoContinuationContext task_id))
     else
       let row = switched_row attributed own (switch_session strategy observed)
             (adopted_session_path observed) values;
           rows = fst (update_record (stamped_records snapshot) task_id (\<lambda>_. row)) in
       andThen (onError (commit E project_id rows)
         (\<lambda>e. andThen (release_switch E task_id op_key generation) (\<lambda>_. fail (refusal e)))) (\<lambda>committed.
       andThen (if strategy = Handoff then service_acknowledge E task_id else ok False) (\<lambda>_.
       andThen (best_effort (ledger_persist E)) (\<lambda>_.
         ok (strategy, committed\<lparr>applied_generation := Some generation\<rparr>)))))"

text \<open>The claimed switch: kill the old run first, then decide.\<close>

definition switch_claimed ::
  "Service \<Rightarrow> string \<Rightarrow> string \<Rightarrow> string \<Rightarrow> ConfigSwitch \<Rightarrow> SwitchEvidence \<Rightarrow> StampedTasks \<Rightarrow> Record \<Rightarrow> nat \<Rightarrow>
   (World, TaskError, ConfigSwitchStrategy \<times> Applied) op" where
  "switch_claimed E project_id task_id op_key values observed snapshot previous generation =
    andThen (log_call (CallReset task_id)) (\<lambda>_.
      case exec_reset E task_id of
        Inl failure \<Rightarrow> andThen (release_switch E task_id op_key generation)
          (\<lambda>_. fail (LaunchErr (failure_text failure)))
      | Inr reset \<Rightarrow> switch_after_reset E project_id task_id op_key values observed snapshot
          generation (merge_reset_session previous reset))"

definition switch_config ::
  "Service \<Rightarrow> Record \<Rightarrow> string \<Rightarrow> string \<Rightarrow> ConfigSwitch \<Rightarrow> SwitchEvidence \<Rightarrow>
   (World, TaskError, ConfigSwitchStrategy \<times> Applied) op" where
  "switch_config E project task_id op_key values observed =
    (let project_id = unwrap_or (record_id project) [] in
     if \<not> is_addressable project then fail (Unaddressable project_id)
     else
       andThen (load E project_id) (\<lambda>snapshot.
       andThen (find_or_fail project_id task_id snapshot) (\<lambda>previous.
       andThen (with_ledger (claim_run E task_id Start op_key)) (\<lambda>(_, claimed).
         case claimed of
           Duplicate c \<Rightarrow> fail (AlreadyClaimed task_id (kind_word (claim_kind c)) (claimed_at_ms c))
         | New c \<Rightarrow> switch_claimed E project_id task_id op_key values observed snapshot previous
             (claim_generation c)))))"

section \<open>Observations\<close>

text \<open>Status, attention time, reason and whether the late-observation guard applies.\<close>

definition observed_status ::
  "TaskEvent \<Rightarrow> (TaskStatus \<times> nat option \<times> string option \<times> bool) option" where
  "observed_status event = (case event of
      Status _ _ status attention reason origin \<Rightarrow> Some (status, attention, reason, is_guarded origin)
    | Exit _ _ code \<Rightarrow> (case settled_by_exit code of (settled, reason) \<Rightarrow> Some (settled, None, reason, False))
    | TerminalReady _ _ \<Rightarrow> None)"

definition persist_observation ::
  "Service \<Rightarrow> string \<Rightarrow> Record list \<Rightarrow> Persist \<Rightarrow> (World, TaskError, Applied) op" where
  "persist_observation E project_id rows persist = (case persist of
      Commit \<Rightarrow> commit E project_id rows
    | ViaHost \<Rightarrow> save_via_host E project_id rows
    | DecideOnly \<Rightarrow> ok (decided rows))"

text \<open>An accepted status: fold, settle the run when it ended, persist when the row moved.\<close>

definition land_observation ::
  "Service \<Rightarrow> string \<Rightarrow> StampedTasks \<Rightarrow> OperationLedger \<Rightarrow> string \<Rightarrow> nat \<Rightarrow> TaskStatus \<Rightarrow> nat option \<Rightarrow> string option \<Rightarrow>
   Persist \<Rightarrow> (World, TaskError, EventOutcome \<times> Applied) op" where
  "land_observation E project_id snapshot l t seen reported attention reason persist =
    (let overlapping = is_terminal reported \<and> live_other_than l t seen \<noteq> [];
         status = (if overlapping then Running else reported);
         transition = apply_status_transition (stamped_records snapshot) t status attention reason
           (service_now E) in
     andThen (if is_terminal reported then settle_generation E t seen else ok ()) (\<lambda>_.
       if \<not> changed transition
       then ok (EventApplied status False reason, unchanged_snapshot snapshot)
       else andThen (persist_observation E project_id (records transition) persist) (\<lambda>applied.
         ok (EventApplied status True reason, applied))))"

definition judge_observation ::
  "Service \<Rightarrow> string \<Rightarrow> TaskEvent \<Rightarrow> Persist \<Rightarrow> StampedTasks \<Rightarrow> OperationLedger \<Rightarrow>
   (World, TaskError, EventOutcome \<times> Applied) op" where
  "judge_observation E project_id event persist snapshot l =
    (let t = event_task event; current = peek_generation l t; seen = event_generation event in
     if seen < current \<and> \<not> is_live_run l t seen
     then ok (Dropped ''stale generation'', unchanged_snapshot snapshot)
     else if current < seen then fail (FutureGeneration t seen current)
     else case observed_status event of
       None \<Rightarrow> andThen (settle_generation E t seen) (\<lambda>_.
         ok (Dropped ''terminal ready moves no status'', unchanged_snapshot snapshot))
     | Some (reported, attention, reason, guarded) \<Rightarrow>
        if guarded \<and> \<not> is_terminal reported \<and> \<not> is_task_live E l t
        then ok (Dropped ''no live run for this task'', unchanged_snapshot snapshot)
        else land_observation E project_id snapshot l t seen reported attention reason persist)"

definition apply_observation_under_lock ::
  "Service \<Rightarrow> string \<Rightarrow> TaskEvent \<Rightarrow> Persist \<Rightarrow> (World, TaskError, EventOutcome \<times> Applied) op" where
  "apply_observation_under_lock E project_id event persist =
    andThen (load E project_id) (\<lambda>snapshot.
    andThen (ask ledger) (judge_observation E project_id event persist snapshot))"

definition observe :: "Service \<Rightarrow> string \<Rightarrow> TaskEvent \<Rightarrow> (World, TaskError, EventOutcome \<times> Applied) op" where
  "observe E project_id event = apply_observation_under_lock E project_id event Commit"

definition decide_observation ::
  "Service \<Rightarrow> string \<Rightarrow> TaskEvent \<Rightarrow> (World, TaskError, EventOutcome \<times> Applied) op" where
  "decide_observation E project_id event = apply_observation_under_lock E project_id event DecideOnly"

definition observe_via_host ::
  "Service \<Rightarrow> string \<Rightarrow> TaskEvent \<Rightarrow> (World, TaskError, EventOutcome \<times> Applied) op" where
  "observe_via_host E project_id event = apply_observation_under_lock E project_id event ViaHost"

section \<open>Completion, cancellation, reconciliation\<close>

definition complete_under_lock ::
  "Service \<Rightarrow> Record \<Rightarrow> string \<Rightarrow> (World, TaskError, Completion \<times> Applied option) op" where
  "complete_under_lock E project task_id =
    (let project_id = unwrap_or (record_id project) [] in
     andThen (load E project_id) (\<lambda>snapshot.
     andThen (find_or_fail project_id task_id snapshot) (\<lambda>r.
       let kind = completion_for r (families E); wd = process_path r project in
       if kind = Nothing then
         andThen (commit E project_id (records (apply_status_transition (stamped_records snapshot)
             task_id Done None None (service_now E)))) (\<lambda>applied. ok (kind, Some applied))
       else
         andThen (log_call (CallComplete task_id wd)) (\<lambda>_.
           case exec_complete E task_id wd of
             Some failure \<Rightarrow> fail (LaunchErr (failure_text failure))
           | None \<Rightarrow> ok (kind, None)))))"

definition cancel_under_lock :: "Service \<Rightarrow> Record \<Rightarrow> string \<Rightarrow> (World, TaskError, CancelTarget) op" where
  "cancel_under_lock E project task_id =
    (let project_id = unwrap_or (record_id project) [] in
     andThen (load E project_id) (\<lambda>snapshot.
     andThen (find_or_fail project_id task_id snapshot) (\<lambda>r.
       let target = cancel_target r project (families E) in
       andThen (log_call (CallCancel task_id target)) (\<lambda>_.
         case exec_cancel E task_id target of
           Some failure \<Rightarrow> fail (LaunchErr (failure_text failure))
         | None \<Rightarrow>
            andThen (with_ledger (\<lambda>l. settle_task l task_id)) (\<lambda>_.
            andThen (best_effort (ledger_persist E)) (\<lambda>_. ok target))))))"

fun await_all :: "Acknowledgement list \<Rightarrow> OperationLedger \<Rightarrow> OperationLedger" where
  "await_all [] l = l"
| "await_all (a # as) l = await_all as (await_acknowledgement (fst (settle_task l (ack_task a))) a)"

definition service_reconcile ::
  "Service \<Rightarrow> string \<Rightarrow> (World, TaskError, string list \<times> Applied option) op" where
  "service_reconcile E project_id =
    andThen (load E project_id) (\<lambda>snapshot.
    andThen (ask (\<lambda>w. claims (ledger w))) (\<lambda>open_claims.
      case reconcile open_claims (stamped_records snapshot) (service_now E) of (rows, interrupted) \<Rightarrow>
        if interrupted = [] then ok ([], Some (unchanged_snapshot snapshot))
        else andThen (commit E project_id rows) (\<lambda>applied.
          andThen (with_ledger (\<lambda>l. (await_all interrupted l, ()))) (\<lambda>_.
          andThen (best_effort (ledger_persist E)) (\<lambda>_.
            ok (map ack_task interrupted, Some applied))))))"

end
