(* ===== verification/TaskServiceProps.thy ===== *)
theory TaskServiceProps
  imports TaskRuns
begin

text \<open>
  What the task service's write path and its intents guarantee: frame lemmas (which operations
  touch the data directory, the ledger or the executor), what a successful commit leaves on
  disk, and the properties of the fourteen intents.
\<close>

section \<open>Frames\<close>

text \<open>What survives a crash: the files, the revision table and the ledger file.\<close>

definition durable :: "World \<Rightarrow> (string, string) fmap \<times> RuntimeFile \<times> LedgerFile" where
  "durable w = (files (disk w), runtime_file (disk w), ledger_file w)"

lemma on_disk_Inr:
  "on_disk m w = (Inr a, w') \<longleftrightarrow> (\<exists>d. m (disk w) = (Inr a, d) \<and> w' = w\<lparr>disk := d\<rparr>)"
  by (auto simp: on_disk_def split: prod.splits sum.splits)

lemma on_disk_snd: "snd (on_disk m w) = w\<lparr>disk := snd (m (disk w))\<rparr>"
  by (auto simp: on_disk_def split: prod.splits sum.splits)

lemma keeps_on_disk [keeps_intros]:
  "keeps calls (on_disk m)" "keeps ledger (on_disk m)" "keeps ledger_file (on_disk m)"
  "quiet m \<Longrightarrow> keeps durable (on_disk m)"
  by (simp_all add: keeps_def on_disk_snd durable_def quiet_def)

lemma keeps_with_ledger [keeps_intros]:
  "keeps calls (with_ledger f)" "keeps durable (with_ledger f)"
  by (simp_all add: keeps_def with_ledger_def durable_def split: prod.splits)

lemma keeps_ask [keeps_intros]: "keeps view (ask f)"
  by (simp add: keeps_def ask_def)

lemma keeps_best_effort [keeps_intros]: "keeps view m \<Longrightarrow> keeps view (best_effort m)"
  by (simp add: keeps_def best_effort_def)

lemma keeps_log_call [keeps_intros]: "keeps ledger (log_call c)" "keeps durable (log_call c)"
  by (simp_all add: keeps_def log_call_def durable_def)

lemma keeps_load [keeps_intros]:
  "keeps calls (load E p)" "keeps ledger (load E p)" "keeps durable (load E p)"
  unfolding load_def by (intro keeps_intros quiet_intros)+

lemma keeps_find_or_fail [keeps_intros]: "keeps view (find_or_fail p t s)"
  unfolding find_or_fail_def by (intro keeps_intros)

lemma keeps_ledger_persist [keeps_intros]:
  "keeps calls (ledger_persist E)" "keeps ledger (ledger_persist E)"
  unfolding ledger_persist_def
  by ((intro keeps_intros)+, simp add: keeps_def)+

lemma keeps_commit_stamped:
  "keeps calls (commit_stamped E p rows)" "keeps ledger (commit_stamped E p rows)"
  unfolding commit_stamped_def by (intro keeps_intros)+

lemma keeps_commit [keeps_intros]: "keeps calls (commit E p rows)" "keeps ledger (commit E p rows)"
  using keeps_commit_stamped by (simp_all add: keeps_def commit_def)

lemma keeps_commit_removal [keeps_intros]:
  "keeps calls (commit_removal E p)" "keeps ledger (commit_removal E p)"
  unfolding commit_removal_def by (intro keeps_intros)+

lemma keeps_save_via_host [keeps_intros]:
  "keeps calls (save_via_host E p rows)" "keeps ledger (save_via_host E p rows)"
  by (auto simp: keeps_def save_via_host_def Let_def split: option.splits prod.splits bool.splits)

lemma keeps_finish_intent [keeps_intros]:
  "keeps calls (finish_intent E p rows persist)" "keeps ledger (finish_intent E p rows persist)"
  by (cases persist; simp add: finish_intent_def keeps_intros)+

lemma keeps_persist_launch [keeps_intros]:
  "keeps calls (persist_launch E p rows persist)" "keeps ledger (persist_launch E p rows persist)"
  by (cases persist; simp add: persist_launch_def; intro keeps_intros)+

section \<open>What a successful write leaves\<close>

lemma ledger_persist_ok:
  assumes "ledger_persist E w = (Inr u, w')"
  shows "ledger_file w' = HasLedger (ledger w)" "files (disk w') = files (disk w)"
    "runtime_file (disk w') = runtime_file (disk w)" "ledger w' = ledger w"
  using assms
  by (auto simp: ledger_persist_def andThen_Inr on_disk_Inr require_writer_def io_step_def ok_def
      fail_def
      split: option.splits)

text \<open>The file of the project holds exactly these rows, and the table covers it.\<close>

definition stored :: "Service \<Rightarrow> string \<Rightarrow> Record list \<Rightarrow> World \<Rightarrow> bool" where
  "stored E p rows w \<longleftrightarrow>
    fmlookup (files (disk w)) (tasks_path p) =
      (if rows = [] then None else Some (to_pretty (store E) (Array (map Object rows))))
    \<and> covered (store E) (tasks_path p) (disk w)
    \<and> ledger_file w = HasLedger (ledger w)"

lemma stamp_nil [simp]: "stamp_generation_copies l rows = [] \<longleftrightarrow> rows = []"
  by (simp add: stamp_generation_copies_def)

lemma stamp_ids [simp]: "map record_id (stamp_generation_copies l rows) = map record_id rows"
  by (simp add: stamp_generation_copies_def Let_def split: option.splits)

lemma commit_ok:
  assumes "commit E p rows w = (Inr a, w')"
  shows "applied_records a = stamp_generation_copies (ledger w) rows" "applied_changed a"
    and "rows \<noteq> [] \<Longrightarrow> stored E p (applied_records a) w'"
    and "ledger_file w' = HasLedger (ledger w)"
    and "fmlookup (files (disk w')) (tasks_path p)
      = Some (to_pretty (store E) (Array (map Object (applied_records a))))"
proof -
  let ?S = "store E" and ?rows = "stamp_generation_copies (ledger w) rows"
  from assms obtain fp key d1 meta d2 where
    s: "save_covering ?S p ?rows LastCoreWrite (disk w) = (Inr (fp, key), d1)" and
    b: "bump_covering ?S [(key, Some fp)] d1 = (Inr meta, d2)" and
    l: "ledger_persist E (w\<lparr>disk := d2\<rparr>) = (Inr (), w')" and
    a: "applied_records a = ?rows" "applied_changed a"
    by (auto simp: commit_def commit_stamped_def andThen_Inr on_disk_Inr ok_def)
  show "applied_records a = ?rows" "applied_changed a" by fact+
  note saved = save_covering_ok [OF s] and bump = bump_covering_ok [OF b] and pers = ledger_persist_ok [OF l]
  show lf: "ledger_file w' = HasLedger (ledger w)" using pers(1) by simp
  show f: "fmlookup (files (disk w')) (tasks_path p) = Some (to_pretty ?S (Array (map Object (applied_records a))))"
    using saved(2,3) bump(2) pers(2) a by simp
  have "covered ?S (tasks_path p) (disk w')"
    using saved bump pers(2,3) by (auto simp: covered_def publish_covers_single)
  then show "rows \<noteq> [] \<Longrightarrow> stored E p (applied_records a) w'"
    using f lf pers(4) a by (simp add: stored_def)
qed

lemma remove_covering_ok:
  assumes "remove_covering S p LastCoreWrite d = (Inr (fp, key), d')"
  shows "fp = None" "key = tasks_path p" "fmlookup (files d') key = None" "runtime_file d' = runtime_file d"
proof -
  from assms obtain h d0 path d1 x d2 where
    w: "require_writer S d = (Inr h, d0)" and t: "tasks_file p d0 = (Inr path, d1)" and
    c: "check_cover S path LastCoreWrite d1 = (Inr x, d2)" and
    r: "(if fmlookup (files d2) path = None then ok (None, path) d2
      else andThen (io_step S (\<lambda>_. WriteFailed path)) (\<lambda>_ d.
        (Inr (None, path), d\<lparr>files := fmdrop path (files d)\<rparr>)) d2) = (Inr (fp, key), d')"
    by (auto simp: remove_covering_def andThen_Inr)
  note keep = quietD [OF quiet_require_writer w] quietD [OF quiet_tasks_file t] quietD [OF quiet_check_cover c]
  have "fp = None \<and> key = path \<and> fmlookup (files d') path = None \<and> runtime_file d' = runtime_file d2"
    using r by (auto simp: andThen_Inr ok_def io_step_def split: if_splits option.splits)
  then show "fp = None" "key = tasks_path p" "fmlookup (files d') key = None" "runtime_file d' = runtime_file d"
    using keep t by (auto simp: tasks_file_result)
qed

lemma commit_removal_ok:
  assumes "commit_removal E p w = (Inr a, w')"
  shows "applied_records a = []" "applied_changed a" "stored E p [] w'"
proof -
  let ?S = "store E"
  from assms obtain fp key d1 meta d2 where
    s: "remove_covering ?S p LastCoreWrite (disk w) = (Inr (fp, key), d1)" and
    b: "bump_covering ?S [(key, fp)] d1 = (Inr meta, d2)" and
    l: "ledger_persist E (w\<lparr>disk := d2\<rparr>) = (Inr (), w')" and
    a: "applied_records a = []" "applied_changed a"
    by (auto simp: commit_removal_def andThen_Inr on_disk_Inr ok_def)
  show "applied_records a = []" "applied_changed a" by fact+
  note gone = remove_covering_ok [OF s] and bump = bump_covering_ok [OF b] and pers = ledger_persist_ok [OF l]
  have "fmlookup (files (disk w')) (tasks_path p) = None" using gone bump pers by simp
  moreover have "covered ?S (tasks_path p) (disk w')"
    using gone bump pers(2,3) by (auto simp: covered_def publish_covers_single)
  ultimately show "stored E p [] w'" using pers by (simp add: stored_def)
qed

section \<open>Every applied intent is stored\<close>

text \<open>
  What an operation that ends in \<open>Ok(applied)\<close> under \<open>Persist::Commit\<close> says about the disk: a change
  is exactly what the file now holds, covered and with the ledger mirrored; no change is no
  write.
\<close>

definition told :: "Service \<Rightarrow> string \<Rightarrow> World \<Rightarrow> Applied \<Rightarrow> World \<Rightarrow> bool" where
  "told E p w a w' \<longleftrightarrow>
    (if applied_changed a then stored E p (applied_records a) w' else durable w' = durable w)"

definition tells :: "Service \<Rightarrow> string \<Rightarrow> (World, TaskError, Applied) op \<Rightarrow> bool" where
  "tells E p m \<longleftrightarrow> (\<forall>w a w'. m w = (Inr a, w') \<longrightarrow> told E p w a w')"

named_theorems tells_intros \<open>operations whose answer is what the disk holds\<close>

lemma tells_ok [tells_intros]: "\<not> applied_changed a \<Longrightarrow> tells E p (ok a)"
  by (simp add: tells_def told_def ok_def)

lemma tells_fail [tells_intros]: "tells E p (fail e)"
  by (simp add: tells_def fail_def)

lemma tells_andThen [tells_intros]:
  assumes "keeps durable m" "\<And>x. tells E p (f x)"
  shows "tells E p (andThen m f)"
  unfolding tells_def
proof (intro allI impI)
  fix w a w'
  assume "andThen m f w = (Inr a, w')"
  then obtain x t where m: "m w = (Inr x, t)" and f: "f x t = (Inr a, w')" by (auto simp: andThen_Inr)
  from assms(2) f have "told E p t a w'" by (auto simp: tells_def)
  with keepsD [OF assms(1) m] show "told E p w a w'" by (simp add: told_def)
qed

lemma tells_cases [tells_intros]:
  "(b \<Longrightarrow> tells E p m) \<Longrightarrow> (\<not> b \<Longrightarrow> tells E p m') \<Longrightarrow> tells E p (if b then m else m')"
  "(\<And>a b. tells E p (g a b)) \<Longrightarrow> tells E p (case q of (a, b) \<Rightarrow> g a b)"
  "tells E p (fe v) \<Longrightarrow> tells E p (let z = v in fe z)"
  by (simp_all split: prod.splits)

lemma tells_finish [tells_intros]: "tells E p (finish_intent E p rows Commit)"
  unfolding tells_def told_def
  using commit_ok(2,3) commit_removal_ok by (fastforce simp: finish_intent_def split: if_splits)

lemma unchanged_quiet [simp]:
  "\<not> applied_changed (unchanged_snapshot s)" "applied_records (unchanged_snapshot s) = stamped_records s"
  by (simp_all add: unchanged_snapshot_def unchanged_def)

lemma keeps_find_all [keeps_intros]: "keeps view (find_all_or_fail p ts s)"
  by (induction ts) (simp_all add: keeps_intros)

lemma tells_metadata [tells_intros]:
  "tells E p (metadata_edit E p t Commit ch)" "tells E p (metadata_batch E p ts Commit ch')"
  "tells E p (metadata_one E p t Commit ch')" "tells E p (run_rename E p t name expect Commit)"
  "tells E p (normalize_after_boot_with E p live Commit)"
  "tells E p (resume_with_session_with E p t agent family sid spath Commit)"
  "tells E p (switch_config_write_with E p t agent model effort speed permission prev res Commit)"
  unfolding metadata_one_def metadata_edit_def metadata_batch_def run_rename_def normalize_after_boot_with_def
    resume_with_session_with_def switch_config_write_with_def
  by (intro tells_intros keeps_intros; simp)+

lemma tells_create [tells_intros]:
  "tells E p (andThen (insert_new_task E p spec Commit) (\<lambda>(_, applied). ok applied))"
proof -
  have eq: "andThen (insert_new_task E p spec Commit) (\<lambda>(_, applied). ok applied)
    = andThen (load E p) (\<lambda>snapshot.
      if find_row (stamped_records snapshot) (nt_id spec) \<noteq> None then fail (DuplicateId (nt_id spec))
      else case build_new_records E p spec (stamped_records snapshot) (service_now E) of
        (r, rows) \<Rightarrow> finish_intent E p rows Commit)"
    by (auto simp: insert_new_task_def op_defs fun_eq_iff split: prod.splits sum.splits)
  show ?thesis unfolding eq by (intro tells_intros keeps_intros)
qed

abbreviation unstarred :: "StampedTasks \<Rightarrow> string list \<Rightarrow> string list" where
  "unstarred s ts \<equiv> filter (\<lambda>i. \<not> row_starred (stamped_records s) i) ts"

lemma delete_with_ok:
  assumes "delete_with E p ts persist w = (Inr del, w')"
  obtains (untouched) s where "load E p w = (Inr s, w')" "unstarred s ts = []"
    "del = \<lparr>removed = [], skipped_starred = filter (row_starred (stamped_records s)) ts,
            deleted_applied = unchanged_snapshot s\<rparr>"
  | (deleted) s w1 w3 where "load E p w = (Inr s, w1)" "unstarred s ts \<noteq> []"
    "filter (row_live (stamped_records s)) (unstarred s ts) = []"
    "finish_intent E p (without_ids (unstarred s ts) (stamped_records s)) persist
      (w1\<lparr>ledger := settle_deleted (unstarred s ts) (ledger w1)\<rparr>) = (Inr (deleted_applied del), w3)"
    "w' = w3\<lparr>task_projects := drop_keys (unstarred s ts) (task_projects w3)\<rparr>"
    "removed del = unstarred s ts" "skipped_starred del = filter (row_starred (stamped_records s)) ts"
proof -
  from assms obtain s w1 where l: "load E p w = (Inr s, w1)"
    and rest: "(let rows = stamped_records s; requested = unstarred s ts;
          skipped = filter (row_starred rows) ts; blocked = filter (row_live rows) requested in
        if requested = [] then
          ok \<lparr>removed = [], skipped_starred = skipped, deleted_applied = unchanged_snapshot s\<rparr>
        else if blocked \<noteq> [] then fail (AlreadyClaimed (join_ids blocked) ''running'' 0)
        else
          andThen (with_ledger (\<lambda>l. (settle_deleted requested l, ()))) (\<lambda>_.
          andThen (finish_intent E p (without_ids requested rows) persist) (\<lambda>applied.
          andThen (forget_projects requested) (\<lambda>_.
            ok \<lparr>removed = requested, skipped_starred = skipped, deleted_applied = applied\<rparr>)))) w1
      = (Inr del, w')"
    by (auto simp: delete_with_def andThen_Inr)
  show thesis
  proof (cases "unstarred s ts = []")
    case True
    with rest have "w' = w1" "del = \<lparr>removed = [], skipped_starred = filter (row_starred (stamped_records s)) ts,
        deleted_applied = unchanged_snapshot s\<rparr>"
      by (simp_all add: ok_def Let_def)
    with untouched l True show thesis by simp
  next
    case False
    with rest have nb: "filter (row_live (stamped_records s)) (unstarred s ts) = []"
      by (auto simp: fail_def Let_def split: if_splits)
    with rest False have "\<exists>w3 applied. finish_intent E p (without_ids (unstarred s ts) (stamped_records s)) persist
        (w1\<lparr>ledger := settle_deleted (unstarred s ts) (ledger w1)\<rparr>) = (Inr applied, w3)
      \<and> w' = w3\<lparr>task_projects := drop_keys (unstarred s ts) (task_projects w3)\<rparr>
      \<and> del = \<lparr>removed = unstarred s ts, skipped_starred = filter (row_starred (stamped_records s)) ts,
          deleted_applied = applied\<rparr>"
      by (auto simp: Let_def andThen_Inr with_ledger_def forget_projects_def ok_def simp del: filter_filter)
    with deleted [OF l False nb] show thesis by auto
  qed
qed

lemma tells_delete [tells_intros]:
  "tells E p (andThen (delete_with E p ts Commit) (\<lambda>deleted. ok (deleted_applied deleted)))"
  unfolding tells_def
proof (intro allI impI)
  fix w a w'
  assume "andThen (delete_with E p ts Commit) (\<lambda>deleted. ok (deleted_applied deleted)) w = (Inr a, w')"
  then obtain del where d: "delete_with E p ts Commit w = (Inr del, w')" and a: "a = deleted_applied del"
    by (auto simp: andThen_Inr ok_def)
  from d show "told E p w a w'"
  proof (cases rule: delete_with_ok)
    case (untouched s)
    then show ?thesis using a keepsD [OF keeps_load(3) untouched(1)] by (simp add: told_def)
  next
    case (deleted s w1 w3)
    note fin = deleted(4)
    have "durable w1 = durable w" by (rule keepsD [OF keeps_load(3) deleted(1)])
    with tells_finish [unfolded tells_def, rule_format, OF fin] a deleted(5) show ?thesis
      by (cases "applied_changed a") (simp_all add: told_def stored_def durable_def)
  qed
qed

text \<open>
  C8. The answer to an intent is what the data directory holds: for each of the fourteen intents,
  when it reports a change under \<open>Persist::Commit\<close> the project's file holds exactly the reported rows
  (no file when none is left), the cover table covers those bytes and the ledger file mirrors
  the ledger; when it reports no change, no file, table entry or ledger file changed.
\<close>

theorem intent_applied_is_stored:
  assumes "apply_intent E p intent w = (Inr a, w')"
  shows "if applied_changed a then stored E p (applied_records a) w' else durable w' = durable w"
proof -
  have "tells E p (apply_intent E p intent)"
    unfolding apply_intent_def
    by (cases intent) (simp_all only: run_intent_def TaskIntent.simps tells_intros)
  with assms show ?thesis by (auto simp: tells_def told_def)
qed

section \<open>When a commit goes through\<close>

definition writable :: "Service \<Rightarrow> string \<Rightarrow> Disk \<Rightarrow> bool" where
  "writable E p d \<longleftrightarrow>
    lease (store E) \<noteq> None \<and> validate_id p = None \<and> no_faults (store E)
    \<and> no_temporaries (store E) (tasks_path p) d \<and> covered (store E) (tasks_path p) d
    \<and> (case runtime_file d of
         NoRuntime \<Rightarrow> True
       | BadRuntime \<Rightarrow> False
       | HasRuntime meta \<Rightarrow> schema_version meta \<le> RUNTIME_SCHEMA_VERSION
           \<and> (case canonical_decimal (revision meta) of Some v \<Rightarrow> v + 1 < 2 ^ 64 | None \<Rightarrow> False))
    \<and> (case fmlookup (files d) (tasks_path p) of None \<Rightarrow> True | Some bytes \<Rightarrow> from_slice (store E) bytes \<noteq> None)"

lemma bump_goes_through:
  assumes "lease S = Some holder" "no_faults S"
    and "case runtime_file d of NoRuntime \<Rightarrow> True | BadRuntime \<Rightarrow> False
       | HasRuntime meta \<Rightarrow> schema_version meta \<le> RUNTIME_SCHEMA_VERSION
           \<and> (case canonical_decimal (revision meta) of Some v \<Rightarrow> v + 1 < 2 ^ 64 | None \<Rightarrow> False)"
  shows "\<exists>meta d'. bump_covering S updates d = (Inr meta, d')"
  using assms canonical_zero
  by (auto simp: bump_covering_def require_writer_def runtime_load_def parse_runtime_def bumped_metadata_def
      op_defs io_step_def Let_def split: RuntimeFile.splits option.splits)

lemma commit_goes_through:
  assumes "writable E p (disk w)"
  shows "\<exists>a w'. commit E p rows w = (Inr a, w')"
proof -
  let ?S = "store E" and ?rows = "stamp_generation_copies (ledger w) rows"
  note wr = assms [unfolded writable_def]
  from wr have "\<exists>fp d1. save_covering ?S p ?rows LastCoreWrite (disk w) = (Inr (fp, tasks_path p), d1)"
    by (intro save_goes_through) (auto simp: parse_runtime_def split: RuntimeFile.splits option.splits)
  then obtain fp d1 where s: "save_covering ?S p ?rows LastCoreWrite (disk w) = (Inr (fp, tasks_path p), d1)"
    by blast
  from wr obtain holder where h: "lease ?S = Some holder" and nf: "no_faults ?S" by blast
  have "\<exists>meta d2. bump_covering ?S [(tasks_path p, Some fp)] d1 = (Inr meta, d2)"
    using wr save_covering_ok(5) [OF s] by (intro bump_goes_through [OF h nf]) simp
  then obtain meta d2 where b: "bump_covering ?S [(tasks_path p, Some fp)] d1 = (Inr meta, d2)" by blast
  have "\<exists>w'. ledger_persist E (w\<lparr>disk := d2\<rparr>) = (Inr (), w')"
    using h nf by (simp add: ledger_persist_def on_disk_def require_writer_def op_defs io_step_def)
  then show ?thesis
    using s b by (auto simp: commit_def commit_stamped_def op_defs on_disk_def)
qed

lemma load_goes_through:
  assumes "no_faults (store E)" "validate_id p = None" "fmlookup (files (disk w)) (tasks_path p) = Some bytes"
    and "from_slice (store E) bytes = Some (Array (map Object rows))"
  shows "\<exists>i. load E p w = (Inr \<lparr>stamped_records = rows, stamped_fingerprint = Some (fingerprint_of (store E) bytes),
    stamped_key = tasks_path p\<rparr>, w\<lparr>disk := (disk w)\<lparr>ios := i\<rparr>\<rparr>)"
  using assms
  by (auto simp: load_def on_disk_def load_stamped_def tasks_file_def of_file_def read_bytes_def read_array_def
      read_json_def op_defs io_step_def as_records_objects)

text \<open>A service and a world for the concrete instances: one project \<open>p\<close> with the given rows.\<close>

definition sample_service :: "Record list \<Rightarrow> ExecutorFailure option \<Rightarrow> Service" where
  "sample_service rows failure = \<lparr>store = sample_store rows, families = sample_families,
     exec_launch = (\<lambda>_. failure), exec_resume = (\<lambda>_. failure), exec_cancel = (\<lambda>_ _. failure),
     exec_complete = (\<lambda>_ _. failure), exec_reset = (\<lambda>_. Inr \<lparr>claude_session_id = None,
       claude_session_path = None, codex_session_id = None, codex_session_path = None, dsh_session_id = None,
       dsh_session_path = None, omp_session_id = None, omp_session_path = None\<rparr>),
     has_live_run = (\<lambda>_. False), task_saver = None, linked_usable = (\<lambda>_. []), login_config_for = (\<lambda>_. None)\<rparr>"

definition sample_world :: World where
  "sample_world = \<lparr>disk = \<lparr>files = fmupd (tasks_path ''p'') ''doc'' fmempty, runtime_file = NoRuntime, ios = 0\<rparr>,
     ledger = ledger_empty, ledger_file = NoLedger, task_projects = fmempty, calls = []\<rparr>"

lemma sample_writable: "writable (sample_service rows f) ''p'' (disk (sample_world\<lparr>disk := (disk sample_world)\<lparr>ios := i\<rparr>\<rparr>))"
  by (simp add: writable_def sample_service_def sample_store_def sample_world_def sample_id no_temporaries_def
      covered_def)

lemma sample_load:
  "\<exists>i. load (sample_service rows f) ''p'' (sample_world\<lparr>ledger := l\<rparr>) = (Inr \<lparr>stamped_records = rows,
     stamped_fingerprint = Some (fingerprint_of (sample_store rows) ''doc''), stamped_key = tasks_path ''p''\<rparr>,
     sample_world\<lparr>ledger := l, disk := (disk sample_world)\<lparr>ios := i\<rparr>\<rparr>)"
  using load_goes_through [of "sample_service rows f" "''p''" "sample_world\<lparr>ledger := l\<rparr>" "''doc''" rows]
  by (simp add: sample_service_def sample_store_def sample_world_def sample_id)

theorem intent_applied_is_stored_witness:
  "\<exists>a w'. apply_intent (sample_service [sample_row ''a'' Done] None) ''p'' (IntentToggleStar ''a'') sample_world
       = (Inr a, w') \<and> applied_changed a
     \<and> stored (sample_service [sample_row ''a'' Done] None) ''p'' (applied_records a) w'"
proof -
  let ?E = "sample_service [sample_row ''a'' Done] None"
  obtain i where l: "load ?E ''p'' sample_world = (Inr \<lparr>stamped_records = [sample_row ''a'' Done],
     stamped_fingerprint = Some (fingerprint_of (sample_store [sample_row ''a'' Done]) ''doc''),
     stamped_key = tasks_path ''p''\<rparr>, sample_world\<lparr>disk := (disk sample_world)\<lparr>ios := i\<rparr>\<rparr>)"
    using sample_load [of _ _ "ledger sample_world"] by auto
  let ?rows = "toggle_star [sample_row ''a'' Done] ''a''"
  obtain a w' where c: "commit ?E ''p'' ?rows (sample_world\<lparr>disk := (disk sample_world)\<lparr>ios := i\<rparr>\<rparr>) = (Inr a, w')"
    using commit_goes_through [OF sample_writable] by blast
  have ne: "?rows \<noteq> [sample_row ''a'' Done]" "?rows \<noteq> []"
    by (auto simp: toggle_star_def sample_row_def record_id_def fmupd_eq_iff)
  have "apply_intent ?E ''p'' (IntentToggleStar ''a'') sample_world = (Inr a, w')"
    using l c ne
    by (simp add: apply_intent_def run_intent_def metadata_edit_def find_or_fail_def finish_intent_def op_defs Let_def)
  with intent_applied_is_stored [OF this] commit_ok(2) [OF c] show ?thesis by auto
qed

section \<open>Metadata intents keep the rows\<close>

text \<open>An answer whose rows are, id by id and in order, the rows that were loaded.\<close>

definition same_ids :: "StampedTasks \<Rightarrow> (World, TaskError, Applied) op \<Rightarrow> bool" where
  "same_ids s m \<longleftrightarrow>
    (\<forall>w a w'. m w = (Inr a, w') \<longrightarrow> map record_id (applied_records a) = map record_id (stamped_records s))"

named_theorems same_ids_intros \<open>answers with the loaded ids\<close>

lemma same_ids_basic [same_ids_intros]:
  "same_ids s (ok (unchanged_snapshot s))" "same_ids s (fail e)"
  by (simp_all add: same_ids_def op_defs)

lemma same_ids_andThen [same_ids_intros]: "(\<And>x. same_ids s (f x)) \<Longrightarrow> same_ids s (andThen m f)"
  by (fastforce simp: same_ids_def andThen_Inr)

lemma same_ids_cases [same_ids_intros]:
  "(b \<Longrightarrow> same_ids s m) \<Longrightarrow> (\<not> b \<Longrightarrow> same_ids s m') \<Longrightarrow> same_ids s (if b then m else m')"
  "same_ids s (g (fst q) (snd q)) \<Longrightarrow> same_ids s (case q of (a, b) \<Rightarrow> g a b)"
  "same_ids s (fe v) \<Longrightarrow> same_ids s (let z = v in fe z)"
  by (auto split: prod.splits)

lemma same_ids_finish [same_ids_intros]:
  assumes "map record_id rows = map record_id (stamped_records s)"
  shows "same_ids s (finish_intent E p rows persist)"
  unfolding same_ids_def
proof (intro allI impI)
  fix w a w'
  assume fin: "finish_intent E p rows persist w = (Inr a, w')"
  have "map record_id (applied_records a) = map record_id rows"
  proof (cases persist)
    case Commit
    with fin show ?thesis
      using commit_ok(1) [of E p rows w a w'] commit_removal_ok(1) [of E p w a w']
      by (auto simp: finish_intent_def split: if_splits)
  next
    case DecideOnly
    with fin show ?thesis by (auto simp: finish_intent_def decided_def ok_def)
  next
    case ViaHost
    with fin show ?thesis
      by (auto simp: finish_intent_def save_via_host_def Let_def split: option.splits prod.splits bool.splits)
  qed
  with assms show "map record_id (applied_records a) = map record_id (stamped_records s)" by simp
qed

lemma edits_keep_ids [same_ids_intros]:
  "map record_id (toggle_star rows t) = map record_id rows"
  "map record_id (rename_task rows t name) = map record_id rows"
  "map record_id (fst (archive rows ts n)) = map record_id rows"
  "map record_id (fst (unarchive rows ts)) = map record_id rows"
  "map record_id (fst (attach_session rows t family agent sid spath)) = map record_id rows"
  "map record_id (fst (set_worktree rows t path branch base)) = map record_id rows"
  "map record_id (fst (discard_worktree rows t)) = map record_id rows"
  "map record_id (fst (record_diff_stats rows t add del)) = map record_id rows"
  "map record_id (fst (normalize_after_boot rows live n dsh)) = map record_id rows"
  "map record_id (fst (edit_todo rows t prompt agent permission)) = map record_id rows"
  by (simp_all add: toggle_star_def rename_task_def archive_is_row_edit archive_edit.edit_rows_idents
      unarchive_def unarchive_edit.edit_rows_idents attach_session_def attach_edit.edit_rows_idents
      set_worktree_def set_worktree_edit.edit_rows_idents discard_worktree_def
      discard_worktree_edit.edit_rows_idents record_diff_stats_def diff_stats_edit.edit_rows_idents
      normalize_after_boot_def normalize_edit.edit_rows_idents edit_todo_def edit_todo_edit.edit_rows_idents)

lemmas metadata_defs = metadata_one_def metadata_edit_def metadata_batch_def run_rename_def
  normalize_after_boot_with_def

lemma metadata_shape:
  assumes "intent_kind intent = Some Metadata"
  shows "\<exists>body. run_intent E p intent persist = andThen (load E p) body \<and> (\<forall>s. same_ids s (body s))"
proof -
  have shape: "\<exists>body. m = andThen (load E p) body \<and> (\<forall>s. same_ids s (body s))"
    if "m = andThen (load E p) body" "\<And>s. same_ids s (body s)" for m body
    using that by blast
  show ?thesis
    using assms
    by (cases intent)
      (simp_all add: intent_kind_def TASK_INTENT_VOCABULARY_def run_intent_def metadata_defs,
       (rule shape, rule refl, intro same_ids_intros)+)
qed

text \<open>
  An intent of the metadata class (the ones that may be replayed once after a conflict) never
  adds, drops or reorders a task: whichever way its result is persisted, the rows it answers with
  carry, in order, the ids of the rows it loaded. Every intent is in the vocabulary, so the
  classification is total.
\<close>

theorem metadata_intents_keep_rows:
  assumes "load E p w = (Inr s, w1)" "run_intent E p intent persist w = (Inr a, w')"
  shows "intent_kind intent \<noteq> None \<and> (intent_kind intent = Some Metadata \<longrightarrow>
    map record_id (applied_records a) = map record_id (stamped_records s))"
proof
  show "intent_kind intent \<noteq> None"
    by (cases intent) (simp_all add: intent_kind_def TASK_INTENT_VOCABULARY_def)
  show "intent_kind intent = Some Metadata \<longrightarrow>
    map record_id (applied_records a) = map record_id (stamped_records s)"
  proof
    assume "intent_kind intent = Some Metadata"
    then obtain body where "run_intent E p intent persist = andThen (load E p) body"
      "\<forall>s. same_ids s (body s)" using metadata_shape by blast
    with assms show "map record_id (applied_records a) = map record_id (stamped_records s)"
      by (auto simp: andThen_Inr same_ids_def)
  qed
qed

section \<open>Deletion\<close>

text \<open>
  C10. Deletion removes exactly what may go: of the requested ids the starred ones are reported as
  skipped and the others as removed, no removed id names a row that is live, and the rows left are
  the loaded rows minus every row with a removed id, in order; so a starred or live row is never
  lost. When nothing is left the file itself is gone; when nothing was removed nothing is written.
\<close>

theorem delete_removes_only_requested:
  assumes "load E p w = (Inr s, w1)" "delete_with E p ts Commit w = (Inr del, w')"
  shows "removed del = filter (\<lambda>i. \<not> row_starred (stamped_records s) i) ts
    \<and> skipped_starred del = filter (row_starred (stamped_records s)) ts
    \<and> (\<forall>i. i \<in> set (removed del) \<longrightarrow> \<not> row_live (stamped_records s) i)
    \<and> map record_id (applied_records (deleted_applied del)) =
        map record_id (without_ids (removed del) (stamped_records s))
    \<and> (if removed del = [] then durable w' = durable w
       else stored E p (applied_records (deleted_applied del)) w')"
  using assms(2)
proof (cases rule: delete_with_ok)
  case (untouched s')
  then show ?thesis
    using assms(1) keepsD [OF keeps_load(3) assms(1)] by (auto simp: without_ids_def)
next
  case (deleted s' w1' w3)
  then have s: "s' = s" "w1' = w1" using assms(1) by auto
  have fin: "map record_id (applied_records (deleted_applied del)) =
      map record_id (without_ids (unstarred s ts) (stamped_records s))"
  proof -
    let ?s = "s\<lparr>stamped_records := without_ids (unstarred s ts) (stamped_records s)\<rparr>"
    have "same_ids ?s (finish_intent E p (stamped_records ?s) Commit)"
      by (intro same_ids_intros) simp
    with deleted(4) s show ?thesis by (auto simp: same_ids_def)
  qed
  have "applied_changed (deleted_applied del)"
    using deleted(4) commit_ok(2) commit_removal_ok(2) by (fastforce simp: finish_intent_def split: if_splits)
  with tells_finish [unfolded tells_def, rule_format, OF deleted(4)] deleted(5)
  have "stored E p (applied_records (deleted_applied del)) w'"
    by (simp add: told_def stored_def)
  with deleted s fin show ?thesis by (auto simp: filter_empty_conv)
qed

theorem delete_removes_only_requested_witness:
  "\<exists>del w'. delete_with (sample_service [sample_row ''a'' Done, fmupd ''starred'' (Bool True) (sample_row ''b'' Done)]
       None) ''p'' [''a'', ''b''] Commit sample_world = (Inr del, w')
     \<and> removed del = [''a''] \<and> skipped_starred del = [''b'']
     \<and> map record_id (applied_records (deleted_applied del)) = [Some ''b'']"
proof -
  let ?rows = "[sample_row ''a'' Done, fmupd ''starred'' (Bool True) (sample_row ''b'' Done)]"
  let ?E = "sample_service ?rows None" and ?w = "\<lambda>i l. sample_world\<lparr>disk := (disk sample_world)\<lparr>ios := i\<rparr>, ledger := l\<rparr>"
  obtain s i where l: "load ?E ''p'' sample_world = (Inr s, sample_world\<lparr>disk := (disk sample_world)\<lparr>ios := i\<rparr>\<rparr>)"
    and s: "stamped_records s = ?rows"
    using sample_load [of ?rows None "ledger sample_world"] by auto
  have star: "row_starred ?rows ''b''" "\<not> row_starred ?rows ''a''" "\<not> row_live ?rows ''a''"
    by (simp_all add: row_starred_def row_live_def as_bool_def unwrap_or_def)
  let ?l = "settle_deleted [''a''] (ledger sample_world)"
  have "writable ?E ''p'' (disk (?w i ?l))" using sample_writable [of ?rows None i] by simp
  then obtain a w' where c: "commit ?E ''p'' (without_ids [''a''] ?rows) (?w i ?l) = (Inr a, w')"
    using commit_goes_through by blast
  have "\<exists>del w'. delete_with ?E ''p'' [''a'', ''b''] Commit sample_world = (Inr del, w')"
    using l s star c
    by (simp add: delete_with_def op_defs Let_def with_ledger_def finish_intent_def without_ids_def
        forget_projects_def)
  then obtain del w'' where d: "delete_with ?E ''p'' [''a'', ''b''] Commit sample_world = (Inr del, w'')" by blast
  from delete_removes_only_requested [OF l d] s star d show ?thesis
    by (auto simp: without_ids_def)
qed

end
