(* ===== verification/TaskRunProps.thy ===== *)
theory TaskRunProps
  imports TaskServiceProps
begin

text \<open>
  What starting, resuming and observing guarantee: persist before spawn, one spawn per attempt,
  one settlement per run, and what a failed launch leaves behind.
\<close>

section \<open>Decomposition\<close>

lemma andThenE:
  assumes "andThen m f s = (res, s')"
  obtains e where "m s = (Inl e, s')" "res = Inl e"
  | a t where "m s = (Inr a, t)" "f a t = (res, s')"
  using assms by (auto simp: andThen_def split: prod.splits sum.splits)

lemma onErrorE:
  assumes "onError m h s = (res, s')"
  obtains a where "m s = (Inr a, s')" "res = Inr a"
  | e t where "m s = (Inl e, t)" "h e t = (res, s')"
  using assms by (auto simp: onError_def split: prod.splits sum.splits)

lemma keeps_settle_claim [keeps_intros]: "keeps calls (settle_claim E t kind k)"
  unfolding settle_claim_def by (intro keeps_intros)

lemma keeps_acknowledge [keeps_intros]: "keeps calls (service_acknowledge E t)"
  unfolding service_acknowledge_def by (intro keeps_intros)

lemma keeps_check_target [keeps_intros]:
  "keeps calls (check_target_shape E project t att)" "keeps ledger (check_target_shape E project t att)"
  "keeps durable (check_target_shape E project t att)"
  unfolding check_target_shape_def Let_def by (intro keeps_intros)+

lemma best_effort_total: "best_effort m w = (Inr (), snd (m w))"
  by (simp add: best_effort_def)

lemma settle_claim_total:
  "\<exists>w'. settle_claim E t kind k w = (Inr (), w') \<and> ledger w' = fst (settle (ledger w) t kind k)"
proof -
  have "ledger (snd (ledger_persist E v)) = ledger v" for v
    using keeps_ledger_persist(2) by (simp add: keeps_def)
  then show ?thesis
    by (simp add: settle_claim_def with_ledger_def op_defs best_effort_total split: prod.splits)
qed

lemma acknowledge_total:
  "\<exists>b w'. service_acknowledge E t w = (Inr b, w') \<and> ledger w' = fst (acknowledge (ledger w) t)
    \<and> files (disk w') = files (disk w) \<and> runtime_file (disk w') = runtime_file (disk w)
    \<and> ledger_file w' \<in> {ledger_file w, HasLedger (ledger w')}"
proof -
  have "ledger (snd (ledger_persist E v)) = ledger v \<and> files (disk (snd (ledger_persist E v))) = files (disk v)
      \<and> runtime_file (disk (snd (ledger_persist E v))) = runtime_file (disk v)
      \<and> ledger_file (snd (ledger_persist E v)) \<in> {ledger_file v, HasLedger (ledger v)}" for v
    by (auto simp: ledger_persist_def andThen_def on_disk_def require_writer_def io_step_def ok_def fail_def
        split: option.splits)
  from this [of "w\<lparr>ledger := fst (acknowledge (ledger w) t)\<rparr>"] show ?thesis
    by (auto simp: service_acknowledge_def with_ledger_def op_defs best_effort_total split: prod.splits)
qed

text \<open>Taking a claim: a retry changes nothing, a new attempt gets the next run number.\<close>

abbreviation new_claim :: "Service \<Rightarrow> string \<Rightarrow> OperationKind \<Rightarrow> string \<Rightarrow> OperationLedger \<Rightarrow> Claim" where
  "new_claim E t kind k l \<equiv> \<lparr>claim_task = t, claim_kind = kind, operation_key = k,
     claim_generation = peek_generation l t + 1, claimed_at_ms = service_now E\<rparr>"

definition claimed_ledger :: "Service \<Rightarrow> string \<Rightarrow> OperationKind \<Rightarrow> string \<Rightarrow> OperationLedger \<Rightarrow> OperationLedger" where
  "claimed_ledger E t kind k l = l\<lparr>claims := claims l @ [new_claim E t kind k l],
     generations := fmupd t (peek_generation l t + 1) (generations l)\<rparr>"

lemma claim_run_cases:
  "claim_run E t kind k l = (case open_claim l t kind k of
      Some c \<Rightarrow> (l, peek_generation l t, Duplicate c)
    | None \<Rightarrow> (claimed_ledger E t kind k l, peek_generation l t + 1, New (new_claim E t kind k l)))"
  by (auto simp: claim_run_def next_generation_def claim_attempt_cases open_claim_def claimed_ledger_def Let_def
      split: option.splits)

abbreviation project_key :: "Record \<Rightarrow> string" where
  "project_key project \<equiv> unwrap_or (record_id project) []"

abbreviation prepared_rows :: "StampedTasks \<Rightarrow> string \<Rightarrow> Record \<Rightarrow> OperationKind \<Rightarrow> Record list" where
  "prepared_rows s t r kind \<equiv> fst (update_record (stamped_records s) t (\<lambda>_. prepare_for_launch r kind))"

text \<open>Nothing happened but reading.\<close>

definition untouched :: "World \<Rightarrow> World \<Rightarrow> bool" where
  "untouched w w' \<longleftrightarrow> calls w' = calls w \<and> ledger w' = ledger w \<and> durable w' = durable w"

definition reads :: "(World, TaskError, 'a) op \<Rightarrow> bool" where
  "reads m \<longleftrightarrow> (\<forall>w. untouched w (snd (m w)))"

lemma readsD: "reads m \<Longrightarrow> m w = (r, w') \<Longrightarrow> untouched w w'"
  by (metis reads_def snd_conv)

lemma reads_keeps: "keeps calls m \<Longrightarrow> keeps ledger m \<Longrightarrow> keeps durable m \<Longrightarrow> reads m"
  by (simp add: reads_def untouched_def keeps_def)

lemma untouched_trans: "untouched u v \<Longrightarrow> untouched v w \<Longrightarrow> untouched u w"
  by (simp add: untouched_def)

lemma reads_guards: "reads (load E p)" "reads (find_or_fail p t s)" "reads (check_target_shape E project t att)"
  by (rule reads_keeps; rule keeps_intros)+

text \<open>Either the attempt was refused with nothing touched, or its claim is taken and the launch runs.\<close>

lemma begin_head:
  assumes "begin_under_lock E project t k kind pb att persist spawn w = (res, w')"
  obtains (refused) e where "res = Inl e" "untouched w w'"
  | (claimed) s w1 r w2 where "load E (project_key project) w = (Inr s, w1)"
      "find_row (stamped_records s) t = Some r" "open_claim (ledger w) t kind k = None"
      "ledger w2 = claimed_ledger E t kind k (ledger w)" "durable w2 = durable w" "calls w2 = calls w"
      "launch_claimed E project t k kind pb persist spawn s r (peek_generation (ledger w) t + 1) w2 = (res, w')"
proof (cases "is_addressable project")
  case False
  with assms refused show thesis by (auto simp: begin_under_lock_def fail_def untouched_def)
next
  case True
  note run = assms [unfolded begin_under_lock_def Let_def, simplified True not_True_eq_False if_False]
  from run show thesis
  proof (cases rule: andThenE)
    case (1 e)
    with readsD [OF reads_guards(1) 1(1)] refused show thesis by simp
  next
    case l: (2 s w1)
    note u1 = readsD [OF reads_guards(1) l(1)]
    from l(2) show thesis
    proof (cases rule: andThenE)
      case (1 e)
      with untouched_trans [OF u1 readsD [OF reads_guards(2) 1(1)]] refused show thesis by simp
    next
      case f: (2 r w1a)
      then have r: "find_row (stamped_records s) t = Some r" "w1a = w1"
        by (auto simp: find_or_fail_def op_defs split: option.splits)
      from f(2) show thesis
      proof (cases rule: andThenE)
        case (1 e)
        with r untouched_trans [OF u1, of w'] readsD [OF reads_guards(3) 1(1)] refused show thesis by simp
      next
        case c: (2 u w1b)
        with r have u: "untouched w w1b" using untouched_trans [OF u1] readsD [OF reads_guards(3) c(1)] by simp
        then have led: "ledger w1b = ledger w" by (simp add: untouched_def)
        show thesis
        proof (cases "open_claim (ledger w) t kind k")
          case (Some dup)
          with c(2) led u refused show thesis
            by (auto simp: with_ledger_def claim_run_cases op_defs untouched_def durable_def)
        next
          case None
          with c(2) led have "launch_claimed E project t k kind pb persist spawn s r
              (peek_generation (ledger w) t + 1) (w1b\<lparr>ledger := claimed_ledger E t kind k (ledger w)\<rparr>) = (res, w')"
            by (simp add: with_ledger_def claim_run_cases andThen_def [of "with_ledger _"])
          with claimed [OF l(1) r(1) None, of "w1b\<lparr>ledger := claimed_ledger E t kind k (ledger w)\<rparr>"] u
          show thesis by (simp add: untouched_def durable_def)
        qed
      qed
    qed
  qed
qed

lemma launch_cases:
  assumes "launch_claimed E project t k kind pb persist spawn s r g w2 = (res, w')"
  obtains (unsaved) e w3 where
      "persist_launch E (project_key project) (prepared_rows s t r kind) persist w2 = (Inl e, w3)"
      "settle_claim E t kind k w3 = (Inr (), w')" "res = Inl (refusal e)"
  | (spawned) a w3 b w4 sr w5 where
      "persist_launch E (project_key project) (prepared_rows s t r kind) persist w2 = (Inr a, w3)"
      "(if kind = Start then service_acknowledge E t else ok False) w3 = (Inr b, w4)"
      "spawn (prepare_for_launch r kind) project g w4 = (sr, w5)"
      "case sr of
         Inl e \<Rightarrow> res = Inl e \<and> settle_claim E t kind k w5 = (Inr (), w')
       | Inr _ \<Rightarrow> res = Inr a \<and> (if pb then w' = w5 else settle_claim E t kind k w5 = (Inr (), w'))"
proof -
  have total: "\<exists>v'. settle_claim E t kind k v = (Inr (), v')" "\<exists>b v'. service_acknowledge E t v = (Inr b, v')" for v
    using settle_claim_total acknowledge_total by blast+
  note run = assms [unfolded launch_claimed_def Let_def]
  obtain pr w3 where p: "persist_launch E (project_key project) (prepared_rows s t r kind) persist w2 = (pr, w3)"
    by fastforce
  show thesis
  proof (cases pr)
    case (Inl e)
    obtain v where "settle_claim E t kind k w3 = (Inr (), v)" using total(1) by blast
    with run p Inl unsaved show thesis by (simp add: op_defs onError_def)
  next
    case (Inr a)
    obtain b w4 where b: "(if kind = Start then service_acknowledge E t else ok False) w3 = (Inr b, w4)"
      using total(2) [of w3] by (cases "kind = Start") (auto simp: ok_def)
    obtain sr w5 where sp: "spawn (prepare_for_launch r kind) project g w4 = (sr, w5)" by fastforce
    obtain v where v: "settle_claim E t kind k w5 = (Inr (), v)" using total(1) by blast
    from run p Inr b sp v spawned [OF _ b sp] show thesis
      by (cases sr) (auto simp: op_eval onError_def ok_def fail_def andThen_def split: if_splits)
  qed
qed

section \<open>Persist, then spawn, once\<close>

lemma find_snoc: "List.find P xs = None \<Longrightarrow> P x \<Longrightarrow> List.find P (xs @ [x]) = Some x"
  by (induction xs) (auto split: if_splits)

lemma open_claimed:
  "open_claim l t kind k = None \<Longrightarrow> open_claim (claimed_ledger E t kind k l) t kind k = Some (new_claim E t kind k l)"
  by (simp add: open_claim_def claimed_ledger_def find_snoc claim_key_def)

lemma open_settled: "open_claim (fst (settle l t kind k)) t kind k = None"
  by (auto simp: open_claim_def settle_def Let_def find_None_iff)

lemma open_acknowledged [simp]: "open_claim (fst (acknowledge l t')) t kind k = open_claim l t kind k"
  by (simp add: open_claim_def acknowledge_def Let_def)

lemma peek_claimed: "peek_generation (claimed_ledger E t kind k l) t = peek_generation l t + 1"
  by (simp add: claimed_ledger_def peek_generation_def)

lemma find_prepared:
  assumes "find_row rows t = Some r" "peek_generation l t = g"
  shows "\<exists>r'. find_row (stamp_generation_copies l (fst (update_record rows t (\<lambda>_. prepare_for_launch r kind)))) t
      = Some r' \<and> get r' ''status'' = Some (status_value Pending) \<and> get r' ''generation'' = Some (String (decimal g))"
proof -
  have i: "record_id r = Some t" using find_row_Some [OF assms(1)] by simp
  have p: "record_id (prepare_for_launch r kind) = Some t" "get (prepare_for_launch r kind) ''status'' = Some (status_value Pending)"
    using i by (simp_all add: prepare_for_launch_def Let_def record_id_def str_field_def get_def)
  have u: "find_row (fst (update_record rows t (\<lambda>_. prepare_for_launch r kind))) t = Some (prepare_for_launch r kind)"
    using assms(1) p(1) by (induction rows) (auto split: prod.splits if_splits)
  show ?thesis
    unfolding stamp_generation_copies_def
    by (subst find_row_map)
      (use u p assms(2) in \<open>auto simp: Let_def get_def record_id_def str_field_def split: option.splits\<close>)
qed

text \<open>The run a call to the executor starts, if it starts one.\<close>

fun call_run :: "ExecutorCall \<Rightarrow> nat option" where
  "call_run (CallLaunch q) = Some (lr_generation q)"
| "call_run (CallResume q) = Some (rr_generation q)"
| "call_run _ = None"

text \<open>
  A logged call made with everything already on disk: run \<open>g\<close> of the task, the project's file
  holding the task's row as \<open>pending\<close> with that run number, the ledger file holding the open claim.
\<close>

definition launched_safely ::
  "Service \<Rightarrow> string \<Rightarrow> string \<Rightarrow> OperationKind \<Rightarrow> string \<Rightarrow> nat \<Rightarrow> ExecutorCall \<times> Disk \<times> LedgerFile \<Rightarrow> bool" where
  "launched_safely E p t kind k g entry \<longleftrightarrow> (case entry of (c, d, lf) \<Rightarrow>
     call_run c = Some g
     \<and> (\<exists>l cl. lf = HasLedger l \<and> open_claim l t kind k = Some cl \<and> claim_generation cl = g)
     \<and> (\<exists>rows r. fmlookup (files d) (tasks_path p) = Some (to_pretty (store E) (Array (map Object rows)))
          \<and> find_row rows t = Some r \<and> get r ''status'' = Some (status_value Pending)
          \<and> get r ''generation'' = Some (String (decimal g))))"

text \<open>What the service asks of the function that turns a prepared row into a process.\<close>

locale run_spawner =
  fixes spawn :: spawner
  assumes spawn_logs: "spawn r project g w = (sr, w') \<Longrightarrow>
      (calls w' = calls w \<and> isl sr) \<or> (\<exists>c. calls w' = calls w @ [(c, disk w, ledger_file w)] \<and> call_run c = Some g)"
    and spawn_quiet: "spawn r project g w = (Inr u, w') \<Longrightarrow> ledger w' = ledger w"
begin

lemma launch_contract:
  assumes run: "launch_claimed E project t k kind pb Commit spawn s r g w2 = (res, w')"
    and row: "find_row (stamped_records s) t = Some r"
    and claim: "open_claim (ledger w2) t kind k = Some cl" "claim_generation cl = g" "peek_generation (ledger w2) t = g"
  shows "(calls w' = calls w2 \<and> isl res)
      \<or> (\<exists>entry. calls w' = calls w2 @ [entry] \<and> launched_safely E (project_key project) t kind k g entry)"
    and "open_claim (ledger w') t kind k \<noteq> None \<longleftrightarrow> \<not> isl res \<and> pb"
proof -
  note sc = keepsD [OF keeps_settle_claim]
  have st: "settle_claim E t kind k v = (Inr (), v') \<Longrightarrow> open_claim (ledger v') t kind k = None" for v v'
    using settle_claim_total [of E t kind k v] open_settled by fastforce
  have "((calls w' = calls w2 \<and> isl res)
      \<or> (\<exists>entry. calls w' = calls w2 @ [entry] \<and> launched_safely E (project_key project) t kind k g entry))
    \<and> (open_claim (ledger w') t kind k \<noteq> None \<longleftrightarrow> \<not> isl res \<and> pb)"
    using run
  proof (cases rule: launch_cases)
    case (unsaved e w3)
    with keepsD [OF keeps_persist_launch(1) unsaved(1)] sc [OF unsaved(2)] st show ?thesis by simp
  next
    case (spawned a w3 b w4 sr w5)
    then have c: "commit E (project_key project) (prepared_rows s t r kind) w2 = (Inr a, w3)"
      by (simp add: persist_launch_def)
    note w3 = commit_ok [OF c] keepsD [OF keeps_commit(1) c] keepsD [OF keeps_commit(2) c]
    obtain l where l: "ledger_file w4 = HasLedger l" "open_claim l t kind k = Some cl"
        "ledger w4 = ledger w3 \<or> ledger w4 = fst (acknowledge (ledger w3) t)"
        "files (disk w4) = files (disk w3)" "calls w4 = calls w3"
      using spawned(2) acknowledge_total [of E t w3] w3(4,7) claim(1) keepsD [OF keeps_acknowledge, of E t w3]
      by (cases "kind = Start") (auto simp: ok_def)
    have safe: "launched_safely E (project_key project) t kind k g (q, disk w4, ledger_file w4)" if "call_run q = Some g" for q
      using l that w3(5,1) claim find_prepared [OF row claim(3), of kind] by (auto simp: launched_safely_def)
    show ?thesis
    proof (cases sr)
      case (Inl e)
      with spawned(4) have "res = Inl e" "settle_claim E t kind k w5 = (Inr (), w')" by simp_all
      with spawn_logs [OF spawned(3)] safe l(5) w3(6) sc st show ?thesis by fastforce
    next
      case (Inr u)
      with spawn_quiet spawned(3) have "ledger w5 = ledger w4" by simp
      with l(3) claim w3(7) have "open_claim (ledger w5) t kind k \<noteq> None" by auto
      moreover obtain q where "calls w5 = calls w4 @ [(q, disk w4, ledger_file w4)]" "call_run q = Some g"
        using spawn_logs [OF spawned(3)] Inr by auto
      ultimately show ?thesis
        using Inr spawned(4) safe l(5) w3(6) sc st by (cases pb) fastforce+
    qed
  qed
  then show "(calls w' = calls w2 \<and> isl res)
      \<or> (\<exists>entry. calls w' = calls w2 @ [entry] \<and> launched_safely E (project_key project) t kind k g entry)"
    "open_claim (ledger w') t kind k \<noteq> None \<longleftrightarrow> \<not> isl res \<and> pb" by blast+
qed

lemma begin_contract:
  assumes "begin_under_lock E project t k kind pb att Commit spawn w = (res, w')"
  shows "(calls w' = calls w \<and> isl res)
      \<or> (\<exists>entry. calls w' = calls w @ [entry] \<and> open_claim (ledger w) t kind k = None
           \<and> launched_safely E (project_key project) t kind k (peek_generation (ledger w) t + 1) entry)"
    and "open_claim (ledger w) t kind k = None \<longrightarrow> (open_claim (ledger w') t kind k \<noteq> None \<longleftrightarrow> \<not> isl res \<and> pb)"
    and "open_claim (ledger w) t kind k \<noteq> None \<longrightarrow> isl res \<and> untouched w w'"
proof -
  have "((calls w' = calls w \<and> isl res)
      \<or> (\<exists>entry. calls w' = calls w @ [entry] \<and> open_claim (ledger w) t kind k = None
           \<and> launched_safely E (project_key project) t kind k (peek_generation (ledger w) t + 1) entry))
    \<and> (open_claim (ledger w) t kind k = None \<longrightarrow> (open_claim (ledger w') t kind k \<noteq> None \<longleftrightarrow> \<not> isl res \<and> pb))
    \<and> (open_claim (ledger w) t kind k \<noteq> None \<longrightarrow> isl res \<and> untouched w w')"
    using assms
  proof (cases rule: begin_head)
    case (refused e)
    then show ?thesis by (simp add: untouched_def)
  next
    case (claimed s w1 r w2)
    then have "open_claim (ledger w2) t kind k = Some (new_claim E t kind k (ledger w))"
      "peek_generation (ledger w2) t = peek_generation (ledger w) t + 1"
      by (simp_all add: open_claimed peek_claimed)
    from launch_contract [OF claimed(7,2) this(1) _ this(2)] claimed(3,6) show ?thesis by simp
  qed
  then show "(calls w' = calls w \<and> isl res)
      \<or> (\<exists>entry. calls w' = calls w @ [entry] \<and> open_claim (ledger w) t kind k = None
           \<and> launched_safely E (project_key project) t kind k (peek_generation (ledger w) t + 1) entry)"
    "open_claim (ledger w) t kind k = None \<longrightarrow> (open_claim (ledger w') t kind k \<noteq> None \<longleftrightarrow> \<not> isl res \<and> pb)"
    "open_claim (ledger w) t kind k \<noteq> None \<longrightarrow> isl res \<and> untouched w w'" by blast+
qed

end

lemma keeps_abandon [keeps_intros]: "keeps calls (abandon_launch E r failure kind k persist)"
  unfolding abandon_launch_def Let_def by (intro keeps_intros)

lemma logged_then:
  assumes "andThen (log_call c) (\<lambda>_. case failure of None \<Rightarrow> ok () | Some f \<Rightarrow> andThen (m f) fail) w = (sr, w')"
    and "\<And>f. keeps calls (m f)"
  shows "calls w' = calls w @ [(c, disk w, ledger_file w)]" "\<not> isl sr \<Longrightarrow> ledger w' = ledger w"
proof -
  let ?w = "w\<lparr>calls := calls w @ [(c, disk w, ledger_file w)]\<rparr>"
  have "keeps calls (andThen (m f) fail :: (World, TaskError, unit) op)" for f
    by (intro keeps_andThen assms(2) keeps_fail)
  note keep = keepsD [OF this]
  have run: "(case failure of None \<Rightarrow> ok () | Some f \<Rightarrow> andThen (m f) fail) ?w = (sr, w')"
    using assms(1) by (simp add: andThen_def [of "log_call c"] log_call_def)
  show "calls w' = calls w @ [(c, disk w, ledger_file w)]"
    using run keep by (cases failure) (auto simp: ok_def)
  show "ledger w' = ledger w" if "\<not> isl sr"
  proof (cases failure)
    case None
    with run show ?thesis by (auto simp: ok_def)
  next
    case (Some f)
    with run that show ?thesis by (auto simp: andThen_def fail_def split: prod.splits sum.splits)
  qed
qed

lemma planned_spawn:
  assumes "(case plan of None \<Rightarrow> fail e | Some q \<Rightarrow> andThen (log_call (c q)) (\<lambda>_.
      case ex q of None \<Rightarrow> ok () | Some f \<Rightarrow> andThen (m f) fail)) w = (sr, w')"
    and "\<And>f. keeps calls (m f)" "\<And>q. plan = Some q \<Longrightarrow> call_run (c q) = Some g"
  shows "((calls w' = calls w \<and> isl sr) \<or> (\<exists>c. calls w' = calls w @ [(c, disk w, ledger_file w)] \<and> call_run c = Some g))
    \<and> (\<not> isl sr \<longrightarrow> ledger w' = ledger w)"
proof (cases plan)
  case None
  with assms(1) show ?thesis by (auto simp: fail_def)
next
  case (Some q)
  with assms(1) have "andThen (log_call (c q)) (\<lambda>_. case ex q of None \<Rightarrow> ok () | Some f \<Rightarrow> andThen (m f) fail) w = (sr, w')"
    by simp
  from logged_then [OF this assms(2)] assms(3) [OF Some] show ?thesis by blast
qed

lemma launch_request_run: "launch_request u r project fam k g im tx inject po dw = Some q \<Longrightarrow> lr_generation q = g"
  by (auto simp: launch_request_def Let_def bind_eq_Some_conv)

lemma resume_request_run: "resume_request u r project fam k g sid = Some q \<Longrightarrow> rr_generation q = g"
  by (auto simp: resume_request_def Let_def bind_eq_Some_conv)

interpretation start_spawner: run_spawner "spawn_start E k prompt inject att facts persist"
  for E k prompt inject att facts persist
proof
  fix r project g w sr w'
  assume run: "spawn_start E k prompt inject att facts persist r project g w = (sr, w')"
  note both = planned_spawn [OF run [unfolded spawn_start_def Let_def] keeps_abandon, of g]
  show "(calls w' = calls w \<and> isl sr) \<or> (\<exists>c. calls w' = calls w @ [(c, disk w, ledger_file w)] \<and> call_run c = Some g)"
    using both launch_request_run by simp
next
  fix r project g w u w'
  assume run: "spawn_start E k prompt inject att facts persist r project g w = (Inr u, w')"
  show "ledger w' = ledger w"
    using planned_spawn [OF run [unfolded spawn_start_def Let_def] keeps_abandon, of g] launch_request_run by simp
qed

interpretation resume_spawner: run_spawner "spawn_resume E sid k term_size persist"
  for E sid k term_size persist
proof
  fix r project g w sr w'
  assume run: "spawn_resume E sid k term_size persist r project g w = (sr, w')"
  show "(calls w' = calls w \<and> isl sr) \<or> (\<exists>c. calls w' = calls w @ [(c, disk w, ledger_file w)] \<and> call_run c = Some g)"
    using planned_spawn [OF run [unfolded spawn_resume_def Let_def] keeps_abandon, of g] resume_request_run by simp
next
  fix r project g w u w'
  assume run: "spawn_resume E sid k term_size persist r project g w = (Inr u, w')"
  show "ledger w' = ledger w"
    using planned_spawn [OF run [unfolded spawn_resume_def Let_def] keeps_abandon, of g] resume_request_run by simp
qed

text \<open>
  C2. Starting a task persists, then spawns, and spawns at most once. Either nothing was launched
  and the call failed, or the executor was called exactly once, for the next run number, at a moment
  when the project's file already held the row as \<open>pending\<close> with that run number and the ledger file
  already held the open claim; a launch is only ever made for an attempt that was not yet claimed. An
  attempt already claimed is refused with nothing touched. Afterwards the claim is open exactly when the
  start succeeded and waits for the process (\<open>persist_before_launch\<close>): no failure leaves it open.
\<close>

theorem start_persists_then_spawns_once:
  assumes "start E project t k pb prompt inject att facts w = (res, w')"
  shows "((calls w' = calls w \<and> isl res)
      \<or> (\<exists>entry. calls w' = calls w @ [entry] \<and> open_claim (ledger w) t Start k = None
           \<and> launched_safely E (unwrap_or (record_id project) []) t Start k (peek_generation (ledger w) t + 1) entry))
    \<and> (open_claim (ledger w) t Start k \<noteq> None \<longrightarrow> isl res \<and> untouched w w')
    \<and> (open_claim (ledger w) t Start k = None \<longrightarrow>
         (open_claim (ledger w') t Start k \<noteq> None \<longleftrightarrow> \<not> isl res \<and> pb))"
  using start_spawner.begin_contract [OF assms [unfolded start_def start_as_def]] by blast

lemma writable_ios [simp]: "writable E p (d\<lparr>ios := i\<rparr>) = writable E p d"
  unfolding writable_def no_temporaries_def covered_def by (simp cong: option.case_cong RuntimeFile.case_cong)

lemma launch_goes_through:
  assumes "writable E (project_key project) (disk w2)"
    and spawn: "\<And>w4. \<exists>w5. spawn (prepare_for_launch r kind) project g w4 = (Inr (), w5)"
  shows "\<exists>a w'. launch_claimed E project t k kind pb Commit spawn s r g w2 = (Inr a, w')"
proof -
  obtain a w3 where c: "commit E (project_key project) (prepared_rows s t r kind) w2 = (Inr a, w3)"
    using commit_goes_through [OF assms(1)] by blast
  obtain b w4 where b: "(if kind = Start then service_acknowledge E t else ok False) w3 = (Inr b, w4)"
    using acknowledge_total [of E t w3] by (cases "kind = Start") (auto simp: ok_def)
  obtain w5 where "spawn (prepare_for_launch r kind) project g w4 = (Inr (), w5)" using spawn by blast
  moreover obtain v where "settle_claim E t kind k w5 = (Inr (), v)" using settle_claim_total by blast
  ultimately show ?thesis
    using c b by (simp add: launch_claimed_def Let_def persist_launch_def op_defs onError_def)
qed

lemma start_succeeds:
  assumes "writable E (unwrap_or (record_id project) []) (disk w)"
    and "fmlookup (files (disk w)) (tasks_path (unwrap_or (record_id project) [])) = Some bytes"
    and "from_slice (store E) bytes = Some (Array (map Object rows))"
    and "find_row rows t = Some r" "str_field r ''projectId'' \<noteq> None"
    and "is_addressable project" "is_local (resolve_location project)"
    and "open_claim (ledger w) t Start k = None" "\<forall>q. exec_launch E q = None"
  shows "\<exists>a w'. start E project t k pb prompt inject att facts w = (Inr a, w')"
proof -
  let ?p = "project_key project"
  have "no_faults (store E)" "validate_id ?p = None" using assms(1) by (simp_all add: writable_def)
  from load_goes_through [OF this assms(2,3)] obtain s i where l: "load E ?p w = (Inr s, w\<lparr>disk := (disk w)\<lparr>ios := i\<rparr>\<rparr>)"
    and s: "stamped_records s = rows" by auto
  let ?w = "w\<lparr>disk := (disk w)\<lparr>ios := i\<rparr>, ledger := claimed_ledger E t Start k (ledger w)\<rparr>"
  let ?g = "peek_generation (ledger w) t + 1" and ?r = "prepare_for_launch r Start"
  have "str_field ?r ''id'' \<noteq> None" "str_field ?r ''projectId'' \<noteq> None"
    using assms(5) find_row_Some [OF assms(4)]
    by (simp_all add: prepare_for_launch_def Let_def str_field_def get_def record_id_def)
  then have "\<exists>q. launch_request (linked_usable E) ?r project (families E) k ?g (att_images att) (att_texts att) inject
      prompt (dsh_facts facts) = Some q"
    using assms(6) by (auto simp: launch_request_def working_directory_def Let_def split: ProjectTarget.splits)
  then have "\<exists>w5. spawn_start E k prompt inject att facts Commit ?r project ?g w4 = (Inr (), w5)" for w4
    using assms(9) by (auto simp: spawn_start_def log_call_def op_defs)
  moreover have "writable E ?p (disk ?w)" using assms(1) by simp
  ultimately obtain a w' where "launch_claimed E project t k Start pb Commit
      (spawn_start E k prompt inject att facts Commit) s r ?g ?w = (Inr a, w')"
    using launch_goes_through by blast
  then show ?thesis
    using l s assms(4,6-8)
    by (simp add: start_def start_as_def begin_under_lock_def Let_def op_defs find_or_fail_def
        check_target_shape_def with_ledger_def claim_run_cases)
qed

text \<open>
  C9. Nothing the service itself does makes a start fail: for a local project whose task file is
  readable and holds the task, a data directory that can be written (lease held, cover current, run
  counter not exhausted, no file fault), an attempt not yet claimed and an executor that accepts the
  launch, \<open>start\<close> returns success.
\<close>

theorem start_goes_through:
  assumes "writable E (unwrap_or (record_id project) []) (disk w)"
    and "fmlookup (files (disk w)) (tasks_path (unwrap_or (record_id project) [])) = Some bytes"
    and "from_slice (store E) bytes = Some (Array (map Object rows))"
    and "find_row rows t = Some r" "str_field r ''projectId'' \<noteq> None"
    and "is_addressable project" "is_local (resolve_location project)"
    and "open_claim (ledger w) t Start k = None" "\<forall>q. exec_launch E q = None"
  shows "\<exists>a w'. start E project t k pb prompt inject att facts w = (Inr a, w')"
  by (rule start_succeeds [OF assms])

text \<open>A project and a task row for the concrete instances.\<close>

definition sample_project :: Record where
  "sample_project = fmupd ''id'' (String ''p'') fmempty"

definition sample_task :: "string \<Rightarrow> TaskStatus \<Rightarrow> Record" where
  "sample_task t st = fmupd ''projectId'' (String ''p'') (sample_row t st)"

lemma sample_project_simps [simp]:
  "record_id sample_project = Some ''p''" "is_addressable sample_project" "is_local (resolve_location sample_project)"
  by (simp_all add: sample_project_def is_addressable_def is_local_def resolve_location_def record_id_def str_field_def
      get_def)

lemma sample_task_simps [simp]:
  "record_id (sample_task t st) = Some t" "str_field (sample_task t st) ''projectId'' = Some ''p''"
  by (simp_all add: sample_task_def sample_row_def record_id_def str_field_def get_def)

lemma sample_writable' [simp]: "writable (sample_service rows f) ''p'' (disk sample_world)"
  using sample_writable [of rows f "ios (disk sample_world)"] by simp

lemma sample_facts [simp]:
  "fmlookup (files (disk sample_world)) (tasks_path ''p'') = Some ''doc''"
  "from_slice (store (sample_service rows f)) b = Some (Array (map Object rows))"
  "exec_launch (sample_service rows f) q = f" "exec_resume (sample_service rows f) q' = f"
  by (simp_all add: sample_world_def sample_service_def sample_store_def)

lemma sample_open [simp]: "open_claim (ledger sample_world) t kind k = None"
  by (simp add: sample_world_def open_claim_def ledger_empty_def)

theorem start_goes_through_witness:
  "\<exists>a w'. start (sample_service [sample_task ''a'' Todo] None) sample_project ''a'' ''k'' True None True
       \<lparr>att_images = [], att_texts = []\<rparr> \<lparr>terminal_size = None, dsh_facts = None\<rparr> sample_world
     = (Inr a, w')"
  by (rule start_goes_through [where bytes = "''doc''" and rows = "[sample_task ''a'' Todo]" and r = "sample_task ''a'' Todo"])
    simp_all

lemma sample_started:
  "\<exists>a w'. start (sample_service [sample_task ''a'' Todo] None) sample_project ''a'' ''k'' True None True att facts sample_world
     = (Inr a, w')"
  by (rule start_succeeds [where bytes = "''doc''" and rows = "[sample_task ''a'' Todo]" and r = "sample_task ''a'' Todo"])
    simp_all

theorem start_persists_then_spawns_once_witness:
  "\<exists>a w' entry. start (sample_service [sample_task ''a'' Todo] None) sample_project ''a'' ''k'' True None True
       \<lparr>att_images = [], att_texts = []\<rparr> \<lparr>terminal_size = None, dsh_facts = None\<rparr> sample_world = (Inr a, w')
     \<and> calls w' = [entry] \<and> launched_safely (sample_service [sample_task ''a'' Todo] None) ''p'' ''a'' Start ''k'' 1 entry
     \<and> open_claim (ledger w') ''a'' Start ''k'' \<noteq> None"
proof -
  have z: "calls sample_world = []" "peek_generation (ledger sample_world) ''a'' = 0"
    by (simp_all add: sample_world_def ledger_empty_def peek_generation_def)
  obtain a w' where "start (sample_service [sample_task ''a'' Todo] None) sample_project ''a'' ''k'' True None True
       \<lparr>att_images = [], att_texts = []\<rparr> \<lparr>terminal_size = None, dsh_facts = None\<rparr> sample_world = (Inr a, w')"
    using sample_started by blast
  with start_persists_then_spawns_once [OF this] z show ?thesis by auto
qed

lemma resume_head:
  assumes "resume E project t sid k pb term_size w = (res, w')"
  obtains (early) e where "res = Inl e" "untouched w w'"
  | (begun) w1 where "untouched w w1" "awaiting_acknowledgement (ledger w) t = None" "\<not> is_blank sid"
      "begin_under_lock E project t k Resume pb \<lparr>att_images = [], att_texts = []\<rparr> Commit
         (spawn_resume E sid k term_size Commit) w1 = (res, w')"
proof -
  obtain x w1 where l: "load E (project_key project) w = (x, w1)" by fastforce
  note u = readsD [OF reads_guards(1) l]
  then have "ledger w1 = ledger w" by (simp add: untouched_def)
  with assms l u early begun show thesis
    by (cases x) (auto simp: resume_def resume_as_def andThen_def ask_def fail_def split: if_splits)
qed

text \<open>
  C3. Resuming obeys the same contract as starting, and besides refuses, with nothing touched, a
  task cut off by a crash that nobody has acknowledged and a session id that is blank.
\<close>

theorem resume_persists_then_spawns_once:
  assumes "resume E project t sid k pb term_size w = (res, w')"
  shows "((calls w' = calls w \<and> isl res)
      \<or> (\<exists>entry. calls w' = calls w @ [entry] \<and> open_claim (ledger w) t Resume k = None
           \<and> launched_safely E (unwrap_or (record_id project) []) t Resume k (peek_generation (ledger w) t + 1) entry))
    \<and> (open_claim (ledger w) t Resume k \<noteq> None \<or> awaiting_acknowledgement (ledger w) t \<noteq> None \<or> is_blank sid
         \<longrightarrow> isl res \<and> untouched w w')
    \<and> (open_claim (ledger w) t Resume k = None \<longrightarrow>
         (open_claim (ledger w') t Resume k \<noteq> None \<longleftrightarrow> \<not> isl res \<and> pb))"
  using assms
proof (cases rule: resume_head)
  case (early e)
  then show ?thesis by (simp add: untouched_def)
next
  case (begun w1)
  then have "ledger w1 = ledger w" "calls w1 = calls w" by (simp_all add: untouched_def)
  with resume_spawner.begin_contract [OF begun(4)] begun(1-3) show ?thesis
    by (auto intro: untouched_trans)
qed

theorem resume_persists_then_spawns_once_witness:
  "\<exists>e w'. resume (sample_service [sample_task ''a'' Done] None) sample_project ''a'' '' '' ''k'' True None sample_world
     = (Inl e, w') \<and> untouched sample_world w'"
proof -
  obtain res w' where r: "resume (sample_service [sample_task ''a'' Done] None) sample_project ''a'' '' '' ''k'' True None
      sample_world = (res, w')" by fastforce
  have "is_blank '' ''" by code_simp
  with resume_persists_then_spawns_once [OF r] r show ?thesis by (cases res) auto
qed

section \<open>What a failed launch leaves\<close>

lemma keeps_settle_files [keeps_intros]: "keeps (\<lambda>w. files (disk w)) (settle_claim E t kind k)"
proof -
  have "keeps (\<lambda>w. files (disk w)) (ledger_persist E)"
    by (auto simp: keeps_def ledger_persist_def andThen_def on_disk_def require_writer_def io_step_def ok_def fail_def
        split: option.splits)
  moreover have "keeps (\<lambda>w. files (disk w)) (with_ledger f)" for f :: "OperationLedger \<Rightarrow> OperationLedger \<times> bool"
    by (simp add: keeps_def with_ledger_def split: prod.splits)
  ultimately show ?thesis unfolding settle_claim_def by (intro keeps_intros)
qed

lemma abandoned_single:
  "\<exists>r'. abandoned_rows current r kind t reason n = [r']"
  by (simp add: abandoned_rows_def transition_records)

text \<open>
  C11. A failed launch loses the rest of the project: \<open>abandon_launch\<close> hands the transition a list of
  the one rolled-back row and commits the result, so in a writable data directory the project's file
  afterwards holds exactly one row, whatever other tasks it held before.
\<close>

theorem failed_launch_keeps_one_row:
  assumes "abandon_launch E r failure kind k Commit w = (res, w')"
    and "str_field r ''projectId'' = Some p" "record_id r = Some t"
    and "writable E p (disk w)" "fmlookup (files (disk w)) (tasks_path p) = Some bytes"
    and "from_slice (store E) bytes = Some (Array (map Object rows))" "find_row rows t \<noteq> None"
  shows "\<exists>r'. fmlookup (files (disk w')) (tasks_path p) = Some (to_pretty (store E) (Array [Object r']))"
proof -
  have nf: "no_faults (store E)" "validate_id p = None" using assms(4) by (simp_all add: writable_def)
  from load_goes_through [OF nf assms(5,6)] obtain s i where
    l: "load E p w = (Inr s, w\<lparr>disk := (disk w)\<lparr>ios := i\<rparr>\<rparr>)" and s: "stamped_records s = rows" by auto
  obtain current where c: "find_row rows t = Some current" using assms(7) by blast
  obtain r1 where r1: "abandoned_rows current r kind t (failure_text failure) (service_now E) = [r1]"
    using abandoned_single by blast
  have "writable E p (disk (w\<lparr>disk := (disk w)\<lparr>ios := i\<rparr>\<rparr>))" using assms(4) by simp
  then obtain a w2 where cm: "commit E p [r1] (w\<lparr>disk := (disk w)\<lparr>ios := i\<rparr>\<rparr>) = (Inr a, w2)"
    using commit_goes_through by blast
  obtain w3 where st: "settle_claim E t kind k w2 = (Inr (), w3)" using settle_claim_total by blast
  have "w' = w3"
    using assms(1-3) l s c r1 cm st
    by (auto simp: abandon_launch_def Let_def best_effort_def persist_launch_def op_defs)
  then have "files (disk w') = files (disk w2)" using keepsD [OF keeps_settle_files st] by simp
  moreover have "length (applied_records a) = 1"
    using commit_ok(1) [OF cm] by (simp add: stamp_generation_copies_def)
  ultimately show ?thesis using commit_ok(5) [OF cm] by (cases "applied_records a") auto
qed

theorem failed_launch_keeps_one_row_witness:
  "\<exists>res w' r'. abandon_launch (sample_service [sample_task ''a'' Pending, sample_task ''b'' Done] None)
       (sample_task ''a'' Pending) (SpawnFailed ''boom'') Start ''k'' Commit sample_world = (res, w')
     \<and> fmlookup (files (disk w')) (tasks_path ''p'') = Some (to_pretty (store (sample_service
          [sample_task ''a'' Pending, sample_task ''b'' Done] None)) (Array [Object r']))"
proof -
  let ?rows = "[sample_task ''a'' Pending, sample_task ''b'' Done]"
  obtain res w' where r: "abandon_launch (sample_service ?rows None) (sample_task ''a'' Pending) (SpawnFailed ''boom'') Start
      ''k'' Commit sample_world = (res, w')" by fastforce
  from failed_launch_keeps_one_row [OF r, of "''p''" "''a''" "''doc''" ?rows] r show ?thesis
    by auto
qed

end
