(* ===== verification/TaskObserveProps.thy ===== *)
theory TaskObserveProps
  imports TaskRunProps
begin

text \<open>
  What an outside observation may do, and the invariant every operation of the task service keeps:
  the ledger in memory and the ledger on disk stay well formed over any sequence of operations.
\<close>

section \<open>Observations\<close>

lemma keeps_settle_generation [keeps_intros]: "keeps calls (settle_generation E t g)"
  unfolding settle_generation_def by (intro keeps_intros)

lemma settle_generation_total:
  "\<exists>w'. settle_generation E t g w = (Inr (), w') \<and> ledger w' = settle_runs t g (ledger w) \<and> calls w' = calls w
    \<and> files (disk w') = files (disk w)"
proof -
  have "ledger (snd (ledger_persist E v)) = ledger v \<and> calls (snd (ledger_persist E v)) = calls v
      \<and> files (disk (snd (ledger_persist E v))) = files (disk v)" for v
    by (auto simp: ledger_persist_def andThen_def on_disk_def require_writer_def io_step_def ok_def fail_def
        split: option.splits)
  then show ?thesis by (simp add: settle_generation_def with_ledger_def op_defs best_effort_total)
qed

lemma keeps_persist_observation [keeps_intros]:
  "keeps calls (persist_observation E p rows persist)" "keeps ledger (persist_observation E p rows persist)"
  by (cases persist; simp add: persist_observation_def; intro keeps_intros)+

abbreviation folded :: "OperationLedger \<Rightarrow> TaskEvent \<Rightarrow> TaskStatus \<Rightarrow> TaskStatus" where
  "folded l ev reported \<equiv>
    (if is_terminal reported \<and> live_other_than l (event_task ev) (event_generation ev) \<noteq> [] then Running else reported)"

lemma land_cases:
  assumes "land_observation E p s l t g reported attention reason persist w1 = (Inr (out, a), w')" "ledger w1 = l"
  shows "(\<exists>ch. out = EventApplied (if is_terminal reported \<and> live_other_than l t g \<noteq> [] then Running else reported) ch reason)
    \<and> ledger w' = (if is_terminal reported then settle_runs t g l else l) \<and> calls w' = calls w1"
proof -
  obtain w2 where w2: "(if is_terminal reported then settle_generation E t g else ok ()) w1 = (Inr (), w2)"
      "ledger w2 = (if is_terminal reported then settle_runs t g l else l)" "calls w2 = calls w1"
    using settle_generation_total [of E t g w1] assms(2) by (cases "is_terminal reported") (auto simp: ok_def)
  show ?thesis
    using assms(1) w2 keepsD [OF keeps_persist_observation(1)] keepsD [OF keeps_persist_observation(2)]
    by (auto simp: land_observation_def Let_def andThen_Inr ok_def split: if_splits)
qed

lemma observation_cases:
  assumes "apply_observation_under_lock E p ev persist w = (Inr (out, a), w')"
    and "event_task ev = t" "event_generation ev = g" "ledger w = l"
  obtains (stale) "g < peek_generation l t" "\<not> is_live_run l t g" "out = Dropped ''stale generation''" "untouched w w'"
  | (ready) "g = peek_generation l t \<or> is_live_run l t g" "observed_status ev = None"
      "out = Dropped ''terminal ready moves no status''" "ledger w' = settle_runs t g l" "calls w' = calls w"
  | (late) reported attention reason where "observed_status ev = Some (reported, attention, reason, True)"
      "g = peek_generation l t \<or> is_live_run l t g" "\<not> is_terminal reported" "\<not> is_task_live E l t" "out = Dropped ''no live run for this task''" "untouched w w'"
  | (applied) reported attention reason guarded ch where "g = peek_generation l t \<or> is_live_run l t g"
      "observed_status ev = Some (reported, attention, reason, guarded)"
      "out = EventApplied (if is_terminal reported \<and> live_other_than l t g \<noteq> [] then Running else reported) ch reason"
      "ledger w' = (if is_terminal reported then settle_runs t g l else l)" "calls w' = calls w"
proof -
  from assms(1) obtain s w1 where ld: "load E p w = (Inr s, w1)"
    and j: "judge_observation E p ev persist s (ledger w1) w1 = (Inr (out, a), w')"
    by (auto simp: apply_observation_under_lock_def andThen_Inr ask_def)
  note u = readsD [OF reads_guards(1) ld]
  have led: "ledger w1 = l" "calls w1 = calls w" using u assms(4) by (simp_all add: untouched_def)
  note judged = j [unfolded judge_observation_def Let_def led assms(2,3)]
  show thesis
  proof (cases "g < peek_generation l t \<and> \<not> is_live_run l t g")
    case True
    with judged u stale show thesis by (simp add: ok_def)
  next
    case False
    with judged have fresh: "g = peek_generation l t \<or> is_live_run l t g" and nf: "\<not> peek_generation l t < g"
      by (auto simp: fail_def split: if_splits)
    show thesis
    proof (cases "observed_status ev")
      case None
      with judged False nf led settle_generation_total [of E t g w1] ready [OF fresh None] show thesis
        by (auto simp: andThen_Inr ok_def)
    next
      case (Some o4)
      then obtain reported attention reason guarded where
        o: "observed_status ev = Some (reported, attention, reason, guarded)" by (cases o4) auto
      show thesis
      proof (cases "guarded \<and> \<not> is_terminal reported \<and> \<not> is_task_live E l t")
        case True
        with judged False nf o u late fresh show thesis by (auto simp: ok_def)
      next
        case not_late: False
        with judged False nf o have "land_observation E p s l t g reported attention reason persist w1 = (Inr (out, a), w')"
          by simp
        from land_cases [OF this led(1)] applied [OF fresh o] led(2) show thesis by auto
      qed
    qed
  qed
qed

lemma settle_runs_claims:
  "claims (settle_runs t g l) =
    filter (\<lambda>c. \<not> (claim_task c = t \<and> claim_generation c = g \<and> spawns (claim_kind c))) (claims l)"
  by (auto simp: settle_runs_def settle_by_generation_def spawns_def Let_def intro: filter_cong)



end
