(* ===== verification/TaskInvariant.thy ===== *)
theory TaskInvariant
  imports TaskObserveProps
begin

text \<open>
  The task service as a transition system: one step per public operation, over one data directory and
  across restarts. Two invariants are carried through every operation: the ledger stays well formed in
  memory and on disk, and no run of a task is handed to the executor twice. What both share, that an
  operation is built from a handful of elementary updates, is proved once in a locale.
\<close>

section \<open>Steps of the service\<close>

text \<open>\<open>modes\<close> are the ways the callers persist: \<open>Commit\<close> in core, \<open>ViaHost\<close> through the host's saver.\<close>

inductive service_step :: "Service \<Rightarrow> Persist set \<Rightarrow> World \<Rightarrow> World \<Rightarrow> bool" for E modes w where
  boot: "service_step E modes w (snd (service_new E w))"
| created: "service_step E modes w (snd (create E project spec w))"
| intent: "persist \<in> modes \<Longrightarrow> service_step E modes w (snd (run_intent E p i persist w))"
| started: "persist \<in> modes \<Longrightarrow>
    service_step E modes w (snd (start_as E project t k pb prompt inject att facts persist w))"
| resumed: "persist \<in> modes \<Longrightarrow> service_step E modes w (snd (resume_as E project t sid k pb term_size persist w))"
| switched: "service_step E modes w (snd (switch_config E project t k values observed w))"
| observed: "persist \<in> modes \<Longrightarrow> service_step E modes w (snd (apply_observation_under_lock E p ev persist w))"
| completed: "service_step E modes w (snd (complete_under_lock E project t w))"
| cancelled: "service_step E modes w (snd (cancel_under_lock E project t w))"
| reconciled: "service_step E modes w (snd (service_reconcile E p w))"
| acknowledged: "service_step E modes w (snd (service_acknowledge E t w))"
| orphans_settled: "service_step E modes w (snd (service_settle_orphaned_sessions E p is_orphan w))"

section \<open>Operations are built from elementary updates\<close>

locale ledger_steps =
  fixes P :: "World \<Rightarrow> bool"
  assumes disk: "P w \<Longrightarrow> P (w\<lparr>disk := d\<rparr>)"
    and projects: "P w \<Longrightarrow> P (w\<lparr>task_projects := m\<rparr>)"
    and mirror: "P w \<Longrightarrow> P (w\<lparr>ledger_file := HasLedger (ledger w)\<rparr>)"
    and aside: "call_run c = None \<Longrightarrow> P w \<Longrightarrow> P (w\<lparr>calls := calls w @ [(c, disk w, ledger_file w)]\<rparr>)"
    and settled: "P w \<Longrightarrow> P (w\<lparr>ledger := fst (settle (ledger w) t kind k)\<rparr>)"
    and settled_run: "P w \<Longrightarrow> P (w\<lparr>ledger := fst (settle_by_generation (ledger w) t kind g)\<rparr>)"
    and settled_task: "P w \<Longrightarrow> P (w\<lparr>ledger := fst (settle_task (ledger w) t)\<rparr>)"
    and acked: "P w \<Longrightarrow> P (w\<lparr>ledger := fst (acknowledge (ledger w) t)\<rparr>)"
    and awaited: "P w \<Longrightarrow> P (w\<lparr>ledger := await_acknowledgement (ledger w) item\<rparr>)"
    and claimed: "P w \<Longrightarrow> P (w\<lparr>ledger := fst (claim_run E t kind k (ledger w))\<rparr>)"
begin

lemma by_disk [preserves_intros]:
  "preserves P (on_disk m)" "preserves P (ask f)" "preserves P (save_via_host E p rows)" "preserves P (forget_projects ts)"
  using disk projects
  by (auto simp: preserves_def on_disk_snd ask_def save_via_host_def forget_projects_def Let_def
      split: option.splits prod.splits bool.splits)

lemma by_reads [preserves_intros]:
  "preserves P (load E p)" "preserves P (find_or_fail p t s)" "preserves P (find_all_or_fail p ts s)"
  "preserves P (check_target_shape E project t att)"
proof -
  show load: "preserves P (load E p)" for E p unfolding load_def by (intro preserves_intros)
  show one: "preserves P (find_or_fail p t s)" for t unfolding find_or_fail_def by (intro preserves_intros)
  show "preserves P (find_all_or_fail p ts s)" by (induction ts) (simp_all add: preserves_intros one)
  show "preserves P (check_target_shape E project t att)"
    unfolding check_target_shape_def Let_def by (intro preserves_intros load)
qed

lemma by_best_effort [preserves_intros]: "preserves P m \<Longrightarrow> preserves P (best_effort m)"
  by (simp add: preserves_def best_effort_def)

lemma by_aside [preserves_intros]:
  "preserves P (log_call (CallCancel t target))" "preserves P (log_call (CallComplete t wd))"
  "preserves P (log_call (CallReset t))"
  by (simp_all add: preserves_def log_call_def aside)

lemma by_persist [preserves_intros]: "preserves P (ledger_persist E)"
  unfolding ledger_persist_def by (intro preserves_intros) (simp add: preserves_def mirror)

lemma by_commit [preserves_intros]: "preserves P (commit E p rows)" "preserves P (commit_removal E p)"
proof -
  have "preserves P (commit_stamped E p stamped)" for stamped
    unfolding commit_stamped_def by (intro preserves_intros)
  then show "preserves P (commit E p rows)" by (simp add: preserves_def commit_def)
  show "preserves P (commit_removal E p)" unfolding commit_removal_def by (intro preserves_intros)
qed

lemma by_finish [preserves_intros]:
  "preserves P (finish_intent E p rows persist)" "preserves P (persist_launch E p rows persist)"
  "preserves P (persist_observation E p rows persist)"
  by (cases persist; simp add: finish_intent_def persist_launch_def persist_observation_def preserves_intros)+

lemma by_ledger:
  "(\<And>w. P w \<Longrightarrow> P (w\<lparr>ledger := fst (f (ledger w))\<rparr>)) \<Longrightarrow> preserves P (with_ledger f)"
  by (simp add: preserves_def with_ledger_def split_beta)

text \<open>The same edits of a ledger that is not yet the world's.\<close>

lemmas pending_edits =
  settled_run [where w = "w\<lparr>ledger := l\<rparr>" for w l, simplified]
  settled_task [where w = "w\<lparr>ledger := l\<rparr>" for w l, simplified]
  acked [where w = "w\<lparr>ledger := l\<rparr>" for w l, simplified]
  awaited [where w = "w\<lparr>ledger := l\<rparr>" for w l, simplified]

lemma settled_many:
  "P (w\<lparr>ledger := l\<rparr>) \<Longrightarrow> P (w\<lparr>ledger := settle_tasks ts l\<rparr>)"
  "P (w\<lparr>ledger := l\<rparr>) \<Longrightarrow> P (w\<lparr>ledger := settle_deleted ts l\<rparr>)"
  by (induction ts arbitrary: l) (simp_all add: pending_edits)

lemma awaited_many: "P (w\<lparr>ledger := l\<rparr>) \<Longrightarrow> P (w\<lparr>ledger := await_all items l\<rparr>)"
  by (induction items arbitrary: l) (simp_all add: pending_edits)

lemma by_edits [preserves_intros]:
  "preserves P (with_ledger (\<lambda>l. settle l t kind k))" "preserves P (with_ledger (\<lambda>l. settle_task l t))"
  "preserves P (with_ledger (\<lambda>l. acknowledge l t))" "preserves P (with_ledger (claim_run E t kind k))"
  "preserves P (with_ledger (\<lambda>l. (settle_tasks ts l, ())))" "preserves P (with_ledger (\<lambda>l. (settle_deleted ts l, ())))"
  "preserves P (with_ledger (\<lambda>l. (await_all items l, ())))" "preserves P (with_ledger (\<lambda>l. (settle_runs t g l, ())))"
  using settled_many [where l = "ledger w" and w = w for w] awaited_many [where l = "ledger w" and w = w for w]
  by (auto intro!: by_ledger settled settled_task acked claimed settled_run pending_edits simp: settle_runs_def)

lemma by_claims [preserves_intros]:
  "preserves P (settle_claim E t kind k)" "preserves P (settle_generation E t g)" "preserves P (service_acknowledge E t)"
  unfolding settle_claim_def settle_generation_def service_acknowledge_def by (intro preserves_intros)+

lemma by_abandon [preserves_intros]: "preserves P (abandon_launch E r failure kind k persist)"
  unfolding abandon_launch_def Let_def by (intro preserves_intros)

lemma by_observation [preserves_intros]: "preserves P (apply_observation_under_lock E p ev persist)"
  unfolding apply_observation_under_lock_def judge_observation_def land_observation_def Let_def
  by (intro preserves_intros)

lemma by_ends [preserves_intros]:
  "preserves P (complete_under_lock E project t)" "preserves P (cancel_under_lock E project t)"
  "preserves P (service_reconcile E p)" "preserves P (service_settle_orphaned_sessions E p is_orphan)"
  unfolding complete_under_lock_def cancel_under_lock_def service_reconcile_def service_settle_orphaned_sessions_def
    Let_def
  by (intro preserves_intros)+

lemma by_intent_bodies [preserves_intros]:
  "preserves P (metadata_edit E p t persist ch)" "preserves P (metadata_batch E p ts persist ch')"
  "preserves P (metadata_one E p t persist ch')" "preserves P (run_rename E p t name expect persist)"
  "preserves P (normalize_after_boot_with E p live persist)"
  "preserves P (resume_with_session_with E p t agent family sid spath persist)"
  "preserves P (switch_config_write_with E p t agent model effort speed permission prev res persist)"
  "preserves P (insert_new_task E p spec persist)" "preserves P (delete_with E p ts persist)"
  unfolding metadata_one_def metadata_edit_def metadata_batch_def run_rename_def normalize_after_boot_with_def
    resume_with_session_with_def switch_config_write_with_def insert_new_task_def delete_with_def Let_def
  by (intro preserves_intros)+

lemma by_intents [preserves_intros]:
  "preserves P (run_intent E p i persist)" "preserves P (create E project spec)"
proof -
  show "preserves P (run_intent E p i persist)" by (cases i) (simp_all add: run_intent_def preserves_intros)
  show "preserves P (create E project spec)" unfolding create_def Let_def by (intro preserves_intros)
qed

end

text \<open>Invariants that launching and handing a run number back keep outright.\<close>

locale call_steps = ledger_steps +
  assumes launch: "P w \<Longrightarrow> P (w\<lparr>calls := calls w @ [(c, disk w, ledger_file w)]\<rparr>)"
    and released: "P w \<Longrightarrow> P (w\<lparr>ledger := release_generation (ledger w) t g\<rparr>)"
    and booted: "P w \<Longrightarrow> P (w\<lparr>ledger := (case ledger_file w of HasLedger l \<Rightarrow> ledger_new l | _ \<Rightarrow> ledger_empty)\<rparr>)"
begin

lemma by_call [preserves_intros]: "preserves P (log_call c)"
  by (simp add: preserves_def log_call_def launch)

lemma by_spawners [preserves_intros]:
  "preserves P (spawn_start E k prompt inject att facts persist r project g)"
  "preserves P (spawn_resume E sid k term_size persist r project g)"
  unfolding spawn_start_def spawn_resume_def Let_def by (intro preserves_intros)+

lemma by_launch [preserves_intros]:
  assumes "\<And>r project g. preserves P (spawn r project g)"
  shows "preserves P (begin_under_lock E project t k kind pb att persist spawn)"
proof -
  have "preserves P (launch_claimed E project t k kind pb persist spawn s r g)" for s r g
    unfolding launch_claimed_def Let_def by (intro preserves_intros assms)
  then have "preserves P (case c of Duplicate c \<Rightarrow> fail (AlreadyClaimed t (kind_word kind) (claimed_at_ms c))
    | New _ \<Rightarrow> launch_claimed E project t k kind pb persist spawn s r g)" for c s r g
    by (cases c) (auto intro: preserves_intros)
  then show ?thesis unfolding begin_under_lock_def Let_def by (intro preserves_intros)
qed

lemma by_runs [preserves_intros]:
  "preserves P (start_as E project t k pb prompt inject att facts persist)"
  "preserves P (resume_as E project t sid k pb term_size persist)"
  unfolding start_as_def resume_as_def by (intro preserves_intros)+

lemma by_release [preserves_intros]: "preserves P (release_switch E t k g)"
proof -
  have "P (w\<lparr>ledger := release_generation (fst (settle (ledger w) t Start k)) t g\<rparr>)" if "P w" for w
    using released [where w = "w\<lparr>ledger := fst (settle (ledger w) t Start k)\<rparr>"] settled [OF that] by simp
  then show ?thesis unfolding release_switch_def by (intro preserves_intros by_ledger) simp
qed

lemma by_switch [preserves_intros]: "preserves P (switch_config E project t k values observed)"
proof -
  have "preserves P (switch_claimed E p t k values observed s previous g)" for p s previous g
    unfolding switch_claimed_def switch_after_reset_def Let_def by (intro preserves_intros)
  then have "preserves P (case c of
      Duplicate c \<Rightarrow> fail (AlreadyClaimed t (kind_word (claim_kind c)) (claimed_at_ms c))
    | New c \<Rightarrow> switch_claimed E p t k values observed s previous (claim_generation c))" for c p s previous
    by (cases c) (auto intro: preserves_intros)
  then show ?thesis unfolding switch_config_def Let_def by (intro preserves_intros)
qed

lemma by_boot [preserves_intros]: "preserves P (service_new E)"
  unfolding preserves_def
proof (intro allI impI)
  fix w
  assume "P w"
  obtain x d where io: "on_disk (io_step (store E) (read_error ''task-operations.json'')) w = (x, w\<lparr>disk := d\<rparr>)"
    by (metis on_disk_snd prod.collapse)
  let ?w = "w\<lparr>disk := d\<rparr>"
  have "P ?w" using \<open>P w\<close> by (rule disk)
  with booted [OF this, THEN projects, of fmempty] io show "P (snd (service_new E w))"
    by (cases "ledger_file w"; cases x)
      (auto simp: service_new_def ledger_load_def andThen_def)
qed

lemma step: "service_step E modes w w' \<Longrightarrow> P w \<Longrightarrow> P w'"
  by (induction rule: service_step.induct) (erule preservesD [OF _ surjective_pairing, rotated], intro preserves_intros)+

lemma steps: "(service_step E modes)\<^sup>*\<^sup>* w w' \<Longrightarrow> P w \<Longrightarrow> P w'"
  by (induction rule: rtranclp_induct) (auto intro: step)

end

section \<open>The ledger stays well formed\<close>

definition ledgers_ok :: "World \<Rightarrow> bool" where
  "ledgers_ok w \<longleftrightarrow> ledger_ok (ledger w) \<and> (\<forall>l. ledger_file w = HasLedger l \<longrightarrow> ledger_ok l)"

lemma ledger_edits:
  "ledger_ok l \<Longrightarrow> ledger_ok (fst (settle l t kind k))" "ledger_ok l \<Longrightarrow> ledger_ok (fst (settle_task l t))"
  "ledger_ok l \<Longrightarrow> ledger_ok (fst (acknowledge l t))" "ledger_ok l \<Longrightarrow> ledger_ok (await_acknowledgement l item)"
  "ledger_ok l \<Longrightarrow> ledger_ok (release_generation l t g)" "ledger_ok l \<Longrightarrow> ledger_ok (ledger_new l)"
  "ledger_ok l \<Longrightarrow> ledger_ok (fst (settle_by_generation l t kind g))"
  by (rule ledger_step_ok, rule ledger_step.intros, assumption)+

lemma claim_run_ok: "ledger_ok l \<Longrightarrow> ledger_ok (fst (claim_run E t kind k l))"
  using take_ok [of l t kind k]
  by (auto simp: claim_run_def split: option.splits prod.splits) (metis fst_conv)

lemma ledger_empty_ok: "ledger_ok ledger_empty"
  by (simp add: ledger_ok_def ledger_empty_def)

interpretation ledgers: call_steps ledgers_ok
  by unfold_locales
    (auto simp: ledgers_ok_def ledger_edits claim_run_ok ledger_empty_ok split: LedgerFile.splits)

text \<open>
  C7. Over every sequence of service operations, restarts included and whichever way the callers
  persist, starting from an empty ledger and no ledger file, the ledger in memory and the one in
  \<open>task-operations.json\<close> are well formed: no two open claims share an attempt or a run, every open
  claim carries a run number that was handed out, no task waits twice for an acknowledgement.
\<close>

theorem service_keeps_ledgers_ok:
  assumes "(service_step E modes)\<^sup>*\<^sup>* w w'" "ledger w = ledger_empty" "ledger_file w = NoLedger"
  shows "ledger_ok (ledger w') \<and> (\<forall>l. ledger_file w' = HasLedger l \<longrightarrow> ledger_ok l)"
  using ledgers.steps [OF assms(1)] assms(2,3) by (simp add: ledgers_ok_def ledger_empty_ok)

section \<open>No run is spawned twice\<close>

fun call_task :: "ExecutorCall \<Rightarrow> string" where
  "call_task (CallLaunch q) = lr_task_id q"
| "call_task (CallResume q) = rr_task_id q"
| "call_task (CallCancel t _) = t"
| "call_task (CallComplete t _) = t"
| "call_task (CallReset t) = t"

text \<open>The runs handed to the executor, oldest first.\<close>

definition launches :: "World \<Rightarrow> (string \<times> nat) list" where
  "launches w = concat (map (\<lambda>(c, _). case call_run c of None \<Rightarrow> [] | Some g \<Rightarrow> [(call_task c, g)]) (calls w))"

definition filed :: "LedgerFile \<Rightarrow> string \<Rightarrow> nat \<Rightarrow> bool" where
  "filed file_state t g \<longleftrightarrow> (case file_state of HasLedger l \<Rightarrow> g \<le> peek_generation l t | _ \<Rightarrow> False)"

text \<open>Every launched run is counted by the ledger in memory and by the one on disk, and none twice.\<close>

definition runs_counted :: "World \<Rightarrow> bool" where
  "runs_counted w \<longleftrightarrow> distinct (launches w)
    \<and> (\<forall>t g. (t, g) \<in> set (launches w) \<longrightarrow> g \<le> peek_generation (ledger w) t \<and> filed (ledger_file w) t g)"

text \<open>Ready to launch run \<open>g\<close>: counted on both sides and not yet launched.\<close>

definition armed :: "string \<Rightarrow> nat \<Rightarrow> World \<Rightarrow> bool" where
  "armed t g w \<longleftrightarrow> runs_counted w \<and> g \<le> peek_generation (ledger w) t \<and> filed (ledger_file w) t g
    \<and> (t, g) \<notin> set (launches w)"

text \<open>No run of the task beyond \<open>b\<close> was launched, so the counter may go back to \<open>b\<close>.\<close>

definition held :: "string \<Rightarrow> nat \<Rightarrow> World \<Rightarrow> bool" where
  "held t b w \<longleftrightarrow> runs_counted w \<and> b \<le> peek_generation (ledger w) t \<and> (\<forall>g. (t, g) \<in> set (launches w) \<longrightarrow> g \<le> b)"

lemma launches_simps [simp]:
  "launches (w\<lparr>disk := d\<rparr>) = launches w" "launches (w\<lparr>task_projects := m\<rparr>) = launches w"
  "launches (w\<lparr>ledger := l\<rparr>) = launches w" "launches (w\<lparr>ledger_file := x\<rparr>) = launches w"
  "launches (w\<lparr>calls := calls w @ [(c, d, x)]\<rparr>) =
    launches w @ (case call_run c of None \<Rightarrow> [] | Some g \<Rightarrow> [(call_task c, g)])"
  by (simp_all add: launches_def)

lemma peek_edits [simp]:
  "peek_generation (fst (settle l t kind k)) t' = peek_generation l t'"
  "peek_generation (fst (settle_by_generation l t kind g)) t' = peek_generation l t'"
  "peek_generation (fst (settle_task l t)) t' = peek_generation l t'"
  "peek_generation (fst (acknowledge l t)) t' = peek_generation l t'"
  "peek_generation (await_acknowledgement l item) t' = peek_generation l t'"
  "peek_generation (ledger_new l) t' = peek_generation l t'"
  by (simp_all add: settle_def settle_by_generation_def settle_task_def acknowledge_def await_acknowledgement_def
      ledger_new_def dedupe_def Let_def)

lemma peek_claim_run:
  "peek_generation (fst (claim_run E t kind k l)) t' =
    (if t' = t \<and> open_claim l t kind k = None then peek_generation l t + 1 else peek_generation l t')"
  by (auto simp: claim_run_cases claimed_ledger_def peek_generation_def split: option.splits)

lemma filed_self [simp]: "filed (HasLedger l) t g \<longleftrightarrow> g \<le> peek_generation l t"
  by (simp add: filed_def)

interpretation counted: ledger_steps runs_counted
  by unfold_locales (auto simp: runs_counted_def peek_claim_run le_Suc_eq)

interpretation armed_runs: ledger_steps "armed t g" for t g
  by unfold_locales (auto simp: armed_def runs_counted_def peek_claim_run le_Suc_eq)

interpretation held_runs: ledger_steps "held t b" for t b
  by unfold_locales (auto simp: held_def runs_counted_def peek_claim_run le_Suc_eq)

lemma armed_launch:
  assumes "armed t g w" "call_run c = Some g" "call_task c = t"
  shows "runs_counted (w\<lparr>calls := calls w @ [(c, disk w, ledger_file w)]\<rparr>)"
  using assms by (auto simp: armed_def runs_counted_def)

lemma counted_claim:
  assumes "runs_counted w" "open_claim (ledger w) t kind k = None"
    and "ledger w2 = claimed_ledger E t kind k (ledger w)" "durable w2 = durable w" "calls w2 = calls w"
  shows "runs_counted w2" "(t, peek_generation (ledger w) t + 1) \<notin> set (launches w2)"
proof -
  have same: "launches w2 = launches w" "ledger_file w2 = ledger_file w"
    using assms(4,5) by (simp_all add: launches_def durable_def)
  have peek: "peek_generation (ledger w2) t' = (if t' = t then peek_generation (ledger w) t + 1 else peek_generation (ledger w) t')" for t'
    using assms(3) by (simp add: claimed_ledger_def peek_generation_def)
  show "runs_counted w2" using assms(1) same peek by (fastforce simp: runs_counted_def)
  show "(t, peek_generation (ledger w) t + 1) \<notin> set (launches w2)"
    using assms(1) same by (fastforce simp: runs_counted_def)
qed

text \<open>A spawner that launches the run it is given, for the task of the row it is given.\<close>

locale counted_spawner =
  fixes spawn :: spawner
  assumes spawn_counted: "armed t g w \<Longrightarrow> record_id r = Some t \<Longrightarrow> runs_counted (snd (spawn r project g w))"
begin

lemma launch_counted:
  assumes run: "launch_claimed E project t k kind pb persist spawn s r g w2 = (res, w')" and "persist \<noteq> ViaHost"
    and w2: "runs_counted w2" "(t, g) \<notin> set (launches w2)" "g \<le> peek_generation (ledger w2) t"
    and r: "record_id r = Some t"
  shows "runs_counted w'"
  using run
proof (cases rule: launch_cases)
  case (unsaved e w3)
  then show ?thesis
    using preservesD [OF counted.by_finish(2) unsaved(1) w2(1)] preservesD [OF counted.by_claims(1)] by blast
next
  case (spawned a w3 b w4 sr w5)
  then have c: "commit E (project_key project) (prepared_rows s t r kind) w2 = (Inr a, w3)"
    using assms(2) by (cases persist) (auto simp: persist_launch_def fail_def)
  have "launches w3 = launches w2" using keepsD [OF keeps_commit(1) c] by (simp add: launches_def)
  with w2 commit_ok(4) [OF c] keepsD [OF keeps_commit(2) c] preservesD [OF counted.by_commit(1) c w2(1)]
  have "armed t g w3" by (simp add: armed_def)
  then have "armed t g w4"
    using spawned(2) preservesD [OF armed_runs.by_claims(3)] by (cases "kind = Start") (auto simp: ok_def)
  moreover have "record_id (prepare_for_launch r kind) = Some t"
    using r by (simp add: prepare_for_launch_def Let_def record_id_def str_field_def get_def)
  ultimately have "runs_counted w5" using spawn_counted spawned(3) by (metis snd_conv)
  then show ?thesis
    using spawned(4) preservesD [OF counted.by_claims(1)] by (auto split: sum.splits if_splits)
qed

lemma begin_counted:
  assumes "persist \<noteq> ViaHost"
  shows "preserves runs_counted (begin_under_lock E project t k kind pb att persist spawn)"
  unfolding preserves_def
proof (intro allI impI)
  fix w
  assume w: "runs_counted w"
  obtain res w' where run: "begin_under_lock E project t k kind pb att persist spawn w = (res, w')" by fastforce
  from run have "runs_counted w'"
  proof (cases rule: begin_head)
    case (refused e)
    with w show ?thesis by (simp add: untouched_def runs_counted_def launches_def durable_def)
  next
    case (claimed s w1 r w2)
    note two = counted_claim [OF w claimed(3,4,5,6)]
    show ?thesis
      using find_row_Some [OF claimed(2)]
      by (intro launch_counted [OF claimed(7) assms two]) (simp_all add: claimed(4) peek_claimed)
  qed
  then show "runs_counted (snd (begin_under_lock E project t k kind pb att persist spawn w))" using run by simp
qed

end

lemma planned_counted:
  assumes "armed t g w" "\<And>f. preserves runs_counted (m f)"
    and "\<And>q. plan = Some q \<Longrightarrow> call_run (c q) = Some g \<and> call_task (c q) = t"
  shows "runs_counted (snd ((case plan of None \<Rightarrow> fail e | Some q \<Rightarrow> andThen (log_call (c q)) (\<lambda>_.
      case ex q of None \<Rightarrow> ok () | Some f \<Rightarrow> andThen (m f) fail)) w))"
proof (cases plan)
  case None
  with assms(1) show ?thesis by (simp add: armed_def fail_def)
next
  case (Some q)
  let ?w = "w\<lparr>calls := calls w @ [(c q, disk w, ledger_file w)]\<rparr>"
  have "runs_counted ?w" using armed_launch [OF assms(1)] assms(3) [OF Some] by blast
  moreover have "preserves runs_counted (case ex q of None \<Rightarrow> ok () | Some f \<Rightarrow> andThen (m f) fail)"
    by (intro preserves_intros assms(2))
  ultimately show ?thesis using Some by (simp add: andThen_def [of "log_call _"] log_call_def preserves_def)
qed

lemma launch_request_task:
  "launch_request u r project fam k g im tx inject po dw = Some q \<Longrightarrow> record_id r = Some t \<Longrightarrow> lr_task_id q = t"
  by (auto simp: launch_request_def Let_def bind_eq_Some_conv record_id_def)

lemma resume_request_task:
  "resume_request u r project fam k g sid = Some q \<Longrightarrow> record_id r = Some t \<Longrightarrow> rr_task_id q = t"
  by (auto simp: resume_request_def Let_def bind_eq_Some_conv record_id_def)

interpretation counted_start: counted_spawner "spawn_start E k prompt inject att facts persist"
  for E k prompt inject att facts persist
proof
  fix t g w r project
  assume "armed t g w" "record_id r = Some t"
  then show "runs_counted (snd (spawn_start E k prompt inject att facts persist r project g w))"
    unfolding spawn_start_def Let_def
    by (intro planned_counted counted.by_abandon) (simp_all add: launch_request_run launch_request_task)
qed

interpretation counted_resume: counted_spawner "spawn_resume E sid k term_size persist"
  for E sid k term_size persist
proof
  fix t g w r project
  assume "armed t g w" "record_id r = Some t"
  then show "runs_counted (snd (spawn_resume E sid k term_size persist r project g w))"
    unfolding spawn_resume_def Let_def
    by (intro planned_counted counted.by_abandon) (simp_all add: resume_request_run resume_request_task)
qed

lemma runs_started:
  assumes "persist \<noteq> ViaHost"
  shows "preserves runs_counted (start_as E project t k pb prompt inject att facts persist)"
    "preserves runs_counted (resume_as E project t sid k pb term_size persist)"
  unfolding start_as_def resume_as_def
  by (intro preserves_intros counted_start.begin_counted counted_resume.begin_counted assms)+

text \<open>A switch hands its run number back only while nothing was launched under it.\<close>

lemma held_release: "preserves (held t b) (release_switch E t k (b + 1))"
proof -
  have "held t b (w\<lparr>ledger := release_generation (fst (settle (ledger w) t Start k)) t (b + 1)\<rparr>)" if "held t b w" for w
    using that by (auto simp: held_def runs_counted_def release_generation_def Let_def)
  then show ?thesis unfolding release_switch_def by (intro preserves_intros held_runs.by_ledger) simp
qed

lemma held_switch: "preserves (held t b) (switch_claimed E p t k values observed s previous (b + 1))"
  unfolding switch_claimed_def switch_after_reset_def Let_def by (intro preserves_intros held_release)

lemma held_claimed:
  assumes "runs_counted v" "open_claim (ledger v) t kind k = None"
  shows "held t (peek_generation (ledger v) t) (v\<lparr>ledger := claimed_ledger E t kind k (ledger v)\<rparr>)"
proof -
  have "held t (peek_generation (ledger v) t) v" using assms(1) by (auto simp: held_def runs_counted_def)
  then show ?thesis using held_runs.claimed [of t _ v E t kind k] assms(2) by (simp add: claim_run_cases)
qed

lemma switch_counted: "preserves runs_counted (switch_config E project t k values observed)"
proof -
  let ?claimed = "\<lambda>p s previous. andThen (with_ledger (claim_run E t Start k)) (\<lambda>(_, claimed). case claimed of
      Duplicate c \<Rightarrow> fail (AlreadyClaimed t (kind_word (claim_kind c)) (claimed_at_ms c))
    | New c \<Rightarrow> switch_claimed E p t k values observed s previous (claim_generation c))"
  have "runs_counted (snd (?claimed p s previous v))" if v: "runs_counted v" for p s previous v
  proof (cases "open_claim (ledger v) t Start k")
    case None
    let ?b = "peek_generation (ledger v) t" and ?v = "v\<lparr>ledger := claimed_ledger E t Start k (ledger v)\<rparr>"
    have "held t ?b (snd (switch_claimed E p t k values observed s previous (?b + 1) ?v))"
      by (rule preservesD [OF held_switch surjective_pairing held_claimed [OF v None]])
    then have "runs_counted (snd (switch_claimed E p t k values observed s previous (?b + 1) ?v))"
      unfolding held_def by (rule conjunct1)
    then show ?thesis using None by (simp add: andThen_def [of "with_ledger _"] with_ledger_def claim_run_cases)
  next
    case (Some c)
    with v show ?thesis by (simp add: andThen_def with_ledger_def claim_run_cases fail_def)
  qed
  then have claimed: "preserves runs_counted (?claimed p s previous)" for p s previous unfolding preserves_def by blast
  show ?thesis
    unfolding switch_config_def Let_def
    by (rule preserves_cases(1), rule preserves_fail, rule preserves_andThen, rule counted.by_reads(1),
        rule preserves_andThen, rule counted.by_reads(2), rule claimed)
qed

lemma boot_counted: "preserves runs_counted (service_new E)"
proof -
  have booted: "runs_counted (w\<lparr>ledger := ledger_new l, task_projects := m\<rparr>)"
    if "runs_counted w" "ledger_file w = HasLedger l" for w l m
    using that by (auto simp: runs_counted_def)
  have fresh: "runs_counted (w\<lparr>ledger := ledger_empty, task_projects := m\<rparr>)"
    if "runs_counted w" "ledger_file w = NoLedger" for w m
    using that by (auto simp: runs_counted_def filed_def)
  have "runs_counted (snd (service_new E w))" if w: "runs_counted w" for w
  proof -
    obtain x d where io: "on_disk (io_step (store E) (read_error ''task-operations.json'')) w = (x, w\<lparr>disk := d\<rparr>)"
      by (metis on_disk_snd prod.collapse)
    have d: "runs_counted (w\<lparr>disk := d\<rparr>)" using w by (rule counted.disk)
    show ?thesis
      using io d booted [OF d] fresh [OF d]
      by (cases "ledger_file w"; cases x) (auto simp: service_new_def ledger_load_def andThen_def)
  qed
  then show ?thesis by (simp add: preserves_def)
qed

lemma step_counted: "service_step E {Commit, DecideOnly} w w' \<Longrightarrow> runs_counted w \<Longrightarrow> runs_counted w'"
proof (induction rule: service_step.induct)
  case boot
  then show ?case using boot_counted by (simp add: preserves_def)
next
  case (started persist project t k pb prompt inject att facts)
  then have "persist \<noteq> ViaHost" by auto
  with started show ?case using runs_started(1) by (simp add: preserves_def)
next
  case (resumed persist project t sid k pb term_size)
  then have "persist \<noteq> ViaHost" by auto
  with resumed show ?case using runs_started(2) by (simp add: preserves_def)
next
  case (switched project t k vals observed)
  then show ?case using switch_counted by (simp add: preserves_def)
qed (erule preservesD [OF _ surjective_pairing, rotated], intro preserves_intros)+



theorem service_keeps_ledgers_ok_witness:
  "\<exists>w'. (service_step (sample_service [sample_task ''a'' Todo] None) {Commit})\<^sup>*\<^sup>* sample_world w'
     \<and> claims (ledger w') \<noteq> [] \<and> ledger_ok (ledger w')"
proof -
  let ?E = "sample_service [sample_task ''a'' Todo] None"
  let ?att = "\<lparr>att_images = [], att_texts = []\<rparr>" and ?facts = "\<lparr>terminal_size = None, dsh_facts = None\<rparr>"
  obtain a w' where run: "start ?E sample_project ''a'' ''k'' True None True ?att ?facts sample_world = (Inr a, w')"
    using sample_started by blast
  have step: "(service_step ?E {Commit})\<^sup>*\<^sup>* sample_world w'"
    using service_step.started [of Commit "{Commit}" ?E sample_world sample_project "''a''" "''k''" True None True ?att ?facts] run
    by (auto simp: start_def)
  have "open_claim (ledger w') ''a'' Start ''k'' \<noteq> None"
    using start_spawner.begin_contract(2) [OF run [unfolded start_def start_as_def]] by simp
  then have "claims (ledger w') \<noteq> []" by (auto simp: open_claim_def)
  moreover have "ledger_ok (ledger w')"
    using service_keeps_ledgers_ok [OF step] by (simp add: sample_world_def)
  ultimately show ?thesis using step by blast
qed

end
