(* ===== verification/Terminal.thy ===== *)
theory Terminal
  imports Prelude
begin

text \<open>
  The terminal streams of \<open>terminal/stream.rs\<close>, \<open>terminal/lease.rs\<close>, \<open>terminal/pty.rs\<close> (the service)
  and \<open>terminal/replay.rs\<close>: bounded byte streams per run, control leases, replay planning. Offsets are
  \<open>u64\<close> byte counts and are modelled as naturals: a stream of 2 to the 64 bytes cannot be produced. The
  one subtraction that can go below zero, the count of live streams, is kept at its width.
\<close>

section \<open>stream.rs\<close>

record TerminalIdentity =
  ti_task_id :: string
  ti_generation :: nat

record StreamChunk =
  chunk_offset :: nat
  chunk_bytes :: "u8 list"
  chunk_gap :: bool

datatype StreamError = OutOfRange nat | UnknownStream

record ByteStream =
  stream_identity :: TerminalIdentity
  retained :: "u8 list"
  retained_from :: nat
  next_offset :: nat
  capacity :: nat

definition stream_new :: "TerminalIdentity \<Rightarrow> nat \<Rightarrow> ByteStream" where
  "stream_new i cap = \<lparr>stream_identity = i, retained = [], retained_from = 0, next_offset = 0, capacity = cap\<rparr>"

definition stream_append :: "u8 list \<Rightarrow> ByteStream \<Rightarrow> ByteStream" where
  "stream_append bytes s =
    (let all = retained s @ bytes; s1 = s\<lparr>retained := all, next_offset := next_offset s + length bytes\<rparr> in
     if capacity s < length all then
       let dropped = length all - capacity s
       in s1\<lparr>retained := drop dropped all, retained_from := retained_from s + dropped\<rparr>
     else s1)"

definition stream_read_from :: "ByteStream \<Rightarrow> nat \<Rightarrow> nat \<Rightarrow> StreamError + StreamChunk" where
  "stream_read_from s offset max_bytes =
    (if next_offset s < offset then Inl (OutOfRange (next_offset s))
     else if offset < retained_from s then
       Inr \<lparr>chunk_offset = retained_from s, chunk_bytes = take (min max_bytes (length (retained s))) (retained s),
            chunk_gap = True\<rparr>
     else
       let first = offset - retained_from s; last = min (first + max_bytes) (length (retained s)) in
       Inr \<lparr>chunk_offset = offset, chunk_bytes = take (last - first) (drop first (retained s)), chunk_gap = False\<rparr>)"

section \<open>lease.rs\<close>

record ControlLease =
  next_ticket :: nat
  current :: "nat option"

definition lease_new :: ControlLease where
  "lease_new = \<lparr>next_ticket = 0, current = None\<rparr>"

definition lease_acquire :: "ControlLease \<Rightarrow> ControlLease \<times> nat" where
  "lease_acquire l = (let ticket = next_ticket l + 1 in (l\<lparr>next_ticket := ticket, current := Some ticket\<rparr>, ticket))"

definition write_gate :: "ControlLease \<Rightarrow> nat \<Rightarrow> bool" where
  "write_gate l ticket \<longleftrightarrow> current l = Some ticket"

definition lease_release :: "ControlLease \<Rightarrow> nat \<Rightarrow> ControlLease \<times> bool" where
  "lease_release l ticket = (if write_gate l ticket then (l\<lparr>current := None\<rparr>, True) else (l, False))"

definition holder_ticket :: "ControlLease \<Rightarrow> nat" where
  "holder_ticket l = unwrap_or (current l) 0"

section \<open>pty.rs: the service\<close>

definition TERMINAL_REPLAY_WINDOW_BYTES :: nat where
  "TERMINAL_REPLAY_WINDOW_BYTES = 1024 * 1024"

definition TERMINAL_MAX_FINISHED_STREAMS :: nat where
  "TERMINAL_MAX_FINISHED_STREAMS = 64"

definition TERMINAL_MAX_LIVE_STREAMS :: nat where
  "TERMINAL_MAX_LIVE_STREAMS = 256"

datatype PublishOutcome = Accepted | RefusedFull

record TerminalState =
  streams :: "(TerminalIdentity, ByteStream) fmap"
  leases :: "(TerminalIdentity, ControlLease) fmap"
  order :: "TerminalIdentity list"
  finished :: "(TerminalIdentity, nat) fmap"
  retired_total :: nat
  refusals :: nat

definition terminal_new :: TerminalState where
  "terminal_new = \<lparr>streams = fmempty, leases = fmempty, order = [], finished = fmempty,
     retired_total = 0, refusals = 0\<rparr>"

text \<open>One round of the retirement loop: the oldest finished stream goes.\<close>

definition retire_one :: "TerminalState \<Rightarrow> TerminalState option" where
  "retire_one st = (case List.find (\<lambda>i. i |\<in>| fmdom (finished st)) (order st) of
      None \<Rightarrow> None
    | Some i \<Rightarrow> Some (st\<lparr>order := remove1 i (order st), streams := fmdrop i (streams st), leases := fmdrop i (leases st),
        finished := fmdrop i (finished st), retired_total := retired_total st + 1\<rparr>))"

lemma fcard_pos: "x |\<in>| A \<Longrightarrow> 0 < fcard A"
  by (auto simp: fcard.rep_eq card_gt_0_iff)

lemma retire_one_smaller:
  "retire_one st = Some st' \<Longrightarrow> fcard (fmdom (finished st')) < fcard (fmdom (finished st))"
  by (auto simp: retire_one_def find_Some_iff split: option.splits) (metis One_nat_def diff_less fcard_pos zero_less_one)

function evict_finished_locked :: "TerminalState \<Rightarrow> TerminalState" where
  "evict_finished_locked st =
    (if TERMINAL_MAX_FINISHED_STREAMS < fcard (fmdom (finished st)) then
       (case retire_one st of None \<Rightarrow> st | Some st' \<Rightarrow> evict_finished_locked st')
     else st)"
  by pat_completeness auto
termination
  by (relation "measure (\<lambda>st. fcard (fmdom (finished st)))") (auto simp: retire_one_smaller)

declare evict_finished_locked.simps [simp del]

text \<open>\<open>usize\<close> subtraction as the release build does it.\<close>

definition usize_sub :: "nat \<Rightarrow> nat \<Rightarrow> nat" where
  "usize_sub a b = (if b \<le> a then a - b else 2 ^ 64 - (b - a))"

definition terminal_publish :: "TerminalIdentity \<Rightarrow> u8 list \<Rightarrow> TerminalState \<Rightarrow> TerminalState \<times> PublishOutcome" where
  "terminal_publish i bytes st =
    (if bytes = [] then (st, Accepted)
     else case fmlookup (streams st) i of
       Some s \<Rightarrow> (st\<lparr>streams := fmupd i (stream_append bytes s) (streams st)\<rparr>, Accepted)
     | None \<Rightarrow>
        if TERMINAL_MAX_LIVE_STREAMS \<le> usize_sub (length (order st)) (fcard (fmdom (finished st)))
        then (st\<lparr>refusals := refusals st + 1\<rparr>, RefusedFull)
        else
          let st1 = evict_finished_locked st;
              created = stream_append bytes (stream_new i TERMINAL_REPLAY_WINDOW_BYTES)
          in (st1\<lparr>streams := fmupd i created (streams st1), order := order st1 @ [i]\<rparr>, Accepted))"

definition read_from :: "TerminalState \<Rightarrow> TerminalIdentity \<Rightarrow> nat \<Rightarrow> nat \<Rightarrow> StreamError + StreamChunk" where
  "read_from st i offset max_bytes = (case fmlookup (streams st) i of
      Some s \<Rightarrow> stream_read_from s offset max_bytes
    | None \<Rightarrow> Inl UnknownStream)"

definition bounds :: "TerminalState \<Rightarrow> TerminalIdentity \<Rightarrow> (nat \<times> nat) option" where
  "bounds st i = map_option (\<lambda>s. (retained_from s, next_offset s)) (fmlookup (streams st) i)"

definition acquire_control :: "TerminalIdentity \<Rightarrow> TerminalState \<Rightarrow> TerminalState \<times> nat" where
  "acquire_control i st =
    (case lease_acquire (unwrap_or (fmlookup (leases st) i) lease_new) of (l, ticket) \<Rightarrow>
       (st\<lparr>leases := fmupd i l (leases st)\<rparr>, ticket))"

definition release_control :: "TerminalIdentity \<Rightarrow> nat \<Rightarrow> TerminalState \<Rightarrow> TerminalState \<times> bool" where
  "release_control i ticket st = (case fmlookup (leases st) i of
      Some l \<Rightarrow> (case lease_release l ticket of (l', done) \<Rightarrow> (st\<lparr>leases := fmupd i l' (leases st)\<rparr>, done))
    | None \<Rightarrow> (st, False))"

definition can_write :: "TerminalState \<Rightarrow> TerminalIdentity \<Rightarrow> nat \<Rightarrow> bool" where
  "can_write st i ticket = (case fmlookup (leases st) i of Some l \<Rightarrow> write_gate l ticket | None \<Rightarrow> False)"

definition mark_finished :: "TerminalIdentity \<Rightarrow> TerminalState \<Rightarrow> TerminalState" where
  "mark_finished i st =
    (let last = (case fmlookup (streams st) i of Some s \<Rightarrow> next_offset s | None \<Rightarrow> 0)
     in evict_finished_locked (st\<lparr>finished := fmupd i last (finished st)\<rparr>))"

section \<open>replay.rs\<close>

datatype ResumePoint = Bytes nat | UnitsFromStart nat

datatype ResetReason =
    Compacted nat
  | UnknownStreamReset
  | CursorBeyondStream nat
  | UnitsNotAnchorable

datatype ReplayPlan =
    Seamless nat "u8 list"
  | Reset nat "u8 list" ResetReason

fun resume_after :: "ReplayPlan \<Rightarrow> ResumePoint" where
  "resume_after (Seamless offset bytes) = Bytes (offset + length bytes)"
| "resume_after (Reset from bytes _) = Bytes (from + length bytes)"

fun replay_gap :: "ReplayPlan \<Rightarrow> bool" where
  "replay_gap (Seamless _ _) = False"
| "replay_gap (Reset _ _ _) = True"

definition plan_bytes :: "TerminalState \<Rightarrow> TerminalIdentity \<Rightarrow> nat \<Rightarrow> nat \<Rightarrow> ReplayPlan" where
  "plan_bytes st i offset max_bytes = (case read_from st i offset max_bytes of
      Inr chunk \<Rightarrow>
        if chunk_gap chunk then Reset (chunk_offset chunk) (chunk_bytes chunk) (Compacted (chunk_offset chunk))
        else Seamless (chunk_offset chunk) (chunk_bytes chunk)
    | Inl UnknownStream \<Rightarrow> Reset 0 [] UnknownStreamReset
    | Inl (OutOfRange next) \<Rightarrow> Reset next [] (CursorBeyondStream next))"

definition plan_units :: "TerminalState \<Rightarrow> TerminalIdentity \<Rightarrow> nat \<Rightarrow> nat \<Rightarrow> ReplayPlan" where
  "plan_units st i units max_bytes = (case bounds st i of
      None \<Rightarrow> Reset 0 [] UnknownStreamReset
    | Some (earliest, _) \<Rightarrow>
       let fallback = Reset earliest (case read_from st i earliest max_bytes of Inr chunk \<Rightarrow> chunk_bytes chunk | Inl _ \<Rightarrow> [])
             (if units = 0 then Compacted earliest else UnitsNotAnchorable)
       in if units = 0 \<and> earliest = 0 then
            (case read_from st i 0 max_bytes of
               Inr chunk \<Rightarrow> if \<not> chunk_gap chunk then Seamless (chunk_offset chunk) (chunk_bytes chunk) else fallback
             | Inl _ \<Rightarrow> fallback)
          else fallback)"

definition plan_replay :: "TerminalState \<Rightarrow> TerminalIdentity \<Rightarrow> ResumePoint \<Rightarrow> nat \<Rightarrow> ReplayPlan" where
  "plan_replay st i cursor max_bytes = (case cursor of
      Bytes offset \<Rightarrow> plan_bytes st i offset max_bytes
    | UnitsFromStart units \<Rightarrow> plan_units st i units max_bytes)"

section \<open>A stream is a window on its history\<close>

definition displays :: "ByteStream \<Rightarrow> u8 list \<Rightarrow> bool" where
  "displays s h \<longleftrightarrow> retained s = window (capacity s) h \<and> retained_from s = length h - capacity s \<and> next_offset s = length h"

lemma displays_new: "displays (stream_new i cap) []"
  by (simp add: displays_def stream_new_def window_def)

lemma capacity_append [simp]: "capacity (stream_append bytes s) = capacity s"
  by (simp add: stream_append_def Let_def)

interpretation byte_window: bounded_history stream_append "\<lambda>bytes _. bytes" retained retained_from capacity
  by unfold_locales (auto simp: stream_append_def window_def Let_def)

lemma displays_append: "displays s h \<Longrightarrow> displays (stream_append bytes s) (h @ bytes)"
  using byte_window.push_window [of s h bytes]
  by (auto simp: displays_def) (simp add: stream_append_def Let_def)

lemma displays_read:
  assumes "displays s h"
  shows "stream_read_from s offset n =
    (if length h < offset then Inl (OutOfRange (length h))
     else if offset < length h - capacity s then
       Inr \<lparr>chunk_offset = length h - capacity s, chunk_bytes = take n (drop (length h - capacity s) h), chunk_gap = True\<rparr>
     else Inr \<lparr>chunk_offset = offset, chunk_bytes = take n (drop offset h), chunk_gap = False\<rparr>)"
  using assms by (auto simp: stream_read_from_def displays_def window_def Let_def min_def)

section \<open>Traces of the service\<close>

datatype TerminalOp =
    PublishOp TerminalIdentity "u8 list"
  | FinishOp TerminalIdentity
  | AcquireOp TerminalIdentity
  | ReleaseOp TerminalIdentity nat

fun terminal_step :: "TerminalOp \<Rightarrow> TerminalState \<Rightarrow> TerminalState" where
  "terminal_step (PublishOp i bytes) st = fst (terminal_publish i bytes st)"
| "terminal_step (FinishOp i) st = mark_finished i st"
| "terminal_step (AcquireOp i) st = fst (acquire_control i st)"
| "terminal_step (ReleaseOp i ticket) st = fst (release_control i ticket st)"

definition terminal_run :: "TerminalOp list \<Rightarrow> TerminalState \<Rightarrow> TerminalState" where
  "terminal_run = fold terminal_step"

lemma terminal_run_simps [simp]:
  "terminal_run [] st = st" "terminal_run (op # ops) st = terminal_run ops (terminal_step op st)"
  by (simp_all add: terminal_run_def)

text \<open>The bytes of a stream the service accepted, in order.\<close>

fun accepted_bytes :: "TerminalIdentity \<Rightarrow> TerminalOp list \<Rightarrow> TerminalState \<Rightarrow> u8 list" where
  "accepted_bytes i [] st = []"
| "accepted_bytes i (op # ops) st =
    (case op of
       PublishOp j bytes \<Rightarrow> if j = i \<and> snd (terminal_publish j bytes st) = Accepted then bytes else []
     | _ \<Rightarrow> []) @ accepted_bytes i ops (terminal_step op st)"

text \<open>Retirement touches finished streams only.\<close>

lemma retire_keeps:
  assumes "retire_one st = Some st'" "i |\<notin>| fmdom (finished st)"
  shows "fmlookup (streams st') i = fmlookup (streams st) i \<and> fmlookup (leases st') i = fmlookup (leases st) i
    \<and> i |\<notin>| fmdom (finished st')"
  using assms by (auto simp: retire_one_def find_Some_iff split: option.splits)

lemma evict_keeps:
  assumes "i |\<notin>| fmdom (finished st)"
  shows "fmlookup (streams (evict_finished_locked st)) i = fmlookup (streams st) i
    \<and> fmlookup (leases (evict_finished_locked st)) i = fmlookup (leases st) i
    \<and> i |\<notin>| fmdom (finished (evict_finished_locked st))"
  using assms
proof (induction st rule: evict_finished_locked.induct)
  case (1 st)
  show ?case
    using 1 retire_keeps [OF _ 1(2)]
    by (subst (1 2 3) evict_finished_locked.simps) (auto split: option.splits)
qed

lemma step_keeps_unfinished:
  assumes "op \<noteq> FinishOp i" "i |\<notin>| fmdom (finished st)"
  shows "i |\<notin>| fmdom (finished (terminal_step op st))"
  using assms evict_keeps [of i st]
    evict_keeps [of i "st\<lparr>finished := fmupd j last (finished st)\<rparr>" for j last]
  by (cases op)
    (auto simp: terminal_publish_def mark_finished_def acquire_control_def release_control_def Let_def
      split: option.splits prod.splits)

text \<open>A stream that was never finished shows exactly what was accepted for it.\<close>

definition live_stream :: "TerminalIdentity \<Rightarrow> u8 list \<Rightarrow> TerminalState \<Rightarrow> bool" where
  "live_stream i h st \<longleftrightarrow> i |\<notin>| fmdom (finished st) \<and> (case fmlookup (streams st) i of
      None \<Rightarrow> h = []
    | Some s \<Rightarrow> h \<noteq> [] \<and> displays s h \<and> capacity s = TERMINAL_REPLAY_WINDOW_BYTES)"

lemma live_stream_step:
  assumes "live_stream i h st" "op \<noteq> FinishOp i"
  shows "live_stream i (h @ accepted_bytes i [op] st) (terminal_step op st)"
proof -
  have fin: "i |\<notin>| fmdom (finished (terminal_step op st))"
    using assms by (intro step_keeps_unfinished) (simp_all add: live_stream_def)
  show ?thesis
  proof (cases op)
    case (PublishOp j bytes)
    then show ?thesis
      using assms fin evict_keeps [of i st] displays_append [of _ h bytes]
        displays_append [OF displays_new [of i TERMINAL_REPLAY_WINDOW_BYTES], of bytes]
      by (auto simp: live_stream_def terminal_publish_def Let_def stream_new_def split: option.splits)
  next
    case (FinishOp j)
    then show ?thesis
      using assms fin evict_keeps [of i "st\<lparr>finished := fmupd j last (finished st)\<rparr>" for last]
      by (auto simp: live_stream_def mark_finished_def Let_def)
  next
    case (AcquireOp j)
    with assms fin show ?thesis by (simp add: live_stream_def acquire_control_def split: prod.splits)
  next
    case (ReleaseOp j ticket)
    with assms fin show ?thesis by (auto simp: live_stream_def release_control_def split: option.splits prod.splits)
  qed
qed

lemma live_stream_run:
  assumes "live_stream i h st" "FinishOp i \<notin> set ops"
  shows "live_stream i (h @ accepted_bytes i ops st) (terminal_run ops st)"
  using assms
proof (induction ops arbitrary: h st)
  case (Cons op ops)
  have "op \<noteq> FinishOp i" using Cons.prems(2) by auto
  from live_stream_step [OF Cons.prems(1) this] Cons show ?case by fastforce
qed simp

lemma live_stream_new: "live_stream i [] terminal_new"
  by (simp add: live_stream_def terminal_new_def)

lemma live_stream_plan:
  assumes "live_stream i h st"
  shows "plan_replay st i (Bytes offset) n =
    (if h = [] then Reset 0 [] UnknownStreamReset
     else if length h < offset then Reset (length h) [] (CursorBeyondStream (length h))
     else if offset < length h - TERMINAL_REPLAY_WINDOW_BYTES then
       Reset (length h - TERMINAL_REPLAY_WINDOW_BYTES) (take n (drop (length h - TERMINAL_REPLAY_WINDOW_BYTES) h))
         (Compacted (length h - TERMINAL_REPLAY_WINDOW_BYTES))
     else Seamless offset (take n (drop offset h)))"
  using assms displays_read [of _ h offset n]
  by (auto simp: live_stream_def plan_replay_def plan_bytes_def read_from_def split: option.splits)

text \<open>A subscriber that follows \<open>resume_after\<close> for a number of frames.\<close>

fun plan_payload :: "ReplayPlan \<Rightarrow> u8 list" where
  "plan_payload (Seamless _ bytes) = bytes"
| "plan_payload (Reset _ bytes _) = bytes"

fun follow :: "TerminalState \<Rightarrow> TerminalIdentity \<Rightarrow> nat \<Rightarrow> nat \<Rightarrow> ResumePoint \<Rightarrow> u8 list" where
  "follow st i n 0 cursor = []"
| "follow st i n (Suc frames) cursor =
    (let plan = plan_replay st i cursor n in plan_payload plan @ follow st i n frames (resume_after plan))"

lemma live_stream_follow:
  assumes "live_stream i h st" "h \<noteq> []" "length h - TERMINAL_REPLAY_WINDOW_BYTES \<le> offset" "offset \<le> length h"
  shows "follow st i n frames (Bytes offset) = take (frames * n) (drop offset h)"
  using assms(3,4)
proof (induction frames arbitrary: offset)
  case (Suc frames)
  let ?next = "offset + length (take n (drop offset h))"
  have "follow st i n (Suc frames) (Bytes offset) = take n (drop offset h) @ follow st i n frames (Bytes ?next)"
    using Suc.prems assms(2) by (simp add: live_stream_plan [OF assms(1)])
  also have "\<dots> = take n (drop offset h) @ take (frames * n) (drop ?next h)"
    using Suc.prems by (subst Suc.IH) auto
  also have "drop ?next h = drop n (drop offset h)" using Suc.prems(2) by (auto simp: min_def add.commute)
  finally show ?case by (simp add: take_add)
qed simp

text \<open>
  C15. Replay is exact. For a run whose stream was not declared finished, whatever was published,
  acquired, released or retired around it, a byte cursor is answered from exactly the bytes
  accepted for that run: inside the last mebibyte the reply is seamless and carries the bytes at that
  offset; before it the view is reset to the start of the window; beyond the end and for a stream without
  output the reply says so. A subscriber that keeps asking with the cursor it was handed gets
  every byte once, in order, whatever frame size it asks for.
\<close>

theorem terminal_replay_exact:
  fixes offset n frames :: nat
  assumes "FinishOp i \<notin> set ops" "h = accepted_bytes i ops terminal_new" "st = terminal_run ops terminal_new"
  shows "plan_replay st i (Bytes offset) n =
      (if h = [] then Reset 0 [] UnknownStreamReset
       else if length h < offset then Reset (length h) [] (CursorBeyondStream (length h))
       else if offset < length h - TERMINAL_REPLAY_WINDOW_BYTES then
         Reset (length h - TERMINAL_REPLAY_WINDOW_BYTES) (take n (drop (length h - TERMINAL_REPLAY_WINDOW_BYTES) h))
           (Compacted (length h - TERMINAL_REPLAY_WINDOW_BYTES))
       else Seamless offset (take n (drop offset h)))
    \<and> (h \<noteq> [] \<and> length h - TERMINAL_REPLAY_WINDOW_BYTES \<le> offset \<and> offset \<le> length h \<longrightarrow>
        follow st i n frames (Bytes offset) = take (frames * n) (drop offset h))"
proof -
  have "live_stream i h st"
    using live_stream_run [OF live_stream_new assms(1)] assms(2,3) by simp
  then show ?thesis using live_stream_plan live_stream_follow by blast
qed

lemma evict_nothing: "fcard (fmdom (finished st)) \<le> TERMINAL_MAX_FINISHED_STREAMS \<Longrightarrow> evict_finished_locked st = st"
  by (simp add: evict_finished_locked.simps)

lemma publish_first:
  "bytes \<noteq> [] \<Longrightarrow> terminal_publish i bytes terminal_new =
    (terminal_new\<lparr>streams := fmupd i (stream_append bytes (stream_new i TERMINAL_REPLAY_WINDOW_BYTES)) fmempty,
       order := [i]\<rparr>, Accepted)"
  by (simp add: terminal_publish_def terminal_new_def usize_sub_def TERMINAL_MAX_LIVE_STREAMS_def evict_nothing Let_def
      fcard.rep_eq)

theorem terminal_replay_exact_witness:
  "plan_replay (terminal_run [PublishOp \<lparr>ti_task_id = ''t'', ti_generation = 1\<rparr> [1, 2, 3]] terminal_new)
     \<lparr>ti_task_id = ''t'', ti_generation = 1\<rparr> (Bytes 1) 8 = Seamless 1 [2, 3]
   \<and> follow (terminal_run [PublishOp \<lparr>ti_task_id = ''t'', ti_generation = 1\<rparr> [1, 2, 3]] terminal_new)
     \<lparr>ti_task_id = ''t'', ti_generation = 1\<rparr> 1 2 (Bytes 1) = [2, 3]"
proof -
  let ?i = "\<lparr>ti_task_id = ''t'', ti_generation = 1\<rparr>"
  let ?ops = "[PublishOp ?i [1, 2, 3]]"
  have h: "[1, 2, 3] = accepted_bytes ?i ?ops terminal_new" by (simp add: publish_first)
  from terminal_replay_exact [OF _ h refl, of 1 8 0] terminal_replay_exact [OF _ h refl, of 1 1 2] show ?thesis
    by (simp add: TERMINAL_REPLAY_WINDOW_BYTES_def)
qed

section \<open>Control leases\<close>

text \<open>The tickets a stream handed out, in order.\<close>

fun issued :: "TerminalIdentity \<Rightarrow> TerminalOp list \<Rightarrow> TerminalState \<Rightarrow> nat list" where
  "issued i [] st = []"
| "issued i (op # ops) st =
    (if op = AcquireOp i then [snd (acquire_control i st)] else []) @ issued i ops (terminal_step op st)"

definition leased :: "TerminalIdentity \<Rightarrow> nat list \<Rightarrow> TerminalState \<Rightarrow> bool" where
  "leased i tickets st \<longleftrightarrow> i |\<notin>| fmdom (finished st) \<and> (case fmlookup (leases st) i of
      None \<Rightarrow> tickets = []
    | Some l \<Rightarrow> tickets = [1..<Suc (next_ticket l)] \<and> (\<forall>k. current l = Some k \<longrightarrow> k = next_ticket l \<and> 0 < k))"

text \<open>A ticket that was issued and cannot write any more.\<close>

definition spent :: "TerminalIdentity \<Rightarrow> nat \<Rightarrow> TerminalState \<Rightarrow> bool" where
  "spent i k st \<longleftrightarrow> i |\<notin>| fmdom (finished st)
    \<and> (\<exists>l. fmlookup (leases st) i = Some l \<and> k \<le> next_ticket l \<and> current l \<noteq> Some k)"

lemma leases_other:
  assumes "i |\<notin>| fmdom (finished st)" "op \<noteq> FinishOp i" "op \<noteq> AcquireOp i" "\<forall>k. op \<noteq> ReleaseOp i k"
  shows "fmlookup (leases (terminal_step op st)) i = fmlookup (leases st) i"
  using assms evict_keeps [of i st] evict_keeps [of i "st\<lparr>finished := fmupd j last (finished st)\<rparr>" for j last]
  by (cases op)
    (auto simp: terminal_publish_def mark_finished_def acquire_control_def release_control_def Let_def
      split: option.splits prod.splits)

lemma leased_step:
  assumes "leased i tickets st" "op \<noteq> FinishOp i"
  shows "leased i (tickets @ issued i [op] st) (terminal_step op st)"
proof -
  have st: "i |\<notin>| fmdom (finished st)" using assms(1) by (simp add: leased_def)
  note fin = step_keeps_unfinished [OF assms(2) st]
  consider (acquire) "op = AcquireOp i" | (release) k where "op = ReleaseOp i k"
    | (other) "op \<noteq> AcquireOp i" "\<forall>k. op \<noteq> ReleaseOp i k" by blast
  then show ?thesis
  proof cases
    case acquire
    with assms(1) show ?thesis
      by (auto simp: leased_def acquire_control_def lease_acquire_def lease_new_def Let_def split: option.splits)
  next
    case release
    with assms(1) show ?thesis
      by (auto simp: leased_def release_control_def lease_release_def split: option.splits)
  next
    case other
    with leases_other [OF st assms(2)] fin assms(1) show ?thesis by (auto simp: leased_def split: option.splits)
  qed
qed

lemma leased_run:
  assumes "leased i tickets st" "FinishOp i \<notin> set ops"
  shows "leased i (tickets @ issued i ops st) (terminal_run ops st)"
  using assms
proof (induction ops arbitrary: tickets st)
  case (Cons op ops)
  have "op \<noteq> FinishOp i" using Cons.prems(2) by auto
  from leased_step [OF Cons.prems(1) this] Cons show ?case by fastforce
qed simp

lemma spent_run:
  assumes "spent i k st" "FinishOp i \<notin> set ops"
  shows "spent i k (terminal_run ops st)"
  using assms
proof (induction ops arbitrary: st)
  case (Cons op ops)
  have op: "op \<noteq> FinishOp i" using Cons.prems(2) by auto
  have st: "i |\<notin>| fmdom (finished st)" using Cons.prems(1) by (simp add: spent_def)
  have "spent i k (terminal_step op st)"
    using Cons.prems(1) step_keeps_unfinished [OF op st] leases_other [OF st op]
    by (cases "op = AcquireOp i \<or> (\<exists>k. op = ReleaseOp i k)")
      (auto simp: spent_def acquire_control_def lease_acquire_def release_control_def lease_release_def Let_def
        split: option.splits prod.splits)
  with Cons show ?case by simp
qed simp

lemma leased_can_write:
  "leased i tickets st \<Longrightarrow> can_write st i k \<Longrightarrow> tickets \<noteq> [] \<and> k = last tickets"
  by (auto simp: leased_def can_write_def write_gate_def split: option.splits)

lemma released_spent:
  assumes "leased i tickets st" "k \<in> set tickets"
  shows "spent i k (terminal_step (ReleaseOp i k) st)"
  using assms
  by (auto simp: leased_def spent_def release_control_def lease_release_def write_gate_def split: option.splits)



section \<open>A silent run blocks every later stream\<close>

definition phantom :: "TerminalState \<Rightarrow> bool" where
  "phantom st \<longleftrightarrow> streams st = fmempty \<and> order st = [] \<and> fcard (fmdom (finished st)) = 1"

lemma phantom_publish:
  "phantom st \<Longrightarrow> phantom (fst (terminal_publish j bytes st))
    \<and> snd (terminal_publish j bytes st) = (if bytes = [] then Accepted else RefusedFull)"
  by (auto simp: phantom_def terminal_publish_def usize_sub_def TERMINAL_MAX_LIVE_STREAMS_def)



end
