(* ===== verification/Utf8Projection.thy ===== *)
theory Utf8Projection
  imports Prelude
begin

text \<open>
  The incremental decoder of \<open>terminal/pty.rs\<close> (\<open>Utf8Projection\<close>): raw terminal bytes to text, chunk by
  chunk. Text is its UTF-8 bytes. \<open>std::str::from_utf8\<close> with its \<open>valid_up_to\<close> and \<open>error_len\<close>, and
  \<open>String::from_utf8_lossy\<close>, are modelled as the standard library documents them.
\<close>

section \<open>The standard library's validation\<close>

text \<open>The first character: complete, certainly wrong after so many bytes, or cut off by the end.\<close>

datatype Utf8Scan = Whole nat | Broken nat | Cut

definition continues :: "u8 \<Rightarrow> bool" where
  "continues b \<longleftrightarrow> 0x80 \<le> b \<and> b \<le> 0xBF"

definition utf8_width :: "u8 \<Rightarrow> nat" where
  "utf8_width b =
    (if b \<le> 0x7F then 1 else if 0xC2 \<le> b \<and> b \<le> 0xDF then 2 else if 0xE0 \<le> b \<and> b \<le> 0xEF then 3
     else if 0xF0 \<le> b \<and> b \<le> 0xF4 then 4 else 0)"

text \<open>The second byte excludes overlong forms, surrogates and values past U+10FFFF.\<close>

definition second_ok :: "u8 \<Rightarrow> u8 \<Rightarrow> bool" where
  "second_ok b c \<longleftrightarrow> continues c \<and> (b = 0xE0 \<longrightarrow> 0xA0 \<le> c) \<and> (b = 0xED \<longrightarrow> c \<le> 0x9F)
    \<and> (b = 0xF0 \<longrightarrow> 0x90 \<le> c) \<and> (b = 0xF4 \<longrightarrow> c \<le> 0x8F)"

text \<open>The bytes after the second: \<open>wanted\<close> more continuation bytes, \<open>seen\<close> bytes so far.\<close>

fun scan_rest :: "nat \<Rightarrow> nat \<Rightarrow> u8 list \<Rightarrow> Utf8Scan" where
  "scan_rest 0 seen bs = Whole seen"
| "scan_rest (Suc wanted) seen [] = Cut"
| "scan_rest (Suc wanted) seen (b # bs) = (if continues b then scan_rest wanted (Suc seen) bs else Broken seen)"

fun utf8_scan :: "u8 list \<Rightarrow> Utf8Scan" where
  "utf8_scan [] = Cut"
| "utf8_scan (b # bs) =
    (if utf8_width b = 0 then Broken 1
     else if utf8_width b = 1 then Whole 1
     else case bs of
       [] \<Rightarrow> Cut
     | c # cs \<Rightarrow> if second_ok b c then scan_rest (utf8_width b - 2) 2 cs else Broken 1)"

lemma scan_rest_bounds:
  "scan_rest wanted seen bs = Whole n \<Longrightarrow> n = seen + wanted \<and> wanted \<le> length bs"
  "scan_rest wanted seen bs = Broken n \<Longrightarrow> seen \<le> n \<and> n < seen + length bs"
  "scan_rest wanted seen bs = Cut \<Longrightarrow> length bs < wanted"
  by (induction wanted seen bs rule: scan_rest.induct) (auto split: if_splits)

lemma utf8_width_le: "utf8_width b \<le> 4"
  by (simp add: utf8_width_def)

lemma utf8_scan_cases:
  obtains (broken) "utf8_scan (b # bs) = Broken 1" | (ascii) "utf8_scan (b # bs) = Whole 1"
  | (cut) "bs = []" "utf8_scan (b # bs) = Cut"
  | (more) c cs where "bs = c # cs" "utf8_scan (b # bs) = scan_rest (utf8_width b - 2) 2 cs"
proof -
  consider "utf8_width b = 0" | "utf8_width b = 1" | "utf8_width b \<noteq> 0" "utf8_width b \<noteq> 1" "bs = []"
    | c cs where "utf8_width b \<noteq> 0" "utf8_width b \<noteq> 1" "bs = c # cs" by (cases bs) auto
  then show thesis
  proof cases
    case (4 c cs)
    with broken more show thesis by (cases "second_ok b c") auto
  qed (use broken ascii cut in auto)
qed

lemma utf8_scan_bounds:
  "utf8_scan bs = Whole n \<Longrightarrow> 0 < n \<and> n \<le> length bs"
  "utf8_scan bs = Broken n \<Longrightarrow> 0 < n \<and> n \<le> length bs"
  "utf8_scan bs = Cut \<Longrightarrow> length bs \<le> 3"
proof -
  have "(utf8_scan bs = Whole n \<longrightarrow> 0 < n \<and> n \<le> length bs) \<and> (utf8_scan bs = Broken n \<longrightarrow> 0 < n \<and> n \<le> length bs)
    \<and> (utf8_scan bs = Cut \<longrightarrow> length bs \<le> 3)"
  proof (cases bs)
    case (Cons b rest)
    show ?thesis
    proof (cases rule: utf8_scan_cases [of b rest])
      case (more c cs)
      note scan = scan_rest_bounds [of "utf8_width b - 2" 2 cs]
      show ?thesis using more Cons scan utf8_width_le [of b] by fastforce
    qed (use Cons in simp_all)
  qed simp
  then show "utf8_scan bs = Whole n \<Longrightarrow> 0 < n \<and> n \<le> length bs"
    "utf8_scan bs = Broken n \<Longrightarrow> 0 < n \<and> n \<le> length bs" "utf8_scan bs = Cut \<Longrightarrow> length bs \<le> 3" by blast+
qed

text \<open>More input never revises a character that is complete or broken.\<close>

lemma scan_rest_append: "scan_rest wanted seen bs \<noteq> Cut \<Longrightarrow> scan_rest wanted seen (bs @ more) = scan_rest wanted seen bs"
  by (induction wanted seen bs rule: scan_rest.induct) auto

lemma utf8_scan_append: "utf8_scan bs \<noteq> Cut \<Longrightarrow> utf8_scan (bs @ more) = utf8_scan bs"
  by (cases bs) (auto simp: scan_rest_append split: list.splits if_splits)

datatype Utf8Result = Valid | Invalid nat "nat option"

function from_utf8 :: "u8 list \<Rightarrow> Utf8Result" where
  "from_utf8 bs =
    (if bs = [] then Valid
     else case utf8_scan bs of
       Whole n \<Rightarrow> (case from_utf8 (drop n bs) of Valid \<Rightarrow> Valid | Invalid valid_up_to e \<Rightarrow> Invalid (n + valid_up_to) e)
     | Broken n \<Rightarrow> Invalid 0 (Some n)
     | Cut \<Rightarrow> Invalid 0 None)"
  by pat_completeness auto
termination
  by (relation "measure length") (auto dest: utf8_scan_bounds)

declare from_utf8.simps [simp del]

definition REPLACEMENT_CHARACTER :: "u8 list" where
  "REPLACEMENT_CHARACTER = [0xEF, 0xBF, 0xBD]"

lemma from_utf8_bounds:
  "from_utf8 bs = Invalid up (Some n) \<Longrightarrow> 0 < n \<and> up + n \<le> length bs"
proof (induction bs arbitrary: up rule: from_utf8.induct)
  case (1 bs)
  show ?case
    using 1 utf8_scan_bounds [of bs]
    by (auto simp: from_utf8.simps [of bs] split: if_splits Utf8Scan.splits Utf8Result.splits) fastforce+
qed

section \<open>The projection\<close>

text \<open>The scanning loop of \<open>push\<close>: text decided so far, bytes held back.\<close>

function project_loop :: "u8 list \<Rightarrow> u8 list \<times> u8 list" where
  "project_loop buf = (case from_utf8 buf of
      Valid \<Rightarrow> (buf, [])
    | Invalid valid None \<Rightarrow> (take valid buf, drop valid buf)
    | Invalid valid (Some bad) \<Rightarrow>
       (case project_loop (drop (valid + min bad (length buf - valid)) buf) of
          (out, rest) \<Rightarrow> (take valid buf @ REPLACEMENT_CHARACTER @ out, rest)))"
  by pat_completeness auto
termination
  by (relation "measure length") (auto dest: from_utf8_bounds)

declare project_loop.simps [simp del]

definition project_push :: "u8 list \<Rightarrow> u8 list \<Rightarrow> u8 list \<times> u8 list" where
  "project_push pending bytes =
    (if pending = [] \<and> from_utf8 bytes = Valid then (bytes, []) else project_loop (pending @ bytes))"

function from_utf8_lossy :: "u8 list \<Rightarrow> u8 list" where
  "from_utf8_lossy bs = (case from_utf8 bs of
      Valid \<Rightarrow> bs
    | Invalid valid None \<Rightarrow> take valid bs @ REPLACEMENT_CHARACTER
    | Invalid valid (Some bad) \<Rightarrow> take valid bs @ REPLACEMENT_CHARACTER @ from_utf8_lossy (drop (valid + bad) bs))"
  by pat_completeness auto
termination
  by (relation "measure length") (auto dest: from_utf8_bounds)

declare from_utf8_lossy.simps [simp del]

definition project_finish :: "u8 list \<Rightarrow> u8 list" where
  "project_finish pending = (if pending = [] then [] else from_utf8_lossy pending)"

definition pending_len :: "u8 list \<Rightarrow> nat" where
  "pending_len pending = length pending"

text \<open>A reader: every chunk pushed in order, then the end of the stream.\<close>

fun project_all :: "u8 list \<Rightarrow> u8 list list \<Rightarrow> u8 list" where
  "project_all pending [] = project_finish pending"
| "project_all pending (chunk # chunks) =
    (case project_push pending chunk of (out, pending') \<Rightarrow> out @ project_all pending' chunks)"

section \<open>Chunking does not matter\<close>

text \<open>The decoder character by character.\<close>

function decode :: "u8 list \<Rightarrow> u8 list \<times> u8 list" where
  "decode bs =
    (if bs = [] then ([], [])
     else case utf8_scan bs of
       Whole n \<Rightarrow> (case decode (drop n bs) of (out, rest) \<Rightarrow> (take n bs @ out, rest))
     | Broken n \<Rightarrow> (case decode (drop n bs) of (out, rest) \<Rightarrow> (REPLACEMENT_CHARACTER @ out, rest))
     | Cut \<Rightarrow> ([], bs))"
  by pat_completeness auto
termination
  by (relation "measure length") (auto dest: utf8_scan_bounds)

declare decode.simps [simp del]

lemma decode_nil [simp]: "decode [] = ([], [])"
  by (simp add: decode.simps)

lemma decode_from_utf8:
  "decode bs = (case from_utf8 bs of
      Valid \<Rightarrow> (bs, [])
    | Invalid up None \<Rightarrow> (take up bs, drop up bs)
    | Invalid up (Some bad) \<Rightarrow>
       (case decode (drop (up + bad) bs) of (out, rest) \<Rightarrow> (take up bs @ REPLACEMENT_CHARACTER @ out, rest)))"
proof (induction bs rule: decode.induct)
  case (1 bs)
  show ?case
  proof (cases "bs = []")
    case ne: False
    note dec = decode.simps [of bs] and utf = from_utf8.simps [of bs]
    show ?thesis
    proof (cases "utf8_scan bs")
      case (Whole n)
      have n: "n \<le> length bs" using utf8_scan_bounds(1) [OF Whole] by simp
      show ?thesis
        using 1(1) [OF ne Whole] n
        by (simp add: dec utf ne Whole take_add min_def split: Utf8Result.splits option.splits prod.splits)
          (auto simp: add.commute add.left_commute)
    next
      case (Broken n)
      then show ?thesis by (simp add: dec utf ne)
    next
      case Cut
      then show ?thesis by (simp add: dec utf ne)
    qed
  qed (simp add: from_utf8.simps)
qed

lemma project_loop_decode: "project_loop buf = decode buf"
proof (induction buf rule: project_loop.induct)
  case (1 buf)
  have "min bad (length buf - up) = bad" if "from_utf8 buf = Invalid up (Some bad)" for up bad
    using from_utf8_bounds [OF that] by linarith
  with 1 show ?case
    by (auto simp: project_loop.simps [of buf] decode_from_utf8 [of buf] split: Utf8Result.splits option.splits)
qed

lemma from_utf8_lossy_decode:
  "from_utf8_lossy bs = (case decode bs of (out, rest) \<Rightarrow> out @ (if rest = [] then [] else REPLACEMENT_CHARACTER))"
proof (induction bs rule: from_utf8_lossy.induct)
  case (1 bs)
  have cut: "drop up bs \<noteq> []" if "from_utf8 bs = Invalid up None" for up
    using that
  proof (induction bs arbitrary: up rule: from_utf8.induct)
    case (1 bs)
    then show ?case
      by (fastforce simp: from_utf8.simps [of bs] add.commute split: if_splits Utf8Scan.splits Utf8Result.splits)
  qed
  show ?case
    using 1 cut
    by (auto simp: from_utf8_lossy.simps [of bs] decode_from_utf8 [of bs]
        split: Utf8Result.splits option.splits prod.splits)
qed

text \<open>What is held back is a cut character, and it is at most three bytes.\<close>

lemma decode_rest: "snd (decode bs) = [] \<or> utf8_scan (snd (decode bs)) = Cut"
proof (induction bs rule: decode.induct)
  case (1 bs)
  then show ?case by (auto simp: decode.simps [of bs] split: Utf8Scan.splits prod.splits)
qed

lemma decode_append:
  "decode (xs @ ys) = (case decode xs of (out, rest) \<Rightarrow> (case decode (rest @ ys) of (out', rest') \<Rightarrow> (out @ out', rest')))"
proof (induction xs rule: decode.induct)
  case (1 xs)
  show ?case
  proof (cases "xs = []")
    case ne: False
    show ?thesis
    proof (cases "utf8_scan xs = Cut")
      case True
      then show ?thesis by (simp add: decode.simps [of xs] ne)
    next
      case False
      note same = utf8_scan_append [OF False, of ys]
      have n: "n \<le> length xs" if "utf8_scan xs = Whole n \<or> utf8_scan xs = Broken n" for n
        using utf8_scan_bounds that by blast
      show ?thesis
        using 1 ne False n same
        by (cases "utf8_scan xs")
          (auto simp: decode.simps [of "xs @ ys"] decode.simps [of xs] split: prod.splits)
    qed
  qed simp
qed

lemma project_push_decode: "project_push pending chunk = decode (pending @ chunk)"
  using decode_from_utf8 [of chunk] by (auto simp: project_push_def project_loop_decode)

lemma project_all_decode:
  assumes "pending = [] \<or> utf8_scan pending = Cut"
  shows "project_all pending chunks = from_utf8_lossy (pending @ concat chunks)"
  using assms
proof (induction chunks arbitrary: pending)
  case Nil
  then show ?case
    by (auto simp: from_utf8_lossy_decode decode.simps [of pending] project_finish_def)
next
  case (Cons chunk chunks)
  obtain out rest where d: "decode (pending @ chunk) = (out, rest)" by fastforce
  then have "rest = [] \<or> utf8_scan rest = Cut" using decode_rest [of "pending @ chunk"] by simp
  from Cons.IH [OF this] d show ?case
    using decode_append [of "pending @ chunk" "concat chunks"]
    by (simp add: project_push_decode from_utf8_lossy_decode split: prod.splits)
qed

fun held_after :: "u8 list \<Rightarrow> u8 list list \<Rightarrow> u8 list" where
  "held_after pending [] = pending"
| "held_after pending (chunk # chunks) = held_after (snd (project_push pending chunk)) chunks"

text \<open>
  C16. The text a terminal shows does not depend on how the reads were cut: pushing a byte stream in any
  chunks and finishing gives exactly the lossy decoding of the whole stream, so that valid UTF-8 comes
  out unchanged and every certain error costs one replacement character; and no more than three
  bytes are ever held back.
\<close>

theorem projection_independent_of_chunks:
  "project_all [] chunks = from_utf8_lossy (concat chunks)
    \<and> (from_utf8 (concat chunks) = Valid \<longrightarrow> project_all [] chunks = concat chunks)
    \<and> pending_len (held_after [] chunks) \<le> 3"
proof (intro conjI impI)
  show all: "project_all [] chunks = from_utf8_lossy (concat chunks)"
    using project_all_decode [of "[]" chunks] by simp
  show "from_utf8 (concat chunks) = Valid \<Longrightarrow> project_all [] chunks = concat chunks"
    unfolding all by (simp add: from_utf8_lossy.simps)
  have "pending_len (held_after pending chunks) \<le> 3" if "length pending \<le> 3" for pending
    using that
  proof (induction chunks arbitrary: pending)
    case (Cons chunk chunks)
    have "length (snd (decode (pending @ chunk))) \<le> 3"
      using decode_rest [of "pending @ chunk"] utf8_scan_bounds(3) by auto
    with Cons show ?case by (simp add: project_push_decode)
  qed (simp add: pending_len_def)
  then show "pending_len (held_after [] chunks) \<le> 3" by simp
qed

theorem projection_independent_of_chunks_witness:
  "project_all [] [[0x61, 0xE4], [0xB8], [0xAD]] = [0x61, 0xE4, 0xB8, 0xAD]"
proof -
  have "from_utf8 (concat [[0x61, 0xE4], [0xB8], [0xAD]]) = Valid" by code_simp
  with projection_independent_of_chunks [of "[[0x61, 0xE4], [0xB8], [0xAD]]"]
  have "project_all [] [[0x61, 0xE4], [0xB8], [0xAD]] = concat [[0x61, 0xE4], [0xB8], [0xAD]]" by blast
  then show ?thesis by (simp only: concat.simps append.simps)
qed

end
