(* ===== verification/Events.thy ===== *)
theory Events
  imports Json
begin

text \<open>
  The event log and its consumers: \<open>events/log.rs\<close> (the ring), \<open>events/snapshot.rs\<close> (reply body and
  watermark), the host's \<open>events.since\<close> handler (\<open>aeroric-host/dispatcher.rs\<close>) and \<open>events/pump.rs\<close>
  (the desktop pump). \<open>append\<close> and \<open>since\<close> each run in one critical section, so a log is a value and
  concurrent callers are a sequence of calls. Sequence numbers are \<open>u64\<close>, counted from one.
\<close>

section \<open>log.rs\<close>

definition MAX_ENTRIES :: nat where
  "MAX_ENTRIES = 512"

record LoggedEvent =
  seq :: nat
  event_name :: string
  event_data :: Value

text \<open>\<open>observed\<close> are the calls the optional observer received.\<close>

record EventLog =
  next_seq :: nat
  entries :: "LoggedEvent list"
  evicted :: nat
  latest :: nat
  observer :: bool
  observed :: "LoggedEvent list"

definition log_default :: EventLog where
  "log_default = \<lparr>next_seq = 0, entries = [], evicted = 0, latest = 0, observer = False, observed = []\<rparr>"

definition set_observer :: "bool \<Rightarrow> EventLog \<Rightarrow> EventLog" where
  "set_observer present lg = lg\<lparr>observer := present\<rparr>"

definition log_append :: "string \<times> Value \<Rightarrow> EventLog \<Rightarrow> EventLog" where
  "log_append ev lg =
    (let n = next_seq lg + 1;
         full = MAX_ENTRIES \<le> length (entries lg);
         kept = (if full then tl (entries lg) else entries lg);
         logged = \<lparr>seq = n, event_name = fst ev, event_data = snd ev\<rparr>
     in lg\<lparr>next_seq := n, entries := kept @ [logged], evicted := (if full then evicted lg + 1 else evicted lg),
            latest := n, observed := (if observer lg then observed lg @ [logged] else observed lg)\<rparr>)"

definition latest_seq :: "EventLog \<Rightarrow> nat" where
  "latest_seq lg = latest lg"

definition since :: "EventLog \<Rightarrow> nat \<Rightarrow> LoggedEvent list \<times> nat \<times> bool" where
  "since lg after =
    (if next_seq lg \<le> after then ([], next_seq lg, False)
     else let oldest = evicted lg + 1 in
       if after + 1 < oldest then ([], next_seq lg, True)
       else (filter (\<lambda>e. after < seq e) (entries lg), next_seq lg, False))"

section \<open>snapshot.rs\<close>

definition event_value :: "LoggedEvent \<Rightarrow> Value" where
  "event_value e = Object (fmupd ''data'' (event_data e) (fmupd ''event'' (String (event_name e))
     (fmupd ''seq'' (json_u64 (seq e)) fmempty)))"

definition since_response :: "EventLog \<Rightarrow> nat \<Rightarrow> Value" where
  "since_response lg after = (case since lg after of (events, latest_n, reset) \<Rightarrow>
     Object (fmupd ''reset'' (Bool reset) (fmupd ''latestSeq'' (json_u64 latest_n)
       (fmupd ''events'' (Array (map event_value events)) fmempty))))"

record SnapshotDecision =
  watermark :: nat
  needs_full_refresh :: bool

definition snapshot_at :: "nat \<Rightarrow> SnapshotDecision" where
  "snapshot_at n = \<lparr>watermark = n, needs_full_refresh = False\<rparr>"

definition apply_backfill :: "LoggedEvent list \<Rightarrow> nat \<Rightarrow> bool \<Rightarrow> SnapshotDecision \<Rightarrow> SnapshotDecision" where
  "apply_backfill events latest_n reset s =
    (if reset then s\<lparr>needs_full_refresh := True, watermark := latest_n\<rparr>
     else fold (\<lambda>e s. if watermark s < seq e then s\<lparr>watermark := seq e\<rparr> else s) events s)"

definition apply_live :: "nat \<Rightarrow> SnapshotDecision \<Rightarrow> SnapshotDecision \<times> bool" where
  "apply_live n s = (if n \<le> watermark s then (s, False) else (s\<lparr>watermark := n\<rparr>, True))"

section \<open>The host's \<open>events.since\<close>\<close>

definition events_since :: "EventLog \<Rightarrow> Record \<Rightarrow> Value option" where
  "events_since lg params =
    map_option (since_response lg) (Option.bind (get params ''after'')
      (\<lambda>v. or_else (Option.bind (as_str v) (parse_uint 64)) (as_u64 v)))"

section \<open>pump.rs\<close>

definition TOPIC_TRANSLATIONS :: "(string \<times> string) list" where
  "TOPIC_TRANSLATIONS =
    [(''dbx.transfer_progress'', ''dbx-transfer-progress''),
     (''notebook.rag_index_progress'', ''notebook-rag-index-progress'')]"

definition RECONNECT_MIN :: nat where
  "RECONNECT_MIN = 1"

definition RECONNECT_MAX :: nat where
  "RECONNECT_MAX = 30"

datatype SinkCall = Emit string Value | Skipped string

record PumpCycle =
  delivered :: nat
  skipped :: nat

definition window_channel :: "string \<Rightarrow> string option" where
  "window_channel ev = (case List.find (\<lambda>(topic, _). topic = ev) TOPIC_TRANSLATIONS of
      Some (_, channel) \<Rightarrow> Some channel
    | None \<Rightarrow> if CHR ''.'' \<in> set ev then None else Some ev)"

text \<open>\<open>Value\<close> indexing by a key: \<open>Null\<close> when there is nothing.\<close>

definition index_value :: "Value \<Rightarrow> string \<Rightarrow> Value" where
  "index_value v key = (case v of Object m \<Rightarrow> unwrap_or (fmlookup m key) Null | _ \<Rightarrow> Null)"

definition as_array :: "Value \<Rightarrow> Value list option" where
  "as_array v = (case v of Array vs \<Rightarrow> Some vs | _ \<Rightarrow> None)"

definition deliver_one :: "Value \<Rightarrow> SinkCall list" where
  "deliver_one ev = (case as_str (index_value ev ''event'') of
      None \<Rightarrow> []
    | Some name \<Rightarrow> (case window_channel name of
        None \<Rightarrow> [Skipped name]
      | Some channel \<Rightarrow> [Emit channel (index_value ev ''data'')]))"

definition deliver :: "Value \<Rightarrow> SinkCall list \<times> PumpCycle" where
  "deliver batch = (case as_array (index_value batch ''events'') of
      None \<Rightarrow> ([], \<lparr>delivered = 0, skipped = 0\<rparr>)
    | Some events \<Rightarrow>
       let sunk = concat (map deliver_one events) in
       (sunk, \<lparr>delivered = length (filter (\<lambda>c. case c of Emit _ _ \<Rightarrow> True | Skipped _ \<Rightarrow> False) sunk),
               skipped = length (filter (\<lambda>c. case c of Emit _ _ \<Rightarrow> False | Skipped _ \<Rightarrow> True) sunk)\<rparr>))"

text \<open>
  One poll on the reply of the source: the calls on the sink and, if the reply has a cursor, the next
  cursor, the counts and the reset flag. The sink is called before the cursor is looked for.
\<close>

definition poll_once :: "string + Value \<Rightarrow> SinkCall list \<times> (string + string \<times> PumpCycle \<times> bool)" where
  "poll_once reply = (case reply of
      Inl e \<Rightarrow> ([], Inl e)
    | Inr result \<Rightarrow>
       (case deliver result of (sunk, cycle) \<Rightarrow>
         (sunk, case or_else (map_option decimal (as_u64 (index_value result ''latestSeq'')))
                    (as_str (index_value result ''cursor'')) of
            None \<Rightarrow> Inl ''events.since reply has no cursor''
          | Some cursor \<Rightarrow> Inr (cursor, cycle, unwrap_or (as_bool (index_value result ''reset'')) False))))"

record Pump =
  cursor :: string
  backoff :: nat
  sink :: "SinkCall list"

definition pump_start :: Pump where
  "pump_start = \<lparr>cursor = ''0'', backoff = RECONNECT_MIN, sink = []\<rparr>"

text \<open>One turn of \<open>run\<close>: \<open>source\<close> answers the current cursor.\<close>

definition pump_turn :: "(string \<Rightarrow> string + Value) \<Rightarrow> Pump \<Rightarrow> Pump" where
  "pump_turn source p = (case poll_once (source (cursor p)) of
      (sunk, Inr (next, _, reset)) \<Rightarrow>
        p\<lparr>backoff := RECONNECT_MIN, sink := sink p @ sunk @ (if reset then [Skipped ''events-reset''] else []), cursor := next\<rparr>
    | (sunk, Inl _) \<Rightarrow> p\<lparr>sink := sink p @ sunk, backoff := min (backoff p * 2) RECONNECT_MAX\<rparr>)"

section \<open>The ring is a window on everything that was appended\<close>

definition numbered :: "(string \<times> Value) list \<Rightarrow> LoggedEvent list" where
  "numbered h = map (\<lambda>n. \<lparr>seq = n + 1, event_name = fst (h ! n), event_data = snd (h ! n)\<rparr>) [0..<length h]"

lemma numbered_simps [simp]:
  "numbered [] = []" "length (numbered h) = length h"
  "numbered (h @ [ev]) = numbered h @ [\<lparr>seq = length h + 1, event_name = fst ev, event_data = snd ev\<rparr>]"
  by (simp_all add: numbered_def nth_append)

lemma upt_filter: "filter (\<lambda>n. a \<le> n) [k..<m] = [max k a..<m]"
  by (induction m) auto

lemma numbered_after: "filter (\<lambda>e. after < seq e) (drop k (numbered h)) = drop (max k after) (numbered h)"
proof -
  have "filter (\<lambda>e. after < seq e) (drop k (numbered h)) =
      map (\<lambda>n. \<lparr>seq = n + 1, event_name = fst (h ! n), event_data = snd (h ! n)\<rparr>)
        (filter (\<lambda>n. after \<le> n) [k..<length h])"
    by (simp add: numbered_def drop_map filter_map comp_def less_Suc_eq_le)
  then show ?thesis by (simp add: upt_filter numbered_def drop_map)
qed

lemma MAX_ENTRIES_pos: "Suc 0 - MAX_ENTRIES = 0"
  by (simp add: MAX_ENTRIES_def)

interpretation ring: bounded_history log_append
  "\<lambda>ev lg. [\<lparr>seq = next_seq lg + 1, event_name = fst ev, event_data = snd ev\<rparr>]" entries evicted "\<lambda>_. MAX_ENTRIES"
  by unfold_locales (auto simp: log_append_def window_def Let_def drop_Suc MAX_ENTRIES_pos)

definition log_of :: "(string \<times> Value) list \<Rightarrow> EventLog" where
  "log_of h = fold log_append h log_default"

lemma log_of_window:
  "next_seq (log_of h) = length h \<and> latest (log_of h) = length h
    \<and> entries (log_of h) = window MAX_ENTRIES (numbered h) \<and> evicted (log_of h) = length h - MAX_ENTRIES"
proof (induction h rule: rev_induct)
  case Nil
  show ?case by (simp add: log_of_def log_default_def)
next
  case (snoc ev h)
  have step: "log_of (h @ [ev]) = log_append ev (log_of h)" by (simp add: log_of_def)
  have "next_seq (log_append ev (log_of h)) = length h + 1" "latest (log_append ev (log_of h)) = length h + 1"
    using snoc by (simp_all add: log_append_def Let_def)
  with snoc ring.push_window [of "log_of h" "numbered h" ev] show ?case by (simp add: step)
qed

lemma since_log_of:
  "since (log_of h) after =
    (if length h \<le> after then ([], length h, False)
     else if after < length h - MAX_ENTRIES then ([], length h, True)
     else (drop after (numbered h), length h, False))"
  using log_of_window [of h] numbered_after [of after "length h - MAX_ENTRIES" h]
  by (auto simp: since_def window_def Let_def max_def)


section \<open>The pump delivers every event once\<close>

definition sink_call :: "string \<times> Value \<Rightarrow> SinkCall" where
  "sink_call ev = (case window_channel (fst ev) of None \<Rightarrow> Skipped (fst ev) | Some channel \<Rightarrow> Emit channel (snd ev))"

lemma deliver_numbered: "concat (map deliver_one (map event_value (drop c (numbered h)))) = map sink_call (drop c h)"
proof -
  have one: "deliver_one (event_value e) = [sink_call (event_name e, event_data e)]" for e
    by (simp add: deliver_one_def event_value_def index_value_def sink_call_def split: option.splits)
  have "map (\<lambda>e. (event_name e, event_data e)) (numbered h) = h"
    by (simp add: numbered_def comp_def map_nth)
  then have "map (\<lambda>e. (event_name e, event_data e)) (drop c (numbered h)) = drop c h" by (metis drop_map)
  then have "map sink_call (drop c h) = map (sink_call \<circ> (\<lambda>e. (event_name e, event_data e))) (drop c (numbered h))"
    by (metis list.map_comp)
  then show ?thesis by (simp add: one comp_def concat_map_singleton)
qed

text \<open>The desktop's client of the host: it sends the cursor as a decimal string.\<close>

definition host_source :: "EventLog \<Rightarrow> string \<Rightarrow> string + Value" where
  "host_source lg after = (case events_since lg (fmupd ''after'' (String after) fmempty) of
      None \<Rightarrow> Inl ''invalid argument''
    | Some v \<Rightarrow> Inr v)"

lemma pump_turn_host:
  assumes "cursor p = decimal c" "c \<le> length h" "length h < 2 ^ 64"
  shows "pump_turn (host_source (log_of h)) p = p\<lparr>backoff := RECONNECT_MIN, cursor := decimal (length h),
    sink := sink p @ (if c < length h - MAX_ENTRIES then [Skipped ''events-reset''] else map sink_call (drop c h))\<rparr>"
proof -
  have "events_since (log_of h) (fmupd ''after'' (String (decimal c)) fmempty) = Some (since_response (log_of h) c)"
    using assms(2,3) by (simp add: events_since_def)
  then show ?thesis
    using assms deliver_numbered [of c h]
    by (auto simp: pump_turn_def host_source_def poll_once_def since_response_def since_log_of deliver_def index_value_def
        as_array_def as_u64_def number_as_u64_def Let_def)
qed

text \<open>Events are appended, polls reach the host, or polls fail on the way.\<close>

datatype PumpStep = Appended "string \<times> Value" | Polled | PollLost string

fun pump_run :: "PumpStep list \<Rightarrow> (string \<times> Value) list \<Rightarrow> Pump \<Rightarrow> (string \<times> Value) list \<times> Pump" where
  "pump_run [] h p = (h, p)"
| "pump_run (Appended ev # steps) h p = pump_run steps (h @ [ev]) p"
| "pump_run (Polled # steps) h p = pump_run steps h (pump_turn (host_source (log_of h)) p)"
| "pump_run (PollLost e # steps) h p = pump_run steps h (pump_turn (\<lambda>_. Inl e) p)"

definition pump_ok :: "(string \<times> Value) list \<Rightarrow> Pump \<Rightarrow> nat \<Rightarrow> bool" where
  "pump_ok h p c \<longleftrightarrow> c \<le> length h \<and> cursor p = decimal c \<and> RECONNECT_MIN \<le> backoff p \<and> backoff p \<le> RECONNECT_MAX
    \<and> (Skipped ''events-reset'' \<notin> set (sink p) \<longrightarrow> sink p = map sink_call (take c h))"

lemma pump_ok_polled:
  assumes "pump_ok h p c" "length h < 2 ^ 64"
  shows "pump_ok h (pump_turn (host_source (log_of h)) p) (length h)"
proof -
  have "take c h @ drop c h = h" by simp
  then have "map sink_call (take c h) @ map sink_call (drop c h) = map sink_call h" by (metis map_append)
  then show ?thesis
    using assms pump_turn_host [of p c h]
    by (auto simp: pump_ok_def RECONNECT_MIN_def RECONNECT_MAX_def)
qed

lemma pump_ok_lost: "pump_ok h p c \<Longrightarrow> pump_ok h (pump_turn (\<lambda>_. Inl e) p) c"
  by (auto simp: pump_ok_def pump_turn_def poll_once_def RECONNECT_MIN_def RECONNECT_MAX_def)

lemma pump_run_grows: "pump_run steps h p = (h', p') \<Longrightarrow> length h \<le> length h'"
  by (induction steps h p rule: pump_run.induct) auto

lemma pump_run_ok:
  assumes "pump_run steps h p = (h', p')" "pump_ok h p c" "length h' < 2 ^ 64"
  shows "\<exists>c'. pump_ok h' p' c' \<and> (steps \<noteq> [] \<and> last steps = Polled \<longrightarrow> c' = length h')
    \<and> (steps = [] \<longrightarrow> c' = c)"
  using assms
proof (induction steps h p arbitrary: c rule: pump_run.induct)
  case (2 ev steps h p)
  have "pump_ok (h @ [ev]) p c" using 2(3) by (auto simp: pump_ok_def)
  from 2(1) [OF _ this 2(4)] 2(2) show ?case by (cases steps) auto
next
  case (3 steps h p)
  have "length h < 2 ^ 64" using pump_run_grows [of steps h] 3(2,4) by fastforce
  from 3(1) [OF _ pump_ok_polled [OF 3(3) this] 3(4)] 3(2) show ?case by (cases steps) auto
next
  case (4 e steps h p)
  from 4(1) [OF _ pump_ok_lost [OF 4(3)] 4(4)] 4(2) show ?case by (cases steps) auto
qed simp



end
