(* ===== verification/Submissions.thy ===== *)
theory Submissions
  imports TaskRuns
begin

text \<open>
  Submissions from the native composer: the request and its canonical bytes
  (\<open>aeroric-protocol/submission.rs\<close>), the durable receipts (\<open>tasks/submissions.rs\<close>) and
  \<open>TaskService::submit\<close>. SHA-256, the JSON codec of the receipts file, the agent catalogue, the
  isolated copies and the clarification wrapper are parameters. Reasons the source words for the user
  are constructors here.
\<close>

section \<open>The request\<close>

record SubmissionRequest =
  sr_schema_version :: nat
  sr_submission_id :: string
  sr_project_id :: string
  sr_configuration_id :: string
  sr_configuration_version :: string
  sr_fingerprint :: string
  sr_agent :: string
  sr_prompt :: string
  sr_permission_mode :: string
  sr_permission_agent :: string
  sr_selected_model :: "string option"
  sr_reasoning_effort :: "string option"
  sr_attachments :: "string list"
  sr_worktree :: "string option"
  sr_recipe_id :: "string option"
  sr_team :: bool
  sr_review :: bool
  sr_evolution :: bool
  sr_clarify :: bool
  sr_isolated :: bool

definition SUBMISSION_SCHEMA_VERSION :: nat where
  "SUBMISSION_SCHEMA_VERSION = 1"

text \<open>\<open>u64::to_be_bytes\<close> of a length.\<close>

definition to_be_bytes :: "nat \<Rightarrow> string" where
  "to_be_bytes n = map (\<lambda>i. char_of (n div 256 ^ i mod 256)) [7, 6, 5, 4, 3, 2, 1, 0]"

definition material_text :: "string \<Rightarrow> string" where
  "material_text s = to_be_bytes (length s) @ s"

definition material_flag :: "bool \<Rightarrow> string" where
  "material_flag b = [if b then CHR 0x01 else CHR 0x00]"

definition material_optional :: "string option \<Rightarrow> string" where
  "material_optional v = (case v of None \<Rightarrow> material_flag False | Some s \<Rightarrow> material_flag True @ material_text s)"

definition material_header :: string where
  "material_header = ''aeroric.task-submission.v1'' @ [CHR 0x00]"

definition fingerprint_material :: "SubmissionRequest \<Rightarrow> string" where
  "fingerprint_material r = material_header
    @ concat (map material_text [sr_project_id r, sr_configuration_id r, sr_configuration_version r, sr_agent r,
        sr_prompt r, sr_permission_mode r, sr_permission_agent r])
    @ material_optional (sr_selected_model r) @ material_optional (sr_reasoning_effort r)
    @ to_be_bytes (length (sr_attachments r)) @ concat (map material_text (sr_attachments r))
    @ material_optional (sr_worktree r) @ material_optional (sr_recipe_id r)
    @ material_flag (sr_team r) @ material_flag (sr_review r) @ material_flag (sr_evolution r)
    @ (if sr_clarify r then [CHR 0x01] else []) @ (if sr_isolated r then [CHR 0x02] else [])"

section \<open>Receipts\<close>

datatype SubmissionState = ReceiptPending | ReceiptAccepted | RejectedBeforeSideEffect | ReceiptUnknown

datatype SubmissionReason =
    UnsupportedContract
  | PromptEmpty
  | PermissionNotChosen
  | TeamUnsupported
  | ReviewUnsupported
  | EvolutionUnsupported
  | RecipeUnsupported
  | AttachmentsUnsupported
  | WorktreeUnsupported
  | NoFullReceipt
  | RemoteCopyUnsupported
  | OtherReason string

record SubmissionReceipt =
  rc_schema_version :: nat
  rc_submission_id :: string
  rc_project_id :: string
  rc_configuration_id :: string
  rc_configuration_version :: string
  rc_fingerprint :: string
  rc_state :: SubmissionState
  rc_task_id :: "string option"
  rc_reasons :: "SubmissionReason list"
  rc_agent :: string
  rc_selected_model :: "string option"
  rc_reasoning_effort :: "string option"
  rc_permission_mode :: string
  rc_permission_agent :: string
  rc_options :: "(string \<times> bool) list"

record Receipts =
  receipts_schema :: nat
  receipts_map :: "(string, SubmissionReceipt) fmap"

datatype SubmissionError = SubmissionStorage StorageError | SubmissionInvalid | SubmissionConflict

text \<open>The code outside these sources.\<close>

record SubmissionPorts =
  sha256_hex :: "string \<Rightarrow> string"
  print_receipts :: "Receipts \<Rightarrow> string"
  parse_receipts :: "string \<Rightarrow> Receipts option"
  catalog_for :: "SubmissionRequest \<Rightarrow> World \<Rightarrow> string + Record \<times> SubmissionReason list"
  copy_check :: "string \<Rightarrow> string option"
  copy_create :: "string \<Rightarrow> string \<Rightarrow> string + string"
  clarify_wrap :: "string \<Rightarrow> string"

definition fingerprint :: "SubmissionPorts \<Rightarrow> SubmissionRequest \<Rightarrow> string" where
  "fingerprint C r = ''sha256:'' @ sha256_hex C (fingerprint_material r)"

definition lower_hex :: "char \<Rightarrow> bool" where
  "lower_hex c \<longleftrightarrow> c \<in> set ''0123456789abcdef''"

definition id_byte :: "char \<Rightarrow> bool" where
  "id_byte c \<longleftrightarrow> (let b = byte_of c in
    (48 \<le> b \<and> b \<le> 57) \<or> (65 \<le> b \<and> b \<le> 90) \<or> (97 \<le> b \<and> b \<le> 122) \<or> b = 45 \<or> b = 95)"

definition valid_identity :: "string \<Rightarrow> string \<Rightarrow> bool" where
  "valid_identity i fp \<longleftrightarrow> i \<noteq> [] \<and> length i \<le> 128 \<and> list_all id_byte i
    \<and> take 7 fp = ''sha256:'' \<and> length (drop 7 fp) = 64 \<and> list_all lower_hex (drop 7 fp)"

definition submissions_path :: string where
  "submissions_path = ''task-submissions.json''"

definition receipt_ok :: "string \<Rightarrow> SubmissionReceipt \<Rightarrow> bool" where
  "receipt_ok i rc \<longleftrightarrow> i = rc_submission_id rc \<and> rc_schema_version rc = SUBMISSION_SCHEMA_VERSION
    \<and> valid_identity i (rc_fingerprint rc) \<and> (rc_state rc = ReceiptAccepted \<longrightarrow> rc_task_id rc = Some i)"

text \<open>What the bytes of the file mean.\<close>

definition read_receipts :: "SubmissionPorts \<Rightarrow> string option \<Rightarrow> StorageError + Receipts" where
  "read_receipts C bytes = (case bytes of
      None \<Rightarrow> Inr \<lparr>receipts_schema = SUBMISSION_SCHEMA_VERSION, receipts_map = fmempty\<rparr>
    | Some text \<Rightarrow> (case parse_receipts C text of
        None \<Rightarrow> Inl (Corrupt submissions_path)
      | Some rs \<Rightarrow>
         if receipts_schema rs \<noteq> SUBMISSION_SCHEMA_VERSION
         then Inl (UnsupportedSchema submissions_path (receipts_schema rs) SUBMISSION_SCHEMA_VERSION)
         else if \<not> fmpred receipt_ok (receipts_map rs) then Inl (Corrupt submissions_path)
         else Inr rs))"

text \<open>
  The world of a submission: the service's, and a record of every execution with the receipt the
  file held for that submission when it began.
\<close>

record SubmissionWorld =
  task_world :: World
  runs :: "(string \<times> SubmissionReceipt option) list"

abbreviation receipts_bytes :: "SubmissionWorld \<Rightarrow> string option" where
  "receipts_bytes w \<equiv> fmlookup (files (disk (task_world w))) submissions_path"

definition receipt_of :: "SubmissionPorts \<Rightarrow> string \<Rightarrow> SubmissionWorld \<Rightarrow> SubmissionReceipt option" where
  "receipt_of C i w = (case read_receipts C (receipts_bytes w) of Inl _ \<Rightarrow> None | Inr rs \<Rightarrow> fmlookup (receipts_map rs) i)"

definition stored_in :: "(Disk, StorageError, 'a) op \<Rightarrow> (SubmissionWorld, SubmissionError, 'a) op" where
  "stored_in m w = (case m (disk (task_world w)) of
      (Inl e, d) \<Rightarrow> (Inl (SubmissionStorage e), w\<lparr>task_world := (task_world w)\<lparr>disk := d\<rparr>\<rparr>)
    | (Inr a, d) \<Rightarrow> (Inr a, w\<lparr>task_world := (task_world w)\<lparr>disk := d\<rparr>\<rparr>))"

definition submissions_load :: "SubmissionPorts \<Rightarrow> Store \<Rightarrow> (SubmissionWorld, SubmissionError, Receipts) op" where
  "submissions_load C S =
    andThen (stored_in (read_bytes S submissions_path)) (\<lambda>bytes.
      case read_receipts C bytes of Inl e \<Rightarrow> fail (SubmissionStorage e) | Inr rs \<Rightarrow> ok rs)"

definition submissions_persist ::
  "SubmissionPorts \<Rightarrow> Store \<Rightarrow> Receipts \<Rightarrow> (SubmissionWorld, SubmissionError, unit) op" where
  "submissions_persist C S rs =
    andThen (stored_in (require_writer S)) (\<lambda>_. stored_in (write_atomic S submissions_path (print_receipts C rs)))"

definition receipt :: "SubmissionRequest \<Rightarrow> SubmissionState \<Rightarrow> SubmissionReason list \<Rightarrow> SubmissionReceipt" where
  "receipt r st reasons = \<lparr>rc_schema_version = SUBMISSION_SCHEMA_VERSION, rc_submission_id = sr_submission_id r,
     rc_project_id = sr_project_id r, rc_configuration_id = sr_configuration_id r,
     rc_configuration_version = sr_configuration_version r, rc_fingerprint = sr_fingerprint r, rc_state = st,
     rc_task_id = None, rc_reasons = reasons, rc_agent = sr_agent r, rc_selected_model = sr_selected_model r,
     rc_reasoning_effort = sr_reasoning_effort r, rc_permission_mode = sr_permission_mode r,
     rc_permission_agent = sr_permission_agent r, rc_options = []\<rparr>"

definition refusal_reasons :: "SubmissionRequest \<Rightarrow> SubmissionReason list" where
  "refusal_reasons r =
    (if sr_schema_version r \<noteq> SUBMISSION_SCHEMA_VERSION then [UnsupportedContract] else [])
    @ (if is_blank (sr_prompt r) then [PromptEmpty] else [])
    @ (if sr_permission_agent r \<noteq> sr_agent r then [PermissionNotChosen] else [])
    @ (if sr_team r then [TeamUnsupported] else [])
    @ (if sr_review r then [ReviewUnsupported] else [])
    @ (if sr_evolution r then [EvolutionUnsupported] else [])
    @ (if sr_recipe_id r \<noteq> None then [RecipeUnsupported] else [])
    @ (if sr_attachments r \<noteq> [] then [AttachmentsUnsupported] else [])
    @ (if sr_worktree r \<noteq> None then [WorktreeUnsupported] else [])"

definition consumed_options :: "SubmissionRequest \<Rightarrow> (string \<times> bool) list" where
  "consumed_options r =
    [(''configuration'', True), (''model'', sr_selected_model r \<noteq> None), (''effort'', sr_reasoning_effort r \<noteq> None),
     (''permission'', True), (''attachments'', False), (''worktree'', False), (''recipe'', False), (''team'', False),
     (''review'', False), (''evolution'', False), (''clarify'', sr_clarify r)]
    @ (if sr_isolated r then [(''isolated'', True)] else [])"

text \<open>\<open>execute()\<close>, whose error is turned into an unknown outcome.\<close>

definition run_execute ::
  "SubmissionPorts \<Rightarrow> SubmissionRequest \<Rightarrow> (World, TaskError, unit) op \<Rightarrow> (SubmissionWorld, SubmissionError, bool) op" where
  "run_execute C r execute w = (case execute (task_world w) of (res, tw) \<Rightarrow>
     (Inr (\<not> isl res), w\<lparr>task_world := tw, runs := runs w @ [(sr_submission_id r, receipt_of C (sr_submission_id r) w)]\<rparr>))"

definition settled_receipt :: "SubmissionRequest \<Rightarrow> bool \<Rightarrow> SubmissionReceipt \<Rightarrow> SubmissionReceipt" where
  "settled_receipt r went rc =
    (if went then rc\<lparr>rc_state := ReceiptAccepted, rc_task_id := Some (sr_submission_id r), rc_options := consumed_options r\<rparr>
     else rc\<lparr>rc_state := ReceiptUnknown, rc_reasons := rc_reasons rc @ [NoFullReceipt]\<rparr>)"

definition submit_new ::
  "SubmissionPorts \<Rightarrow> Store \<Rightarrow> SubmissionRequest \<Rightarrow> SubmissionReason list \<Rightarrow> (World, TaskError, unit) op \<Rightarrow> Receipts \<Rightarrow>
   (SubmissionWorld, SubmissionError, SubmissionReceipt) op" where
  "submit_new C S r reasons execute rs =
    (let first = receipt r (if reasons = [] then ReceiptPending else RejectedBeforeSideEffect) reasons;
         keep = (\<lambda>rc. rs\<lparr>receipts_map := fmupd (sr_submission_id r) rc (receipts_map rs)\<rparr>) in
     andThen (submissions_persist C S (keep first)) (\<lambda>_.
       if rc_state first = RejectedBeforeSideEffect then ok first
       else andThen (run_execute C r execute) (\<lambda>went.
         let result = settled_receipt r went first in
         andThen (submissions_persist C S (keep result)) (\<lambda>_. ok result))))"

definition submit ::
  "SubmissionPorts \<Rightarrow> Store \<Rightarrow> SubmissionRequest \<Rightarrow> SubmissionReason list \<Rightarrow> (World, TaskError, unit) op \<Rightarrow>
   (SubmissionWorld, SubmissionError, SubmissionReceipt) op" where
  "submit C S r reasons execute =
    (if \<not> valid_identity (sr_submission_id r) (sr_fingerprint r) \<or> sr_fingerprint r \<noteq> fingerprint C r
     then fail SubmissionInvalid
     else andThen (stored_in (require_writer S)) (\<lambda>_.
       andThen (submissions_load C S) (\<lambda>rs.
         case fmlookup (receipts_map rs) (sr_submission_id r) of
           Some previous \<Rightarrow>
             if rc_fingerprint previous \<noteq> sr_fingerprint r then fail SubmissionConflict else ok previous
         | None \<Rightarrow> submit_new C S r (reasons @ refusal_reasons r) execute rs)))"

definition lookup ::
  "SubmissionPorts \<Rightarrow> Store \<Rightarrow> string \<Rightarrow> string \<Rightarrow> (SubmissionWorld, SubmissionError, SubmissionReceipt option) op" where
  "lookup C S i fp =
    (if \<not> valid_identity i fp then fail SubmissionInvalid
     else andThen (submissions_load C S) (\<lambda>rs.
       let found = fmlookup (receipts_map rs) i in
       case found of
         Some rc \<Rightarrow> if rc_fingerprint rc \<noteq> fp then fail SubmissionConflict else ok found
       | None \<Rightarrow> ok None))"

section \<open>\<open>TaskService::submit\<close>\<close>

definition config_id_from_catalog :: "string \<Rightarrow> string option" where
  "config_id_from_catalog catalog_id =
    (let prefix = ''agent-config:''; rest = drop (length prefix) catalog_id in
     if take (length prefix) catalog_id = prefix \<and> \<not> is_blank rest then Some rest else None)"

definition set_on_task :: "string \<Rightarrow> string \<Rightarrow> string \<Rightarrow> Record list \<Rightarrow> Record list" where
  "set_on_task i key text rows = map (\<lambda>r. if record_id r = Some i then fmupd key (String text) r else r) rows"

definition execute_submission ::
  "Service \<Rightarrow> SubmissionPorts \<Rightarrow> SubmissionRequest \<Rightarrow> Record option \<Rightarrow> string option \<Rightarrow> (World, TaskError, unit) op" where
  "execute_submission E C r project copy_root = (case project of
      None \<Rightarrow> fail (Unaddressable (sr_project_id r))
    | Some project \<Rightarrow>
       let i = sr_submission_id r in
       andThen (create E project
         \<lparr>nt_id = i, nt_project_id = sr_project_id r,
          nt_prompt = (if sr_clarify r then clarify_wrap C (sr_prompt r) else sr_prompt r), nt_agent = sr_agent r,
          nt_permission_mode = (if sr_clarify r then ''plan'' else sr_permission_mode r), nt_immediate = True,
          nt_selected_model = sr_selected_model r, nt_reasoning_effort = sr_reasoning_effort r, nt_speed = None,
          nt_dsh_agent_preset = None, nt_agent_config_id = config_id_from_catalog (sr_configuration_id r),
          nt_images = [], nt_texts = []\<rparr>) (\<lambda>_.
       andThen (case copy_root of
           None \<Rightarrow> ok ()
         | Some base \<Rightarrow> (case copy_create C base i of
             Inl e \<Rightarrow> fail (LaunchErr e)
           | Inr cwd \<Rightarrow> andThen (mutate E (sr_project_id r) (\<lambda>rows _. (set_on_task i ''worktreePath'' cwd rows, True)))
               (\<lambda>_. ok ()))) (\<lambda>_.
       andThen (if sr_clarify r
           then andThen (mutate E (sr_project_id r)
             (\<lambda>rows _. (set_on_task i ''clarifyRestorePermission'' (sr_permission_mode r) rows, True))) (\<lambda>_. ok ())
           else ok ()) (\<lambda>_.
       andThen (start E project i (''submission-'' @ i) True None False \<lparr>att_images = [], att_texts = []\<rparr>
           \<lparr>terminal_size = None, dsh_facts = None\<rparr>) (\<lambda>_. ok ())))))"

definition service_submit ::
  "Service \<Rightarrow> SubmissionPorts \<Rightarrow> SubmissionRequest \<Rightarrow> (SubmissionWorld, SubmissionError, SubmissionReceipt) op" where
  "service_submit E C r =
    andThen (stored_in (require_writer (store E))) (\<lambda>_ w.
      let (project, reasons) = (case catalog_for C r (task_world w) of
            Inl reason \<Rightarrow> (None, [OtherReason reason])
          | Inr (project, found) \<Rightarrow> (Some project, found));
          (copy_root, more) = (case (project, sr_isolated r) of
            (Some project, True) \<Rightarrow> (case resolve_location project of
                TargetLocal path \<Rightarrow> (case copy_check C path of
                    None \<Rightarrow> (Some path, [])
                  | Some reason \<Rightarrow> (None, [OtherReason reason]))
              | _ \<Rightarrow> (None, [RemoteCopyUnsupported]))
          | _ \<Rightarrow> (None, []))
      in submit C (store E) r (reasons @ more) (execute_submission E C r project copy_root) w)"

end
