(* ===== verification/SubmissionProps.thy ===== *)
theory SubmissionProps
  imports Submissions TaskRunProps "HOL-Library.Countable"
begin

text \<open>
  What submissions guarantee: an identity is executed at most once, only over a durable pending
  receipt, and a receipt never changes again, across restarts and whatever else the service does
  meanwhile; the canonical bytes determine the payload.
\<close>

section \<open>Task operations leave the receipts alone\<close>

definition receipts_on :: "Disk \<Rightarrow> string option" where
  "receipts_on d = fmlookup (files d) submissions_path"

definition receipts_file :: "World \<Rightarrow> string option" where
  "receipts_file w = receipts_on (disk w)"

lemma quiet_receipts: "quiet m \<Longrightarrow> keeps receipts_on m"
  by (simp add: quiet_def keeps_def receipts_on_def)

lemma task_paths_differ:
  assumes "CHR ''/'' \<in> set path"
  shows "path \<noteq> submissions_path" "backup_path path \<noteq> submissions_path" "temporary_path S path ns \<noteq> submissions_path"
proof -
  have plain: "CHR ''/'' \<notin> set submissions_path" by (simp add: submissions_path_def)
  have "CHR ''/'' \<notin> set (file_name path)"
    by (simp add: file_name_def) (metis set_takeWhileD)
  then have "CHR ''/'' \<in> set (directory_of path)"
    using assms directory_file [of path] by (metis Un_iff set_append)
  then have "CHR ''/'' \<in> set (temporary_path S path ns)" by (simp add: temporary_path_def)
  moreover have "CHR ''/'' \<in> set (backup_path path)" using assms by (simp add: backup_path_def)
  ultimately show "path \<noteq> submissions_path" "backup_path path \<noteq> submissions_path" "temporary_path S path ns \<noteq> submissions_path"
    using plain assms by auto
qed

lemma tasks_path_slash: "CHR ''/'' \<in> set (tasks_path p)"
  by (simp add: tasks_path_def)

lemma write_atomic_frame:
  "\<exists>ns. \<forall>k. k \<noteq> path \<and> k \<noteq> temporary_path S path ns \<longrightarrow>
     fmlookup (files (snd (write_atomic S path bytes d))) k = fmlookup (files d) k"
proof (cases "write_atomic S path bytes d")
  case (Pair res d')
  show ?thesis
  proof (cases res)
    case (Inl e)
    with Pair show ?thesis using write_atomic_err(1) [of S path bytes d e d'] by auto
  next
    case (Inr u)
    with Pair show ?thesis using write_atomic_ok(1) [of S path bytes d u d'] by auto
  qed
qed

lemma keeps_receipts_write:
  assumes "CHR ''/'' \<in> set path"
  shows "keeps receipts_on (write_atomic S path bytes)"
  unfolding keeps_def
proof
  fix d
  obtain ns where "\<forall>k. k \<noteq> path \<and> k \<noteq> temporary_path S path ns \<longrightarrow>
      fmlookup (files (snd (write_atomic S path bytes d))) k = fmlookup (files d) k"
    using write_atomic_frame by blast
  moreover have "submissions_path \<noteq> path" "submissions_path \<noteq> temporary_path S path ns"
    using task_paths_differ [OF assms] by metis+
  ultimately show "receipts_on (snd (write_atomic S path bytes d)) = receipts_on d"
    by (simp add: receipts_on_def)
qed

lemma keeps_receipts_copy:
  "CHR ''/'' \<in> set path \<Longrightarrow> keeps receipts_on (keep_copy S path old)"
  using task_paths_differ(2) by (auto simp: keeps_def keep_copy_def receipts_on_def split: option.splits)

lemma keeps_receipts_replace:
  assumes "CHR ''/'' \<in> set path"
  shows "keeps receipts_on (replace_with_backup S path bytes)"
  unfolding keeps_def
proof
  fix d
  have fresh: "keeps receipts_on (andThen (write_atomic S path bytes) (\<lambda>_. ok False))"
    by (intro keeps_intros keeps_receipts_write assms)
  have over: "keeps receipts_on (andThen (keep_copy S path old) (\<lambda>_. andThen (write_atomic S path bytes) (\<lambda>_. ok True)))" for old
    by (intro keeps_intros keeps_receipts_write keeps_receipts_copy assms)
  show "receipts_on (snd (replace_with_backup S path bytes d)) = receipts_on d"
    unfolding replace_with_backup_def
    by (cases "fmlookup (files d) path") (use fresh over in \<open>simp_all add: keeps_def\<close>)
qed

lemma keeps_receipts_save: "keeps receipts_on (save_covering S p rows cover)"
proof -
  have later: "keeps receipts_on (andThen (io_step S (\<lambda>_. WriteFailed path)) (\<lambda>_.
    andThen (check_cover S path cover) (\<lambda>_.
    andThen (write_array S path rows) (\<lambda>_.
    andThen (of_file S path) (\<lambda>written. case written of
        Some fp \<Rightarrow> ok (fp, path)
      | None \<Rightarrow> fail (Corrupt path))))))" if "path = tasks_path p" for path
    unfolding write_array_def that
    by (intro keeps_intros keeps_receipts_replace tasks_path_slash quiet_receipts quiet_intros)
  show ?thesis
    unfolding save_covering_def tasks_file_def
    by (cases "validate_id p")
      (use later in \<open>simp_all add: keeps_def op_defs require_writer_def split: option.splits\<close>)
qed

lemma keeps_receipts_bump: "keeps receipts_on (bump_covering S updates)"
proof -
  have "keeps receipts_on (\<lambda>d. (Inr next, d\<lparr>runtime_file := HasRuntime next\<rparr>))" for "next" :: RuntimeMetadata
    by (simp add: keeps_def receipts_on_def)
  then show ?thesis
    unfolding bump_covering_def
    by (intro keeps_intros quiet_receipts [of "require_writer S"] quiet_receipts [of "runtime_load S"]
        quiet_receipts [of "io_step S err" for err] quiet_intros)
qed

lemma keeps_receipts_lift [keeps_intros]:
  "keeps receipts_on m \<Longrightarrow> keeps receipts_file (on_disk m)"
  "keeps receipts_file (with_ledger f)" "keeps receipts_file (log_call c)"
  by (simp_all add: keeps_def receipts_file_def on_disk_snd with_ledger_def log_call_def split: prod.splits)

lemma keeps_receipts_durable: "keeps durable m \<Longrightarrow> keeps receipts_file m"
  by (simp add: keeps_def durable_def receipts_file_def receipts_on_def)

lemma keeps_receipts_load [keeps_intros]: "keeps receipts_file (load E p)"
  by (intro keeps_receipts_durable keeps_intros)

lemma keeps_receipts_persist [keeps_intros]: "keeps receipts_file (ledger_persist E)"
proof -
  have "keeps receipts_file (\<lambda>w. (Inr (), w\<lparr>ledger_file := HasLedger (ledger w)\<rparr>))"
    by (simp add: keeps_def receipts_file_def)
  then show ?thesis
    unfolding ledger_persist_def by (intro keeps_intros quiet_receipts quiet_intros)
qed

lemma keeps_receipts_commit [keeps_intros]: "keeps receipts_file (commit E p rows)"
proof -
  have "keeps receipts_file (commit_stamped E p stamped)" for stamped
    unfolding commit_stamped_def by (intro keeps_intros keeps_receipts_save keeps_receipts_bump)
  then show ?thesis by (simp add: keeps_def commit_def)
qed

lemma keeps_receipts_claims [keeps_intros]:
  "keeps receipts_file (settle_claim E t kind k)" "keeps receipts_file (service_acknowledge E t)"
  "keeps receipts_file (check_target_shape E project t att)"
  unfolding settle_claim_def service_acknowledge_def
  by (intro keeps_intros keeps_receipts_durable)+

lemma keeps_receipts_persist_launch [keeps_intros]: "keeps receipts_file (persist_launch E p rows Commit)"
  by (simp add: persist_launch_def keeps_intros)

lemma keeps_receipts_abandon [keeps_intros]: "keeps receipts_file (abandon_launch E r failure kind k Commit)"
  unfolding abandon_launch_def by (intro keeps_intros)

lemma keeps_receipts_spawn [keeps_intros]:
  "keeps receipts_file (spawn_start E k prompt inject att facts Commit r project g)"
  unfolding spawn_start_def by (intro keeps_intros)

lemma keeps_receipts_start [keeps_intros]:
  "keeps receipts_file (start E project t k pb prompt inject att facts)"
proof -
  have "keeps receipts_file (launch_claimed E project t k Start pb Commit
      (spawn_start E k prompt inject att facts Commit) s r g)" for s r g
    unfolding launch_claimed_def by (intro keeps_intros)
  then have "keeps receipts_file (case claimed of Duplicate c \<Rightarrow> fail (AlreadyClaimed t (kind_word Start) (claimed_at_ms c))
      | New _ \<Rightarrow> launch_claimed E project t k Start pb Commit (spawn_start E k prompt inject att facts Commit) s r g)"
    for claimed s r g
    by (cases claimed) (simp_all add: keeps_intros)
  then show ?thesis
    unfolding start_def start_as_def begin_under_lock_def by (intro keeps_intros)
qed

lemma keeps_receipts_create [keeps_intros]: "keeps receipts_file (create E project spec)"
proof -
  have "keeps receipts_file (finish_intent E p (r # rows) Commit)" for p r rows
    by (simp add: finish_intent_def keeps_intros)
  then have "keeps receipts_file (insert_new_task E p spec' Commit)" for p spec'
    unfolding insert_new_task_def build_new_records_def Let_def split by (intro keeps_intros)
  then show ?thesis
    unfolding create_def by (intro keeps_intros)
qed

lemma keeps_receipts_mutate [keeps_intros]: "keeps receipts_file (mutate E p change)"
  unfolding mutate_def by (intro keeps_intros)

lemma keeps_receipts_execute: "keeps receipts_file (execute_submission E C r project copy_root)"
  unfolding execute_submission_def by (intro keeps_intros)

section \<open>One submission\<close>

text \<open>
  What one submission does to the receipts and the executions: nothing but answer what is
  recorded, or record one new receipt, with at most one execution over a pending receipt.
\<close>

definition submitted ::
  "SubmissionPorts \<Rightarrow> string \<Rightarrow> SubmissionWorld \<Rightarrow> SubmissionError + SubmissionReceipt \<Rightarrow> SubmissionWorld \<Rightarrow> bool" where
  "submitted C i w res w' \<longleftrightarrow>
    (runs w' = runs w \<and> receipts_bytes w' = receipts_bytes w \<and> (\<forall>rc. res = Inr rc \<longrightarrow> receipt_of C i w = Some rc))
  \<or> (receipt_of C i w = None \<and> (\<forall>j. j \<noteq> i \<longrightarrow> receipt_of C j w' = receipt_of C j w)
     \<and> (\<exists>rc. receipt_of C i w' = Some rc \<and> (\<forall>x. res = Inr x \<longrightarrow> x = rc))
     \<and> (runs w' = runs w \<or> (\<exists>p. rc_state p = ReceiptPending \<and> runs w' = runs w @ [(i, Some p)])))"

lemma read_print:
  assumes "parse_receipts C (print_receipts C rs) = Some rs"
    and "receipts_schema rs = SUBMISSION_SCHEMA_VERSION" "fmpred receipt_ok (receipts_map rs)"
  shows "read_receipts C (Some (print_receipts C rs)) = Inr rs"
  using assms by (simp add: read_receipts_def)

lemma read_receipts_ok:
  "read_receipts C bytes = Inr rs \<Longrightarrow>
    receipts_schema rs = SUBMISSION_SCHEMA_VERSION \<and> fmpred receipt_ok (receipts_map rs)"
  by (auto simp: read_receipts_def split: option.splits if_splits)

lemma stored_quiet:
  assumes "quiet m" "stored_in m w = (res, w')"
  shows "runs w' = runs w" "receipts_bytes w' = receipts_bytes w"
proof -
  have "files (snd (m (disk (task_world w)))) = files (disk (task_world w))"
    using assms(1) by (simp add: quiet_def)
  then show "runs w' = runs w" "receipts_bytes w' = receipts_bytes w"
    using assms(2) by (auto simp: stored_in_def split: prod.splits sum.splits)
qed

lemma submissions_load_cases:
  assumes "submissions_load C S w = (res, w')"
  shows "runs w' = runs w" "receipts_bytes w' = receipts_bytes w"
    "\<And>rs. res = Inr rs \<Longrightarrow> read_receipts C (receipts_bytes w) = Inr rs"
proof -
  obtain got v where got: "stored_in (read_bytes S submissions_path) w = (got, v)" by fastforce
  have bytes: "got = Inr b \<Longrightarrow> b = receipts_bytes w" for b
    using got by (auto simp: stored_in_def read_bytes_def io_step_def op_defs split: option.splits)
  have v: "runs v = runs w" "receipts_bytes v = receipts_bytes w"
    by (rule stored_quiet [OF _ got]; rule quiet_intros)+
  have "w' = v \<and> (\<forall>rs. res = Inr rs \<longrightarrow> (\<exists>b. got = Inr b \<and> read_receipts C b = Inr rs))"
    using assms got
    by (auto simp: submissions_load_def op_defs split: sum.splits prod.splits)
  with v bytes show "runs w' = runs w" "receipts_bytes w' = receipts_bytes w"
    "\<And>rs. res = Inr rs \<Longrightarrow> read_receipts C (receipts_bytes w) = Inr rs"
    by auto
qed

lemma submissions_persist_cases:
  assumes "submissions_persist C S rs w = (res, w')"
  shows "runs w' = runs w"
    "res = Inr u \<Longrightarrow> receipts_bytes w' = Some (print_receipts C rs)"
    "res = Inl e \<Longrightarrow> receipts_bytes w' = receipts_bytes w"
proof -
  obtain wrote d where wrote: "write_atomic S submissions_path (print_receipts C rs) (disk (task_world w)) = (wrote, d)"
    by fastforce
  have "fmlookup (files d) submissions_path =
      (if isl wrote then receipts_bytes w else Some (print_receipts C rs))"
  proof (cases wrote)
    case (Inl e)
    with wrote write_atomic_err(1) [of S submissions_path "print_receipts C rs" "disk (task_world w)" e d] show ?thesis
      by auto
  next
    case (Inr u)
    with wrote write_atomic_ok(1) [of S submissions_path "print_receipts C rs" "disk (task_world w)" u d] show ?thesis
      by simp
  qed
  then show "runs w' = runs w"
    "res = Inr u \<Longrightarrow> receipts_bytes w' = Some (print_receipts C rs)"
    "res = Inl e \<Longrightarrow> receipts_bytes w' = receipts_bytes w"
    using assms wrote
    by (auto simp: submissions_persist_def stored_in_def require_writer_def op_defs split: option.splits sum.splits)
qed

lemma receipt_of_read:
  "read_receipts C (receipts_bytes w) = Inr rs \<Longrightarrow> receipt_of C i w = fmlookup (receipts_map rs) i"
  by (simp add: receipt_of_def)

text \<open>Once a new receipt is written, the file reads back as the old receipts and the new one.\<close>

lemma recorded:
  assumes codec: "\<And>rs. parse_receipts C (print_receipts C rs) = Some rs"
    and old: "read_receipts C (receipts_bytes w) = Inr rs"
    and new: "receipts_bytes w' = Some (print_receipts C (rs\<lparr>receipts_map := fmupd i rc (receipts_map rs)\<rparr>))"
    and rc: "receipt_ok i rc"
  shows "receipt_of C j w' = (if j = i then Some rc else receipt_of C j w)"
proof -
  let ?rs = "rs\<lparr>receipts_map := fmupd i rc (receipts_map rs)\<rparr>"
  have "fmpred receipt_ok (receipts_map ?rs)"
    using read_receipts_ok [OF old] rc by (auto simp: fmpred_iff)
  then have "read_receipts C (receipts_bytes w') = Inr ?rs"
    unfolding new using read_receipts_ok [OF old] by (intro read_print codec) simp_all
  then show ?thesis
    by (simp add: receipt_of_read [OF old] receipt_of_read)
qed

lemma new_receipt_ok:
  assumes "valid_identity (sr_submission_id r) (sr_fingerprint r)" "st \<noteq> ReceiptAccepted"
  shows "receipt_ok (sr_submission_id r) (receipt r st reasons)"
    "receipt_ok (sr_submission_id r) (settled_receipt r went (receipt r st reasons))"
  using assms by (simp_all add: receipt_ok_def receipt_def settled_receipt_def SUBMISSION_SCHEMA_VERSION_def)

text \<open>From the durable pending receipt on: the execution is logged once, the outcome recorded if it can be.\<close>

lemma execute_submitted:
  fixes r rs reasons
  defines "i \<equiv> sr_submission_id r" and "first \<equiv> receipt r ReceiptPending reasons"
    and "keep \<equiv> \<lambda>rc. rs\<lparr>receipts_map := fmupd (sr_submission_id r) rc (receipts_map rs)\<rparr>"
  assumes codec: "\<And>rs. parse_receipts C (print_receipts C rs) = Some rs"
    and old: "read_receipts C (receipts_bytes w) = Inr rs" and absent: "receipt_of C i w = None"
    and valid: "valid_identity i (sr_fingerprint r)" and frame: "keeps receipts_file execute"
    and w1: "receipts_bytes w1 = Some (print_receipts C (keep first))" "runs w1 = runs w"
    and run: "andThen (run_execute C r execute) (\<lambda>went. let result = settled_receipt r went first in
         andThen (submissions_persist C S (keep result)) (\<lambda>_. ok result)) w1 = (res, w')"
  shows "submitted C i w res w'"
proof -
  have kept: "receipt_of C j v = (if j = i then Some rc else receipt_of C j w)"
    if "receipts_bytes v = Some (print_receipts C (keep rc))" "receipt_ok i rc" for j v rc
    using recorded [OF codec old] that by (simp add: keep_def i_def)
  have ok: "receipt_ok i first" "receipt_ok i (settled_receipt r went first)" for went
    unfolding i_def first_def by (rule new_receipt_ok [OF valid [unfolded i_def]]; simp)+
  have one: "receipt_of C j w1 = (if j = i then Some first else receipt_of C j w)" for j
    by (rule kept [OF w1(1) ok(1)])
  obtain went tw where ex: "execute (task_world w1) = (went, tw)" by fastforce
  define w2 where "w2 = w1\<lparr>task_world := tw, runs := runs w1 @ [(i, receipt_of C i w1)]\<rparr>"
  have ran: "run_execute C r execute w1 = (Inr (\<not> isl went), w2)"
    by (simp add: run_execute_def ex w2_def i_def)
  have same: "receipts_bytes w2 = receipts_bytes w1"
    using keepsD [OF frame ex] by (simp add: w2_def receipts_file_def receipts_on_def)
  let ?last = "settled_receipt r (\<not> isl went) first"
  obtain res3 w3 where p3: "submissions_persist C S (keep ?last) w2 = (res3, w3)" by fastforce
  note c3 = submissions_persist_cases [OF p3]
  have final: "w' = w3" "res = (case res3 of Inl e \<Rightarrow> Inl e | Inr _ \<Rightarrow> Inr ?last)"
    using run ran p3 by (auto simp: op_defs Let_def split: sum.splits)
  have runs: "runs w' = runs w @ [(i, Some first)]" "rc_state first = ReceiptPending"
    using w1(2) c3(1) final(1) one by (simp_all add: w2_def first_def receipt_def)
  have "receipt_of C j w' = (if j = i then Some (case res3 of Inl _ \<Rightarrow> first | Inr _ \<Rightarrow> ?last) else receipt_of C j w)" for j
  proof (cases res3)
    case (Inl e)
    with c3(3) final(1) one [of j] same show ?thesis by (simp add: receipt_of_def)
  next
    case (Inr u)
    with kept [OF c3(2) [OF Inr] ok(2), of j] final(1) show ?thesis by simp
  qed
  with absent runs final(2) show ?thesis by (auto simp: submitted_def split: sum.splits)
qed

lemma submit_new_submitted:
  assumes codec: "\<And>rs. parse_receipts C (print_receipts C rs) = Some rs"
    and old: "read_receipts C (receipts_bytes w) = Inr rs"
    and none: "fmlookup (receipts_map rs) (sr_submission_id r) = None"
    and valid: "valid_identity (sr_submission_id r) (sr_fingerprint r)"
    and frame: "keeps receipts_file execute"
    and run: "submit_new C S r reasons execute rs w = (res, w')"
  shows "submitted C (sr_submission_id r) w res w'"
proof -
  let ?i = "sr_submission_id r"
  let ?first = "receipt r (if reasons = [] then ReceiptPending else RejectedBeforeSideEffect) reasons"
  let ?keep = "\<lambda>rc. rs\<lparr>receipts_map := fmupd ?i rc (receipts_map rs)\<rparr>"
  have absent: "receipt_of C ?i w = None" using none by (simp add: receipt_of_read [OF old])
  have ok: "receipt_ok ?i ?first" by (rule new_receipt_ok [OF valid]) simp
  obtain res1 w1 where p1: "submissions_persist C S (?keep ?first) w = (res1, w1)" by fastforce
  note c1 = submissions_persist_cases [OF p1]
  show ?thesis
  proof (cases res1)
    case (Inl e)
    with p1 run have "res = Inl e" "w' = w1" by (simp_all add: submit_new_def Let_def op_defs)
    with Inl c1 show ?thesis by (simp add: submitted_def)
  next
    case (Inr u)
    show ?thesis
    proof (cases "reasons = []")
      case False
      with p1 run Inr have "res = Inr ?first" "w' = w1"
        by (simp_all add: submit_new_def Let_def op_defs receipt_def)
      with absent recorded [OF codec old c1(2) [OF Inr] ok] c1(1) show ?thesis by (simp add: submitted_def)
    next
      case True
      show ?thesis
        by (rule execute_submitted [where reasons = reasons and S = S, OF codec old absent valid frame _ c1(1)])
          (use c1(2) [OF Inr] run p1 Inr True in \<open>simp_all add: submit_new_def Let_def op_defs receipt_def\<close>)
    qed
  qed
qed

lemma submit_submitted:
  assumes codec: "\<And>rs. parse_receipts C (print_receipts C rs) = Some rs"
    and frame: "keeps receipts_file execute" and run: "submit C S r reasons execute w = (res, w')"
  shows "submitted C (sr_submission_id r) w res w'"
proof (cases "(\<not> valid_identity (sr_submission_id r) (sr_fingerprint r) \<or> sr_fingerprint r \<noteq> fingerprint C r) \<or> lease S = None")
  case True
  with run have "isl res" "w' = w"
    by (auto simp: submit_def stored_in_def require_writer_def op_defs split: if_splits)
  then show ?thesis by (auto simp: submitted_def)
next
  case False
  then have valid: "valid_identity (sr_submission_id r) (sr_fingerprint r)" by blast
  obtain got w1 where l: "submissions_load C S w = (got, w1)" by fastforce
  note load = submissions_load_cases [OF l]
  have on: "andThen (submissions_load C S) (\<lambda>rs. case fmlookup (receipts_map rs) (sr_submission_id r) of
           Some previous \<Rightarrow> if rc_fingerprint previous \<noteq> sr_fingerprint r then fail SubmissionConflict else ok previous
         | None \<Rightarrow> submit_new C S r (reasons @ refusal_reasons r) execute rs) w = (res, w')"
    using run False by (auto simp: submit_def stored_in_def require_writer_def op_defs)
  show ?thesis
  proof (cases got)
    case (Inl e)
    with on l load show ?thesis by (auto simp: op_defs submitted_def)
  next
    case (Inr rs)
    note rs = load(3) [OF Inr]
    show ?thesis
    proof (cases "fmlookup (receipts_map rs) (sr_submission_id r)")
      case None
      with on l Inr have "submit_new C S r (reasons @ refusal_reasons r) execute rs w1 = (res, w')" by (simp add: op_defs)
      from submit_new_submitted [OF codec _ None valid frame this] rs load(1,2) show ?thesis
        by (simp add: submitted_def receipt_of_def)
    next
      case (Some previous)
      with on l Inr load receipt_of_read [OF rs] show ?thesis
        by (auto simp: op_defs submitted_def split: if_splits)
    qed
  qed
qed

lemma service_submit_head:
  "(\<exists>e. service_submit E C r w = (Inl e, w) \<and> lease (store E) = None)
  \<or> (\<exists>reasons project copy_root. service_submit E C r w
      = submit C (store E) r reasons (execute_submission E C r project copy_root) w)"
proof (cases "lease (store E)")
  case None
  then show ?thesis by (simp add: service_submit_def stored_in_def require_writer_def op_defs)
next
  case (Some holder)
  then show ?thesis
    by (simp add: service_submit_def stored_in_def require_writer_def op_defs Let_def split_def) blast
qed

lemma service_submit_submitted:
  assumes "\<And>rs. parse_receipts C (print_receipts C rs) = Some rs" and "service_submit E C r w = (res, w')"
  shows "submitted C (sr_submission_id r) w res w'"
  using service_submit_head [of E C r w]
proof (elim disjE exE conjE)
  fix e assume "service_submit E C r w = (Inl e, w)"
  with assms(2) show ?thesis by (auto simp: submitted_def)
next
  fix reasons project copy_root
  assume "service_submit E C r w = submit C (store E) r reasons (execute_submission E C r project copy_root) w"
  with assms(2) show ?thesis by (metis submit_submitted [OF assms(1) keeps_receipts_execute])
qed

section \<open>Any sequence of submissions\<close>

text \<open>
  Submissions of any process, lookups, and everything else the service, a restart or another
  writer does that leaves \<open>task-submissions.json\<close> alone.
\<close>

inductive submission_step :: "SubmissionPorts \<Rightarrow> SubmissionWorld \<Rightarrow> SubmissionWorld \<Rightarrow> bool" for C where
  submission: "service_submit E C r w = (res, w') \<Longrightarrow> submission_step C w w'"
| looking: "lookup C S i fp w = (found, w') \<Longrightarrow> submission_step C w w'"
| elsewhere: "receipts_file v = receipts_file (task_world w) \<Longrightarrow> submission_step C w (w\<lparr>task_world := v\<rparr>)"

lemma lookup_reads:
  assumes "lookup C S i fp w = (found, w')"
  shows "runs w' = runs w" "receipts_bytes w' = receipts_bytes w"
proof -
  obtain got v where got: "submissions_load C S w = (got, v)" by fastforce
  have "w' = w \<or> w' = v"
    using assms got
    by (auto simp: lookup_def op_defs Let_def split: if_splits sum.splits option.splits)
  with submissions_load_cases(1,2) [OF got] show "runs w' = runs w" "receipts_bytes w' = receipts_bytes w" by auto
qed

definition runs_ok :: "SubmissionPorts \<Rightarrow> SubmissionWorld \<Rightarrow> bool" where
  "runs_ok C w \<longleftrightarrow> distinct (map fst (runs w))
    \<and> (\<forall>(i, seen) \<in> set (runs w). receipt_of C i w \<noteq> None \<and> (\<exists>p. seen = Some p \<and> rc_state p = ReceiptPending))"

lemma receipt_of_cong: "receipts_bytes w' = receipts_bytes w \<Longrightarrow> receipt_of C i w' = receipt_of C i w"
  by (simp add: receipt_of_def)

text \<open>Each step leaves receipts and executions as they were, or records one new identity.\<close>

lemma submission_step_cases:
  assumes step: "submission_step C w w'" and codec: "\<And>rs. parse_receipts C (print_receipts C rs) = Some rs"
  obtains (same) "runs w' = runs w" "receipts_bytes w' = receipts_bytes w"
  | (new) i rc more where "receipt_of C i w = None" "receipt_of C i w' = Some rc"
      "\<And>j. j \<noteq> i \<Longrightarrow> receipt_of C j w' = receipt_of C j w" "runs w' = runs w @ more"
      "more = [] \<or> (\<exists>p. rc_state p = ReceiptPending \<and> more = [(i, Some p)])"
  using step
proof cases
  case (submission E r res)
  then have "submitted C (sr_submission_id r) w res w'" using service_submit_submitted [OF codec] by blast
  then show ?thesis unfolding submitted_def
    using same new [where more = "[]"] new [where more = "[(sr_submission_id r, Some p)]" for p] by auto
next
  case (looking S i fp found)
  then show ?thesis using lookup_reads same by blast
next
  case (elsewhere v)
  then show ?thesis by (intro same) (simp_all add: receipts_file_def receipts_on_def)
qed

lemma submission_step_grows:
  assumes "submission_step C w w'" and codec: "\<And>rs. parse_receipts C (print_receipts C rs) = Some rs"
    and "receipt_of C j w = Some rc"
  shows "receipt_of C j w' = Some rc"
  using assms(1) codec
proof (cases rule: submission_step_cases)
  case same
  with assms(3) receipt_of_cong show ?thesis by metis
next
  case (new i)
  with assms(3) show ?thesis by (cases "j = i") simp_all
qed

lemma submission_step_runs:
  assumes "submission_step C w w'" and codec: "\<And>rs. parse_receipts C (print_receipts C rs) = Some rs"
    and ok: "runs_ok C w"
  shows "runs_ok C w'"
proof -
  have known: "receipt_of C k w' \<noteq> None" if "receipt_of C k w \<noteq> None" for k
    using that submission_step_grows [OF assms(1) codec, of k] by auto
  then have old: "\<forall>(k, seen) \<in> set (runs w). receipt_of C k w' \<noteq> None \<and> (\<exists>p. seen = Some p \<and> rc_state p = ReceiptPending)"
    using ok unfolding runs_ok_def by blast
  show ?thesis
    using assms(1) codec
  proof (cases rule: submission_step_cases)
    case same
    with ok old show ?thesis by (simp add: runs_ok_def)
  next
    case (new i rc more)
    have "i \<notin> fst ` set (runs w)" using ok new(1) unfolding runs_ok_def by fastforce
    with new ok old show ?thesis unfolding runs_ok_def by auto
  qed
qed

lemma submission_run_keeps:
  assumes "(submission_step C)\<^sup>*\<^sup>* w w'" and codec: "\<And>rs. parse_receipts C (print_receipts C rs) = Some rs"
  shows "receipt_of C j w = Some rc \<Longrightarrow> receipt_of C j w' = Some rc" "runs_ok C w \<Longrightarrow> runs_ok C w'"
  using assms(1)
  by (induction rule: rtranclp_induct)
    (simp_all add: submission_step_grows [OF _ codec] submission_step_runs [OF _ codec])

text \<open>
  C5. Over any sequence of submissions by any process, lookups, restarts and other work that leaves
  the receipts file alone, with storage failing at any point, no submission identity is executed
  twice, every execution found its pending receipt already in the file, and a receipt once in the
  file is never changed.
\<close>

theorem submission_executed_once:
  assumes "\<And>rs. parse_receipts C (print_receipts C rs) = Some rs"
    and "(submission_step C)\<^sup>*\<^sup>* w w'" and "runs w = []"
  shows "distinct (map fst (runs w'))
    \<and> (\<forall>(i, seen) \<in> set (runs w'). \<exists>p. seen = Some p \<and> rc_state p = ReceiptPending)
    \<and> (\<forall>i rc. receipt_of C i w = Some rc \<longrightarrow> receipt_of C i w' = Some rc)"
proof -
  have "runs_ok C w" using assms(3) by (simp add: runs_ok_def)
  with submission_run_keeps [OF assms(2,1)] show ?thesis by (fastforce simp: runs_ok_def)
qed

lemma service_submit_answer:
  assumes "service_submit E C r w = (Inr rc, w')"
  shows "valid_identity (sr_submission_id r) (sr_fingerprint r)" "sr_fingerprint r = fingerprint C r"
    "rc_fingerprint rc = sr_fingerprint r"
proof -
  obtain reasons project copy_root v where
      run: "submit C (store E) r reasons (execute_submission E C r project copy_root) v = (Inr rc, w')"
    using assms service_submit_head [of E C r w] by auto
  then show "valid_identity (sr_submission_id r) (sr_fingerprint r)" "sr_fingerprint r = fingerprint C r"
    by (auto simp: submit_def fail_def split: if_splits)
  with run obtain rs v' where
      "(case fmlookup (receipts_map rs) (sr_submission_id r) of
           Some previous \<Rightarrow> if rc_fingerprint previous \<noteq> sr_fingerprint r then fail SubmissionConflict else ok previous
         | None \<Rightarrow> submit_new C (store E) r (reasons @ refusal_reasons r)
             (execute_submission E C r project copy_root) rs) v' = (Inr rc, w')"
    by (auto simp: submit_def andThen_Inr)
  moreover have "rc_fingerprint rc = sr_fingerprint r"
    if "submit_new C (store E) r rsn ex rs v' = (Inr rc, w')" for rsn ex
    using that
    by (auto simp: submit_new_def andThen_Inr op_eval Let_def receipt_def settled_receipt_def split: if_splits)
  ultimately show "rc_fingerprint rc = sr_fingerprint r"
    by (auto simp: op_eval split: option.splits if_splits)
qed

lemma submit_known:
  assumes "lease S = Some holder" "no_faults S"
    and "valid_identity (sr_submission_id r) (sr_fingerprint r)" "sr_fingerprint r = fingerprint C r"
    and known: "receipt_of C (sr_submission_id r) w = Some rc" and "rc_fingerprint rc = sr_fingerprint r"
  shows "fst (submit C S r reasons execute w) = Inr rc"
proof -
  obtain rs where rs: "read_receipts C (receipts_bytes w) = Inr rs" "fmlookup (receipts_map rs) (sr_submission_id r) = Some rc"
    using known by (auto simp: receipt_of_def split: sum.splits)
  have "\<exists>v. submissions_load C S w = (Inr rs, v)"
    using assms(2) rs(1) by (simp add: submissions_load_def stored_in_def read_bytes_def io_step_def op_defs)
  with assms rs(2) show ?thesis
    by (auto simp: submit_def stored_in_def require_writer_def op_defs)
qed

lemma submitted_answer: "submitted C i w (Inr rc) w' \<Longrightarrow> receipt_of C i w' = Some rc"
  unfolding submitted_def by (metis receipt_of_cong)

lemma submitted_known:
  "submitted C i w res w' \<Longrightarrow> receipt_of C i w = Some rc \<Longrightarrow>
    runs w' = runs w \<and> receipts_bytes w' = receipts_bytes w \<and> (\<forall>x. res = Inr x \<longrightarrow> x = rc)"
  unfolding submitted_def by force

text \<open>
  C6. Retrying a submission: once a submission was answered, the same request sent again, by any
  process and after anything that leaves the receipts file alone, executes nothing and is answered with
  the very same receipt; it is answered whenever the process may write and storage does not fail.
\<close>

theorem submission_retry_same_receipt:
  assumes codec: "\<And>rs. parse_receipts C (print_receipts C rs) = Some rs"
    and first: "service_submit E C r w = (Inr rc, w1)" and "(submission_step C)\<^sup>*\<^sup>* w1 w2"
    and again: "service_submit E' C r w2 = (res, w3)"
  shows "runs w3 = runs w2 \<and> receipts_bytes w3 = receipts_bytes w2 \<and> (\<forall>x. res = Inr x \<longrightarrow> x = rc)
    \<and> (lease (store E') \<noteq> None \<and> no_faults (store E') \<longrightarrow> res = Inr rc)"
proof -
  let ?i = "sr_submission_id r"
  have "receipt_of C ?i w1 = Some rc"
    by (rule submitted_answer [OF service_submit_submitted [OF codec first]])
  then have known: "receipt_of C ?i w2 = Some rc"
    by (rule submission_run_keeps(1) [OF assms(3) codec])
  have "res = Inr rc" if lease: "lease (store E') = Some holder" and quiet: "no_faults (store E')" for holder
  proof -
    obtain reasons project copy_root where
        "submit C (store E') r reasons (execute_submission E' C r project copy_root) w2 = (res, w3)"
      using again lease service_submit_head [of E' C r w2] by auto
    with submit_known [OF lease quiet service_submit_answer(1,2) [OF first] known service_submit_answer(3) [OF first]]
    show ?thesis by (metis fst_conv)
  qed
  with submitted_known [OF service_submit_submitted [OF codec again] known] show ?thesis by blast
qed

section \<open>The canonical bytes\<close>

text \<open>An encoding whose end can be found: what follows it does not matter.\<close>

locale self_delimiting =
  fixes enc :: "'a \<Rightarrow> string" and fits :: "'a \<Rightarrow> bool"
  assumes delimited: "fits x \<Longrightarrow> fits y \<Longrightarrow> enc x @ u = enc y @ v \<Longrightarrow> x = y \<and> u = v"
begin

lemma delimited_list:
  "length xs = length ys \<Longrightarrow> list_all fits xs \<Longrightarrow> list_all fits ys \<Longrightarrow>
    concat (map enc xs) @ u = concat (map enc ys) @ v \<Longrightarrow> xs = ys \<and> u = v"
proof (induction xs ys rule: list_induct2)
  case (Cons x xs y ys)
  then have "x = y \<and> concat (map enc xs) @ u = concat (map enc ys) @ v"
    by (intro delimited) simp_all
  with Cons show ?case by simp
qed simp

end

lemma digits_determine:
  assumes "\<And>i. i < k \<Longrightarrow> n div 256 ^ i mod 256 = m div 256 ^ i mod (256 :: nat)"
  shows "n mod 256 ^ k = m mod 256 ^ k"
  using assms
proof (induction k)
  case (Suc k)
  have "n mod 256 ^ Suc k = 256 ^ k * (n div 256 ^ k mod 256) + n mod 256 ^ k" for n :: nat
    by (subst power_Suc2, rule mod_mult2_eq)
  with Suc show ?case by simp
qed simp

abbreviation fits_u64 :: "nat \<Rightarrow> bool" where
  "fits_u64 n \<equiv> n < 2 ^ 64"

lemma to_be_bytes_delimited:
  assumes "fits_u64 n" "fits_u64 m" "to_be_bytes n @ u = to_be_bytes m @ v"
  shows "n = m \<and> u = v"
proof -
  have len: "length (to_be_bytes k) = 8" for k by (simp add: to_be_bytes_def)
  have eq: "to_be_bytes n = to_be_bytes m" "u = v" using assms(3) len by (metis append_eq_append_conv)+
  have byte: "n div 256 ^ i mod 256 = m div 256 ^ i mod 256" if "i \<in> {0,1,2,3,4,5,6,7}" for i
  proof -
    have "char_of (n div 256 ^ i mod 256) = (char_of (m div 256 ^ i mod 256) :: char)"
      using that eq(1) by (auto simp only: to_be_bytes_def list.map list.inject)
    then have "(of_char (char_of (n div 256 ^ i mod 256) :: char) :: nat) = of_char (char_of (m div 256 ^ i mod 256) :: char)"
      by simp
    then show ?thesis by (simp del: of_char_eq_iff)
  qed
  have "n mod 256 ^ 8 = m mod 256 ^ 8"
  proof (rule digits_determine)
    fix i :: nat assume "i < 8"
    then have "i \<in> {0,1,2,3,4,5,6,7}" by auto
    then show "n div 256 ^ i mod 256 = m div 256 ^ i mod 256" by (rule byte)
  qed
  with assms(1,2) eq(2) show ?thesis by simp
qed

definition fits_text :: "string \<Rightarrow> bool" where
  "fits_text s \<longleftrightarrow> fits_u64 (length s)"

definition fits_optional :: "string option \<Rightarrow> bool" where
  "fits_optional v \<longleftrightarrow> (case v of None \<Rightarrow> True | Some s \<Rightarrow> fits_text s)"

interpretation text_code: self_delimiting material_text fits_text
proof
  fix x y u v
  assume "fits_text x" "fits_text y" "material_text x @ u = material_text y @ v"
  then have "length x = length y \<and> x @ u = y @ v"
    unfolding material_text_def append_assoc fits_text_def by (rule to_be_bytes_delimited)
  then show "x = y \<and> u = v" by (metis append_eq_append_conv)
qed

interpretation flag_code: self_delimiting material_flag "\<lambda>_. True"
  by unfold_locales (simp add: material_flag_def split: if_splits)

lemma optional_split:
  assumes "fits_optional x" "fits_optional y" "material_optional x @ u = material_optional y @ v"
  shows "x = y \<and> u = v"
proof (cases x)
  case None
  with assms(3) show ?thesis by (cases y) (simp_all add: material_optional_def material_flag_def)
next
  case (Some a)
  with assms(3) obtain b where b: "y = Some b" by (cases y) (simp_all add: material_optional_def material_flag_def)
  have "a = b \<and> u = v"
    by (rule text_code.delimited)
      (use assms Some b in \<open>simp_all only: fits_optional_def material_optional_def option.case append_assoc same_append_eq\<close>)
  with Some b show ?thesis by simp
qed

interpretation optional_code: self_delimiting material_optional fits_optional
  by unfold_locales (rule optional_split)

text \<open>Every length of the request fits a \<open>u64\<close>, as every Rust string's does.\<close>

abbreviation request_texts :: "SubmissionRequest \<Rightarrow> string list" where
  "request_texts r \<equiv> [sr_project_id r, sr_configuration_id r, sr_configuration_version r, sr_agent r,
     sr_prompt r, sr_permission_mode r, sr_permission_agent r]"

definition request_fits :: "SubmissionRequest \<Rightarrow> bool" where
  "request_fits r \<longleftrightarrow> list_all fits_text (request_texts r)
    \<and> list_all fits_text (sr_attachments r) \<and> fits_u64 (length (sr_attachments r))
    \<and> fits_optional (sr_selected_model r) \<and> fits_optional (sr_reasoning_effort r)
    \<and> fits_optional (sr_worktree r) \<and> fits_optional (sr_recipe_id r)"

lemma request_fitsD:
  assumes "request_fits q"
  shows "list_all fits_text (request_texts q)" "list_all fits_text (sr_attachments q)"
    "fits_u64 (length (sr_attachments q))" "fits_optional (sr_selected_model q)"
    "fits_optional (sr_reasoning_effort q)" "fits_optional (sr_worktree q)" "fits_optional (sr_recipe_id q)"
    "length (request_texts q) = 7"
  using assms by (simp_all add: request_fits_def)

text \<open>
  C21. The canonical bytes of a submission determine everything it asks for: two requests with the same
  bytes differ at most in the schema version, the identity and the stated fingerprint, which are
  left out on purpose.
\<close>

theorem fingerprint_material_injective:
  assumes "request_fits r" "request_fits r'" "fingerprint_material r = fingerprint_material r'"
  shows "r'\<lparr>sr_schema_version := sr_schema_version r, sr_submission_id := sr_submission_id r,
      sr_fingerprint := sr_fingerprint r\<rparr> = r"
proof -
  note f = request_fitsD [OF assms(1)] and f' = request_fitsD [OF assms(2)]
  note texts = text_code.delimited_list [OF trans [OF f(8) f'(8) [symmetric]] f(1) f'(1)
      assms(3) [unfolded fingerprint_material_def same_append_eq]]
  note model = optional_code.delimited [OF f(4) f'(4) texts [THEN conjunct2]]
  note effort = optional_code.delimited [OF f(5) f'(5) model [THEN conjunct2]]
  note count = to_be_bytes_delimited [OF f(3) f'(3) effort [THEN conjunct2]]
  note files = text_code.delimited_list [OF count [THEN conjunct1] f(2) f'(2) count [THEN conjunct2]]
  note worktree = optional_code.delimited [OF f(6) f'(6) files [THEN conjunct2]]
  note recipe = optional_code.delimited [OF f(7) f'(7) worktree [THEN conjunct2]]
  note team = flag_code.delimited [OF TrueI TrueI recipe [THEN conjunct2]]
  note review = flag_code.delimited [OF TrueI TrueI team [THEN conjunct2]]
  note evolution = flag_code.delimited [OF TrueI TrueI review [THEN conjunct2]]
  have flags: "sr_clarify r = sr_clarify r' \<and> sr_isolated r = sr_isolated r'"
    using evolution [THEN conjunct2] by (simp split: if_splits)
  show ?thesis
    by (rule SubmissionRequest.equality)
      (use texts [THEN conjunct1] model [THEN conjunct1] effort [THEN conjunct1] files [THEN conjunct1]
        worktree [THEN conjunct1] recipe [THEN conjunct1] team [THEN conjunct1] review [THEN conjunct1]
        evolution [THEN conjunct1] flags in simp_all)
qed
section \<open>Sample submissions\<close>

text \<open>A codec of the receipts file that reads back what it prints, and a request it accepts.\<close>

instance SubmissionState :: countable
  by countable_datatype

instance SubmissionReason :: countable
  by countable_datatype

instance SubmissionReceipt_ext :: (countable) countable
proof (rule countable_classI [of "\<lambda>r. to_nat (rc_schema_version r, rc_submission_id r, rc_project_id r,
    rc_configuration_id r, rc_configuration_version r, rc_fingerprint r, rc_state r, rc_task_id r, rc_reasons r,
    rc_agent r, rc_selected_model r, rc_reasoning_effort r, rc_permission_mode r, rc_permission_agent r,
    rc_options r, SubmissionReceipt.more r)"])
qed (simp add: SubmissionReceipt.equality)

instance Receipts_ext :: (countable) countable
proof (rule countable_classI [of "\<lambda>r. to_nat (receipts_schema r, receipts_map r, Receipts.more r)"])
qed (simp add: Receipts.equality)

definition sample_print :: "Receipts \<Rightarrow> string" where
  "sample_print rs = replicate (to_nat rs) (CHR ''a'')"

definition sample_parse :: "string \<Rightarrow> Receipts option" where
  "sample_parse bytes = Some (from_nat (length bytes))"

definition sample_ports :: SubmissionPorts where
  "sample_ports = \<lparr>sha256_hex = (\<lambda>_. replicate 64 (CHR ''0'')), print_receipts = sample_print,
     parse_receipts = sample_parse, catalog_for = (\<lambda>_ _. Inr (fmempty, [])), copy_check = (\<lambda>_. None),
     copy_create = (\<lambda>_ _. Inr []), clarify_wrap = (\<lambda>p. p)\<rparr>"

lemma sample_codec: "parse_receipts sample_ports (print_receipts sample_ports rs) = Some rs"
  by (simp add: sample_ports_def sample_print_def sample_parse_def)

definition sample_request :: SubmissionRequest where
  "sample_request = \<lparr>sr_schema_version = 1, sr_submission_id = ''s'', sr_project_id = ''p'', sr_configuration_id = [],
     sr_configuration_version = [], sr_fingerprint = ''sha256:'' @ replicate 64 (CHR ''0''), sr_agent = ''codex'', sr_prompt = ''go'',
     sr_permission_mode = ''ask'', sr_permission_agent = ''codex'', sr_selected_model = None, sr_reasoning_effort = None,
     sr_attachments = [], sr_worktree = None, sr_recipe_id = None, sr_team = False, sr_review = False,
     sr_evolution = False, sr_clarify = False, sr_isolated = False\<rparr>"

definition sample_submission :: SubmissionWorld where
  "sample_submission = \<lparr>task_world = sample_world, runs = []\<rparr>"

lemma sample_valid:
  "valid_identity (sr_submission_id sample_request) (sr_fingerprint sample_request)"
  "sr_fingerprint sample_request = fingerprint sample_ports sample_request"
  by (simp_all add: valid_identity_def sample_request_def id_byte_def lower_hex_def Let_def numeral_eq_Suc
     fingerprint_def sample_ports_def byte_of_def)

lemma sample_reasons: "refusal_reasons sample_request = []"
  by (simp add: refusal_reasons_def sample_request_def SUBMISSION_SCHEMA_VERSION_def) code_simp


lemma persist_goes_through:
  assumes "no_faults S" "lease S = Some h" "no_temporaries S submissions_path (disk (task_world w))"
  shows "\<exists>d. submissions_persist C S rs w = (Inr (), w\<lparr>task_world := (task_world w)\<lparr>disk := d\<rparr>\<rparr>)
    \<and> files d = fmupd submissions_path (print_receipts C rs) (files (disk (task_world w)))
    \<and> no_temporaries S submissions_path d"
proof -
  let ?d = "disk (task_world w)"
  obtain i where "write_atomic S submissions_path (print_receipts C rs) ?d
      = (Inr (), ?d\<lparr>files := fmupd submissions_path (print_receipts C rs) (files ?d), ios := i\<rparr>)"
    using write_atomic_no_fault [OF assms(1,3)] by blast
  with assms(2,3) show ?thesis
    by (intro exI [of _ "?d\<lparr>files := fmupd submissions_path (print_receipts C rs) (files ?d), ios := i\<rparr>"])
      (simp add: submissions_persist_def stored_in_def require_writer_def op_defs no_temporaries_def)
qed

text \<open>
  When storage works, a new submission nothing speaks against is executed, and answered by how that went.
\<close>

lemma submit_new_goes_through:
  assumes S: "no_faults S" "lease S = Some h" and clean: "no_temporaries S submissions_path (disk (task_world w))"
    and exec: "\<And>d. fst (execute ((task_world w)\<lparr>disk := d\<rparr>)) = out"
      "\<And>d. no_temporaries S submissions_path d \<Longrightarrow>
        no_temporaries S submissions_path (disk (snd (execute ((task_world w)\<lparr>disk := d\<rparr>))))"
  shows "\<exists>w'. submit_new C S r [] execute rs w
      = (Inr (settled_receipt r (\<not> isl out) (receipt r ReceiptPending [])), w') \<and> length (runs w') = Suc (length (runs w))"
proof -
  let ?keep = "\<lambda>rc. rs\<lparr>receipts_map := fmupd (sr_submission_id r) rc (receipts_map rs)\<rparr>"
  let ?first = "receipt r ReceiptPending []"
  obtain d where p1: "submissions_persist C S (?keep ?first) w = (Inr (), w\<lparr>task_world := (task_world w)\<lparr>disk := d\<rparr>\<rparr>)"
      and "no_temporaries S submissions_path d"
    using persist_goes_through [OF S clean] by blast
  let ?w1 = "w\<lparr>task_world := (task_world w)\<lparr>disk := d\<rparr>\<rparr>"
  define w2 where "w2 = ?w1\<lparr>task_world := snd (execute (task_world ?w1)),
      runs := runs w @ [(sr_submission_id r, receipt_of C (sr_submission_id r) ?w1)]\<rparr>"
  have ran: "run_execute C r execute ?w1 = (Inr (\<not> isl out), w2)"
    using exec(1) [of d] by (cases "execute (task_world ?w1)") (simp add: run_execute_def w2_def)
  have "no_temporaries S submissions_path (disk (task_world w2))"
    using exec(2) [OF \<open>no_temporaries S submissions_path d\<close>] by (simp add: w2_def)
  then obtain d' where "submissions_persist C S (?keep (settled_receipt r (\<not> isl out) ?first)) w2
      = (Inr (), w2\<lparr>task_world := (task_world w2)\<lparr>disk := d'\<rparr>\<rparr>)"
    using persist_goes_through [OF S] by blast
  with p1 ran show ?thesis
    by (simp add: submit_new_def Let_def op_defs receipt_def) (simp add: w2_def)
qed

lemma sample_submitted:
  "\<exists>rc w'. service_submit (sample_service rows f) sample_ports sample_request sample_submission = (Inr rc, w')
    \<and> length (runs w') = 1"
proof -
  let ?E = "sample_service rows f"
  let ?ex = "execute_submission ?E sample_ports sample_request (Some fmempty) None"
  have ex: "?ex v = (Inl (StorageErr (InvalidId EmptyId)), v)" for v
    by (simp add: execute_submission_def create_def Let_def op_defs record_id_def str_field_def get_def)
  have S: "no_faults (store ?E)" "lease (store ?E) = Some ''e1''" 
    by (simp_all add: sample_service_def sample_store_def)
  have clean: "no_temporaries (store ?E) submissions_path (disk (task_world sample_submission))"
    by (simp add: no_temporaries_def sample_submission_def sample_world_def sample_service_def sample_store_def temporary_path_def
      tasks_path_def submissions_path_def directory_of_def temporary_name_def)
  have load: "submissions_load sample_ports (store ?E) sample_submission
      = (Inr \<lparr>receipts_schema = SUBMISSION_SCHEMA_VERSION, receipts_map = fmempty\<rparr>,
         sample_submission\<lparr>task_world := sample_world\<lparr>disk := (disk sample_world)\<lparr>ios := 1\<rparr>\<rparr>\<rparr>)"
    using S by (simp add: submissions_load_def stored_in_def read_bytes_def io_step_def op_defs read_receipts_def
      sample_submission_def sample_world_def submissions_path_def tasks_path_def)
  let ?w1 = "sample_submission\<lparr>task_world := sample_world\<lparr>disk := (disk sample_world)\<lparr>ios := 1\<rparr>\<rparr>\<rparr>"
  obtain rc w' where new: "submit_new sample_ports (store ?E) sample_request [] ?ex
        \<lparr>receipts_schema = SUBMISSION_SCHEMA_VERSION, receipts_map = fmempty\<rparr> ?w1 = (Inr rc, w')"
      "length (runs w') = Suc (length (runs ?w1))"
  proof -
    have out: "fst (?ex ((task_world ?w1)\<lparr>disk := d\<rparr>)) = Inl (StorageErr (InvalidId EmptyId))" for d
      by (simp add: ex)
    have kept: "no_temporaries (store ?E) submissions_path (disk (snd (?ex ((task_world ?w1)\<lparr>disk := d\<rparr>))))"
      if "no_temporaries (store ?E) submissions_path d" for d
      using that by (simp add: ex)
    have "no_temporaries (store ?E) submissions_path (disk (task_world ?w1))"
      using clean by (simp add: no_temporaries_def sample_submission_def)
    from submit_new_goes_through [where execute = ?ex and C = sample_ports and r = sample_request
        and rs = "\<lparr>receipts_schema = SUBMISSION_SCHEMA_VERSION, receipts_map = fmempty\<rparr>", OF S this out kept]
    show ?thesis using that by blast
  qed
  have "service_submit ?E sample_ports sample_request sample_submission
      = submit sample_ports (store ?E) sample_request [] ?ex sample_submission"
    using S by (simp add: service_submit_def stored_in_def require_writer_def op_defs sample_ports_def sample_request_def)
  also have "\<dots> = (Inr rc, w')"
    using S sample_valid load new(1) sample_reasons by (simp add: submit_def stored_in_def require_writer_def op_defs)
  finally show ?thesis using new(2) by (simp add: sample_submission_def)
qed


theorem submission_executed_once_witness:
  "\<exists>w'. (submission_step sample_ports)\<^sup>*\<^sup>* sample_submission w' \<and> length (runs w') = 1 \<and> distinct (map fst (runs w'))"
proof -
  obtain rc w' where w': "service_submit (sample_service [] None) sample_ports sample_request sample_submission = (Inr rc, w')"
      "length (runs w') = 1"
    using sample_submitted by blast
  then have "(submission_step sample_ports)\<^sup>*\<^sup>* sample_submission w'"
    by (intro r_into_rtranclp submission)
  with submission_executed_once [OF sample_codec this] w'(2) show ?thesis by (auto simp: sample_submission_def)
qed

theorem submission_retry_same_receipt_witness:
  "\<exists>rc w1 w3. service_submit (sample_service [] None) sample_ports sample_request sample_submission = (Inr rc, w1)
    \<and> service_submit (sample_service [] None) sample_ports sample_request w1 = (Inr rc, w3) \<and> length (runs w3) = 1"
proof -
  let ?E = "sample_service [] None"
  obtain rc w1 where w1: "service_submit ?E sample_ports sample_request sample_submission = (Inr rc, w1)"
      "length (runs w1) = 1"
    using sample_submitted by blast
  obtain res w3 where w3: "service_submit ?E sample_ports sample_request w1 = (res, w3)" by fastforce
  have "lease (store ?E) \<noteq> None" "no_faults (store ?E)" by (simp_all add: sample_service_def sample_store_def)
  with submission_retry_same_receipt [OF sample_codec w1(1) rtranclp.rtrancl_refl w3]
  have "runs w3 = runs w1" "res = Inr rc" by blast+
  with w1 w3 show ?thesis by (metis (no_types))
qed

theorem fingerprint_material_injective_witness:
  "request_fits sample_request \<and> (sample_request\<lparr>sr_submission_id := ''t''\<rparr>)\<lparr>sr_schema_version := sr_schema_version sample_request,
      sr_submission_id := sr_submission_id sample_request, sr_fingerprint := sr_fingerprint sample_request\<rparr> = sample_request"
proof -
  have fits: "request_fits sample_request" "request_fits (sample_request\<lparr>sr_submission_id := ''t''\<rparr>)"
    by (simp_all add: request_fits_def sample_request_def fits_text_def fits_optional_def)
  moreover have "fingerprint_material sample_request = fingerprint_material (sample_request\<lparr>sr_submission_id := ''t''\<rparr>)"
    by (simp add: fingerprint_material_def)
  ultimately show ?thesis using fingerprint_material_injective by blast
qed

end
