(* ===== verification/WriterLease.thy ===== *)
theory WriterLease
  imports Prelude "HOL-Library.Sublist"
begin

text \<open>
  One data directory, one writer: \<open>storage_lock.rs\<close>, the location policy of \<open>location.rs\<close>,
  \<open>clock::writer_epoch\<close> and \<open>CoreContext::require_write\<close>. Any number of processes compete for one
  directory. The operating system is modelled as far as the source uses it: the name
  \<open>.write.lock\<close> leads to a file (an inode) or to nothing, an advisory lock belongs to the file a
  process has open and disappears with the process, and a new file gets an inode nobody has open.
  \<open>acquire\<close> is the sequence of its system calls, so that other processes and whoever removes the
  file can come in between. The contents of the lock file are kept decoded, and the texts of the
  errors are dropped.
\<close>

section \<open>location.rs\<close>

datatype VolumeKind = LocalVolume | CloudSyncedRoot | NonLocal | UnknownVolume

fun volume_as_str :: "VolumeKind \<Rightarrow> string" where
  "volume_as_str LocalVolume = ''local''"
| "volume_as_str CloudSyncedRoot = ''cloud-synced-root''"
| "volume_as_str NonLocal = ''non-local''"
| "volume_as_str UnknownVolume = ''unknown''"

definition from_wire :: "string \<Rightarrow> VolumeKind" where
  "from_wire text =
    (if text = ''local'' then LocalVolume else if text = ''cloud-synced-root'' then CloudSyncedRoot
     else if text = ''non-local'' then NonLocal else UnknownVolume)"

datatype Ineligible = NonLocalVolume | VolumeUnverified | PrivatePermissionsUnverified

record StorageLocation =
  loc_directory :: string
  volume :: VolumeKind
  private_permissions_enforced :: bool

definition location_new :: "bool \<Rightarrow> string \<Rightarrow> VolumeKind \<Rightarrow> StorageLocation" where
  "location_new unix directory kind =
    \<lparr>loc_directory = directory, volume = kind, private_permissions_enforced = unix\<rparr>"

definition with_permissions :: "string \<Rightarrow> VolumeKind \<Rightarrow> bool \<Rightarrow> StorageLocation" where
  "with_permissions directory kind enforced =
    \<lparr>loc_directory = directory, volume = kind, private_permissions_enforced = enforced\<rparr>"

definition writer_eligible :: "StorageLocation \<Rightarrow> Ineligible option" where
  "writer_eligible l = (case volume l of
      NonLocal \<Rightarrow> Some NonLocalVolume
    | UnknownVolume \<Rightarrow> Some VolumeUnverified
    | _ \<Rightarrow> if \<not> private_permissions_enforced l then Some PrivatePermissionsUnverified else None)"

definition must_warn :: "StorageLocation \<Rightarrow> bool" where
  "must_warn l \<longleftrightarrow> volume l = CloudSyncedRoot"

definition CLOUD_SYNCED_ROOT_MARKERS :: "string list" where
  "CLOUD_SYNCED_ROOT_MARKERS = [''Library/Mobile Documents'', ''com~apple~CloudDocs'', ''Microsoft OneDrive'',
     ''/OneDrive/'', ''Dropbox/PC'', ''Google Drive'', ''GoogleDrive'']"

definition classify_by_path :: "string \<Rightarrow> string list \<Rightarrow> VolumeKind option" where
  "classify_by_path path markers =
    (let text = map (\<lambda>c. if c = CHR 0x5C then CHR ''/'' else c) path in
     if list_ex (\<lambda>marker. sublist marker text) markers then Some CloudSyncedRoot else None)"

definition unprobed :: "string \<Rightarrow> StorageLocation" where
  "unprobed data_dir = \<lparr>loc_directory = data_dir,
     volume = unwrap_or (classify_by_path data_dir CLOUD_SYNCED_ROOT_MARKERS) UnknownVolume,
     private_permissions_enforced = False\<rparr>"

definition with_cloud_sync_heuristic :: "(string \<Rightarrow> StorageLocation) \<Rightarrow> string \<Rightarrow> StorageLocation" where
  "with_cloud_sync_heuristic probe data_dir =
    (let answer = probe data_dir in
     if volume answer = LocalVolume
     then (case classify_by_path data_dir CLOUD_SYNCED_ROOT_MARKERS of
             Some kind \<Rightarrow> answer\<lparr>volume := kind\<rparr>
           | None \<Rightarrow> answer)
     else answer)"

section \<open>storage_lock.rs\<close>

record LeaseOwner =
  lo_application :: string
  lo_version :: string

record HolderInfo =
  hi_pid :: nat
  hi_application :: string
  hi_version :: string
  hi_epoch :: string
  acquired_at_ms :: nat

datatype LeaseError =
    AlreadyInUse "HolderInfo option"
  | UnsupportedLocation Ineligible
  | IdentityLost
  | UnusableDirectory
  | NotWritable

record DataDirectoryLease =
  lease_inode :: nat
  lease_holder :: HolderInfo
  identity :: "nat option"
  lease_location :: StorageLocation

text \<open>Where a process is in \<open>acquire\<close>, with the file it has open.\<close>

datatype AcquirePoint = Claimed | Opened nat | Locked nat | Reported nat

record Machine =
  lock_name :: "nat option"
  lock_owner :: "(nat, nat) fmap"
  hints :: "(nat, HolderInfo) fmap"
  claimed :: "nat list"
  acquiring :: "(nat, AcquirePoint) fmap"
  leases :: "(nat, DataDirectoryLease) fmap"

definition machine_new :: Machine where
  "machine_new = \<lparr>lock_name = None, lock_owner = fmempty, hints = fmempty, claimed = [], acquiring = fmempty,
     leases = fmempty\<rparr>"

definition writer_epoch :: "nat \<Rightarrow> nat \<Rightarrow> string" where
  "writer_epoch pid now = ''pid-'' @ decimal pid @ ''-at-'' @ decimal now"

definition holder_hint :: "Machine \<Rightarrow> HolderInfo option" where
  "holder_hint M = Option.bind (lock_name M) (fmlookup (hints M))"

definition claim :: "nat \<Rightarrow> (Machine, LeaseError, unit) op" where
  "claim pid M =
    (if pid \<in> set (claimed M) then (Inl (AlreadyInUse None), M)
     else (Inr (), M\<lparr>claimed := pid # claimed M, acquiring := fmupd pid Claimed (acquiring M)\<rparr>))"

definition relinquish :: "nat \<Rightarrow> Machine \<Rightarrow> Machine" where
  "relinquish pid M = M\<lparr>claimed := removeAll pid (claimed M)\<rparr>"

text \<open>Leaving \<open>acquire\<close> early: the handle is closed and the claim given back.\<close>

definition give_up :: "nat \<Rightarrow> Machine \<Rightarrow> Machine" where
  "give_up pid M = (relinquish pid M)\<lparr>acquiring := fmdrop pid (acquiring M)\<rparr>"

definition acquire_enter :: "nat \<Rightarrow> StorageLocation \<Rightarrow> bool \<Rightarrow> (Machine, LeaseError, unit) op" where
  "acquire_enter pid location usable =
    (case writer_eligible location of
       Some reason \<Rightarrow> fail (UnsupportedLocation reason)
     | None \<Rightarrow> if \<not> usable then fail UnusableDirectory else claim pid)"

text \<open>Opening with \<open>create\<close>: the file the name leads to, or a new one. \<open>None\<close> is a refusal by the system.\<close>

definition acquire_open :: "nat \<Rightarrow> nat option \<Rightarrow> (Machine, LeaseError, unit) op" where
  "acquire_open pid fresh M = (case fresh of
      None \<Rightarrow> (Inl NotWritable, give_up pid M)
    | Some new \<Rightarrow>
       let inode = unwrap_or (lock_name M) new in
       (Inr (), M\<lparr>lock_name := Some inode, acquiring := fmupd pid (Opened inode) (acquiring M)\<rparr>))"

definition acquire_lock :: "nat \<Rightarrow> (Machine, LeaseError, unit) op" where
  "acquire_lock pid M = (case fmlookup (acquiring M) pid of
      Some (Opened inode) \<Rightarrow>
        if fmlookup (lock_owner M) inode \<noteq> None then (Inl (AlreadyInUse (holder_hint M)), give_up pid M)
        else (Inr (), M\<lparr>lock_owner := fmupd inode pid (lock_owner M), acquiring := fmupd pid (Locked inode) (acquiring M)\<rparr>)
    | _ \<Rightarrow> (Inr (), M))"

text \<open>
  \<open>write_holder\<close> goes through the name: it fails, or it truncates what the name leads to (a new
  file when there is none) and may or may not get the text written.
\<close>

definition write_holder :: "HolderInfo \<Rightarrow> nat option \<Rightarrow> bool \<Rightarrow> Machine \<Rightarrow> Machine" where
  "write_holder info fresh wrote M = (case fresh of
      None \<Rightarrow> M
    | Some new \<Rightarrow>
       let inode = unwrap_or (lock_name M) new in
       M\<lparr>lock_name := Some inode, hints := (if wrote then fmupd inode info (hints M) else fmdrop inode (hints M))\<rparr>)"

definition acquire_report :: "nat \<Rightarrow> HolderInfo \<Rightarrow> nat option \<Rightarrow> bool \<Rightarrow> Machine \<Rightarrow> Machine" where
  "acquire_report pid info fresh wrote M = (case fmlookup (acquiring M) pid of
      Some (Locked inode) \<Rightarrow> (write_holder info fresh wrote M)\<lparr>acquiring := fmupd pid (Reported inode) (acquiring M)\<rparr>
    | _ \<Rightarrow> M)"

definition lock_identity :: "bool \<Rightarrow> Machine \<Rightarrow> nat option" where
  "lock_identity unix M = (if unix then lock_name M else None)"

definition acquire_finish :: "bool \<Rightarrow> nat \<Rightarrow> HolderInfo \<Rightarrow> StorageLocation \<Rightarrow> Machine \<Rightarrow> Machine" where
  "acquire_finish unix pid info location M = (case fmlookup (acquiring M) pid of
      Some (Reported inode) \<Rightarrow>
        M\<lparr>acquiring := fmdrop pid (acquiring M),
          leases := fmupd pid \<lparr>lease_inode = inode, lease_holder = info, identity = lock_identity unix M,
            lease_location = location\<rparr> (leases M)\<rparr>
    | _ \<Rightarrow> M)"

definition holder_info :: "nat \<Rightarrow> LeaseOwner \<Rightarrow> nat \<Rightarrow> nat \<Rightarrow> HolderInfo" where
  "holder_info pid owner epoch_ms now =
    \<lparr>hi_pid = pid, hi_application = lo_application owner, hi_version = lo_version owner,
     hi_epoch = writer_epoch pid epoch_ms, acquired_at_ms = now\<rparr>"

text \<open>The whole of \<open>acquire\<close> when nobody comes in between.\<close>

definition acquire ::
  "bool \<Rightarrow> nat \<Rightarrow> LeaseOwner \<Rightarrow> StorageLocation \<Rightarrow> bool \<Rightarrow> nat option \<Rightarrow> bool \<Rightarrow> nat \<Rightarrow> nat \<Rightarrow> (Machine, LeaseError, unit) op" where
  "acquire unix pid owner location usable fresh wrote epoch_ms now =
    andThen (acquire_enter pid location usable) (\<lambda>_.
    andThen (acquire_open pid fresh) (\<lambda>_.
    andThen (acquire_lock pid) (\<lambda>_ M.
      let info = holder_info pid owner epoch_ms now in
      (Inr (), acquire_finish unix pid info location (acquire_report pid info fresh wrote M)))))"

definition verify_still_held :: "bool \<Rightarrow> Machine \<Rightarrow> DataDirectoryLease \<Rightarrow> LeaseError option" where
  "verify_still_held unix M l =
    (let lost = (case (identity l, lock_identity unix M) of
        (Some expected, Some found) \<Rightarrow> expected \<noteq> found
      | (Some _, None) \<Rightarrow> True
      | _ \<Rightarrow> lock_name M = None)
     in if lost then Some IdentityLost else None)"

definition still_held :: "bool \<Rightarrow> Machine \<Rightarrow> DataDirectoryLease \<Rightarrow> bool" where
  "still_held unix M l \<longleftrightarrow> verify_still_held unix M l = None"

text \<open>\<open>Drop\<close> of the lease, and the end of a process, which closes whatever it has open.\<close>

definition drop_lease :: "nat \<Rightarrow> Machine \<Rightarrow> Machine" where
  "drop_lease pid M = (case fmlookup (leases M) pid of
      None \<Rightarrow> M
    | Some l \<Rightarrow> relinquish pid (M\<lparr>lock_owner := fmdrop (lease_inode l) (lock_owner M), leases := fmdrop pid (leases M)\<rparr>))"

definition process_exit :: "nat \<Rightarrow> Machine \<Rightarrow> Machine" where
  "process_exit pid M =
    M\<lparr>lock_owner := fmfilter (\<lambda>i. fmlookup (lock_owner M) i \<noteq> Some pid) (lock_owner M),
      claimed := removeAll pid (claimed M), acquiring := fmdrop pid (acquiring M), leases := fmdrop pid (leases M)\<rparr>"

section \<open>context.rs\<close>

datatype StorageWritePermission = MissingLease | LeaseLost

definition require_write :: "bool \<Rightarrow> nat \<Rightarrow> Machine \<Rightarrow> StorageWritePermission + DataDirectoryLease" where
  "require_write unix pid M = (case fmlookup (leases M) pid of
      None \<Rightarrow> Inl MissingLease
    | Some l \<Rightarrow> if verify_still_held unix M l \<noteq> None then Inl LeaseLost else Inr l)"

section \<open>Processes in competition\<close>

text \<open>No process has the file open and the name does not lead to it: a new file may get this inode.\<close>

definition inode_free :: "Machine \<Rightarrow> nat \<Rightarrow> bool" where
  "inode_free M i \<longleftrightarrow> lock_name M \<noteq> Some i \<and> fmlookup (lock_owner M) i = None
    \<and> (\<forall>pid. fmlookup (acquiring M) pid \<notin> {Some (Opened i), Some (Locked i), Some (Reported i)})
    \<and> (\<forall>pid l. fmlookup (leases M) pid = Some l \<longrightarrow> lease_inode l \<noteq> i)"

text \<open>
  Every process may take its next system call at any time, drop its lease or end; when \<open>meddle\<close>
  allows it, somebody outside removes or replaces the lock file.
\<close>

inductive lease_step :: "bool \<Rightarrow> (Machine \<Rightarrow> bool) \<Rightarrow> Machine \<Rightarrow> Machine \<Rightarrow> bool" for unix meddle where
  enter_step: "acquire_enter pid location usable M = (res, M') \<Longrightarrow> lease_step unix meddle M M'"
| open_step: "\<lbrakk>fmlookup (acquiring M) pid = Some Claimed; lock_name M = None \<Longrightarrow> pred_option (inode_free M) fresh;
    acquire_open pid fresh M = (res, M')\<rbrakk> \<Longrightarrow> lease_step unix meddle M M'"
| lock_step: "acquire_lock pid M = (res, M') \<Longrightarrow> lease_step unix meddle M M'"
| report_step: "(lock_name M = None \<Longrightarrow> pred_option (inode_free M) fresh) \<Longrightarrow> lease_step unix meddle M (acquire_report pid info fresh wrote M)"
| finish_step: "lease_step unix meddle M (acquire_finish unix pid info location M)"
| drop_step: "lease_step unix meddle M (drop_lease pid M)"
| exit_step: "lease_step unix meddle M (process_exit pid M)"
| remove_step: "meddle M \<Longrightarrow> lease_step unix meddle M (M\<lparr>lock_name := None\<rparr>)"
| replace_step: "meddle M \<Longrightarrow> inode_free M i \<Longrightarrow> lease_step unix meddle M (M\<lparr>lock_name := Some i\<rparr>)"

text \<open>
  What holds of a process between two system calls of \<open>acquire\<close>, and of a lease. \<open>calm\<close>: the file
  was never touched from outside while somebody was acquiring; \<open>fixed\<close>: it never was at all.
\<close>

fun point_ok :: "bool \<Rightarrow> Machine \<Rightarrow> nat \<Rightarrow> AcquirePoint \<Rightarrow> bool" where
  "point_ok calm M pid Claimed \<longleftrightarrow> True"
| "point_ok calm M pid (Opened i) \<longleftrightarrow> (calm \<longrightarrow> lock_name M = Some i)"
| "point_ok calm M pid (Locked i) \<longleftrightarrow> fmlookup (lock_owner M) i = Some pid \<and> (calm \<longrightarrow> lock_name M = Some i)"
| "point_ok calm M pid (Reported i) \<longleftrightarrow> fmlookup (lock_owner M) i = Some pid \<and> (calm \<longrightarrow> lock_name M = Some i)"

definition lease_ok :: "bool \<Rightarrow> bool \<Rightarrow> bool \<Rightarrow> Machine \<Rightarrow> nat \<Rightarrow> DataDirectoryLease \<Rightarrow> bool" where
  "lease_ok unix calm fixed M pid l \<longleftrightarrow> fmlookup (lock_owner M) (lease_inode l) = Some pid
    \<and> (unix \<and> calm \<longrightarrow> identity l = Some (lease_inode l)) \<and> (fixed \<longrightarrow> lock_name M = Some (lease_inode l))"

definition machine_ok :: "bool \<Rightarrow> bool \<Rightarrow> bool \<Rightarrow> Machine \<Rightarrow> bool" where
  "machine_ok unix calm fixed M \<longleftrightarrow>
    (\<forall>pid p. fmlookup (acquiring M) pid = Some p \<longrightarrow>
       pid \<in> set (claimed M) \<and> fmlookup (leases M) pid = None \<and> point_ok calm M pid p)
  \<and> (\<forall>pid l. fmlookup (leases M) pid = Some l \<longrightarrow> pid \<in> set (claimed M) \<and> lease_ok unix calm fixed M pid l)
  \<and> (\<forall>i pid. fmlookup (lock_owner M) i = Some pid \<longrightarrow>
       fmlookup (acquiring M) pid \<in> {Some (Locked i), Some (Reported i)}
       \<or> (\<exists>l. fmlookup (leases M) pid = Some l \<and> lease_inode l = i))"

lemma machine_okD:
  assumes "machine_ok unix calm fixed M"
  shows "fmlookup (acquiring M) pid = Some p \<Longrightarrow>
      pid \<in> set (claimed M) \<and> fmlookup (leases M) pid = None \<and> point_ok calm M pid p"
    and "fmlookup (leases M) pid = Some l \<Longrightarrow> pid \<in> set (claimed M) \<and> lease_ok unix calm fixed M pid l"
    and "fmlookup (lock_owner M) i = Some pid \<Longrightarrow>
      fmlookup (acquiring M) pid \<in> {Some (Locked i), Some (Reported i)}
      \<or> (\<exists>l. fmlookup (leases M) pid = Some l \<and> lease_inode l = i)"
  using assms unfolding machine_ok_def by blast+

lemma machine_okI:
  assumes "\<And>pid p. fmlookup (acquiring M) pid = Some p \<Longrightarrow>
      pid \<in> set (claimed M) \<and> fmlookup (leases M) pid = None \<and> point_ok calm M pid p"
    and "\<And>pid l. fmlookup (leases M) pid = Some l \<Longrightarrow> pid \<in> set (claimed M) \<and> lease_ok unix calm fixed M pid l"
    and "\<And>i pid. fmlookup (lock_owner M) i = Some pid \<Longrightarrow>
      fmlookup (acquiring M) pid \<in> {Some (Locked i), Some (Reported i)}
      \<or> (\<exists>l. fmlookup (leases M) pid = Some l \<and> lease_inode l = i)"
  shows "machine_ok unix calm fixed M"
  using assms unfolding machine_ok_def by blast

text \<open>
  One process acts: the name keeps leading where it led, the others keep their locks and places, and
  what is left to show concerns the process itself.
\<close>

lemma process_acts:
  assumes ok: "machine_ok unix calm fixed M"
    and name: "lock_name M \<noteq> None \<Longrightarrow> lock_name M' = lock_name M"
    and owner: "\<And>i q. q \<noteq> pid \<Longrightarrow> fmlookup (lock_owner M') i = Some q \<longleftrightarrow> fmlookup (lock_owner M) i = Some q"
    and others: "\<And>q. q \<noteq> pid \<Longrightarrow> fmlookup (acquiring M') q = fmlookup (acquiring M) q
      \<and> fmlookup (leases M') q = fmlookup (leases M) q \<and> (q \<in> set (claimed M') \<longleftrightarrow> q \<in> set (claimed M))"
    and mine: "\<And>p. fmlookup (acquiring M') pid = Some p \<Longrightarrow>
        pid \<in> set (claimed M') \<and> fmlookup (leases M') pid = None \<and> point_ok calm M' pid p"
      "\<And>l. fmlookup (leases M') pid = Some l \<Longrightarrow> pid \<in> set (claimed M') \<and> lease_ok unix calm fixed M' pid l"
      "\<And>i. fmlookup (lock_owner M') i = Some pid \<Longrightarrow>
        fmlookup (acquiring M') pid \<in> {Some (Locked i), Some (Reported i)}
        \<or> (\<exists>l. fmlookup (leases M') pid = Some l \<and> lease_inode l = i)"
  shows "machine_ok unix calm fixed M'"
proof -
  note old = machine_okD [OF ok]
  have point: "point_ok calm M' q p" if "q \<noteq> pid" "point_ok calm M q p" for q p
    using that name owner by (cases p) auto
  have lease: "lease_ok unix calm fixed M' q l" if "q \<noteq> pid" "lease_ok unix calm fixed M q l" for q l
    using that name owner by (auto simp: lease_ok_def)
  show ?thesis
  proof (rule machine_okI)
    fix q p assume q: "fmlookup (acquiring M') q = Some p"
    show "q \<in> set (claimed M') \<and> fmlookup (leases M') q = None \<and> point_ok calm M' q p"
      using q mine(1) old(1) [of q p] others [of q] point [of q p] by (cases "q = pid") auto
  next
    fix q l assume q: "fmlookup (leases M') q = Some l"
    show "q \<in> set (claimed M') \<and> lease_ok unix calm fixed M' q l"
      using q mine(2) old(2) [of q l] others [of q] lease [of q l] by (cases "q = pid") auto
  next
    fix i q assume q: "fmlookup (lock_owner M') i = Some q"
    show "fmlookup (acquiring M') q \<in> {Some (Locked i), Some (Reported i)}
        \<or> (\<exists>l. fmlookup (leases M') q = Some l \<and> lease_inode l = i)"
      using q mine(3) old(3) [of i q] others [of q] owner [of q i] by (cases "q = pid") auto
  qed
qed

lemma claim_ok:
  assumes "machine_ok unix calm fixed M" "claim pid M = (res, M')"
  shows "machine_ok unix calm fixed M'"
proof (cases "pid \<in> set (claimed M)")
  case False
  note ok = machine_okD [OF assms(1)]
  have none: "fmlookup (leases M) pid = None" "fmlookup (acquiring M) pid = None"
    using ok(1,2) False by (metis not_None_eq)+
  have M': "M' = M\<lparr>claimed := pid # claimed M, acquiring := fmupd pid Claimed (acquiring M)\<rparr>"
    using assms(2) False by (simp add: claim_def)
  show ?thesis
    by (rule process_acts [OF assms(1), of _ pid]) (use none in \<open>auto simp: M' dest: ok(3) split: if_splits\<close>)
qed (use assms in \<open>simp add: claim_def\<close>)

lemma give_up_ok:
  assumes "machine_ok unix calm fixed M" "fmlookup (acquiring M) pid \<in> {Some Claimed, Some (Opened i)}"
  shows "machine_ok unix calm fixed (give_up pid M)"
proof -
  note ok = machine_okD [OF assms(1)]
  have none: "fmlookup (leases M) pid = None" using ok(1) assms(2) by auto
  show ?thesis
    by (rule process_acts [OF assms(1), of _ pid]) (use none assms(2) in \<open>auto simp: give_up_def relinquish_def dest: ok(3) split: if_splits\<close>)
qed

lemma open_ok:
  assumes "machine_ok unix calm fixed M" "fmlookup (acquiring M) pid = Some Claimed"
    and "acquire_open pid fresh M = (res, M')"
  shows "machine_ok unix calm fixed M'"
proof (cases fresh)
  case None
  with assms give_up_ok show ?thesis by (auto simp: acquire_open_def)
next
  case (Some new)
  define inode where "inode = unwrap_or (lock_name M) new"
  have M': "M' = M\<lparr>lock_name := Some inode, acquiring := fmupd pid (Opened inode) (acquiring M)\<rparr>"
    using assms(3) Some by (simp add: acquire_open_def Let_def inode_def)
  note ok = machine_okD [OF assms(1)]
  show ?thesis
    by (rule process_acts [OF assms(1), of _ pid])
      (use ok(1) [OF assms(2)] assms(2) in \<open>auto simp: M' inode_def unwrap_or_def dest: ok(3) split: if_splits\<close>)
qed

lemma lock_ok:
  assumes "machine_ok unix calm fixed M" "acquire_lock pid M = (res, M')"
  shows "machine_ok unix calm fixed M'"
proof (cases "\<exists>i. fmlookup (acquiring M) pid = Some (Opened i) \<and> fmlookup (lock_owner M) i = None")
  case False
  then show ?thesis
    using assms give_up_ok [OF assms(1)]
    by (auto simp: acquire_lock_def split: option.splits AcquirePoint.splits if_splits)
next
  case True
  then obtain i where i: "fmlookup (acquiring M) pid = Some (Opened i)" "fmlookup (lock_owner M) i = None" by blast
  then have M': "M' = M\<lparr>lock_owner := fmupd i pid (lock_owner M), acquiring := fmupd pid (Locked i) (acquiring M)\<rparr>"
    using assms(2) by (simp add: acquire_lock_def)
  note ok = machine_okD [OF assms(1)]
  show ?thesis
    by (rule process_acts [OF assms(1), of _ pid])
      (use ok(1) [OF i(1)] i in \<open>auto simp: M' dest: ok(3) split: if_splits\<close>)
qed

lemma report_ok:
  assumes "machine_ok unix calm fixed M"
  shows "machine_ok unix calm fixed (acquire_report pid info fresh wrote M)"
proof (cases "\<exists>i. fmlookup (acquiring M) pid = Some (Locked i)")
  case True
  then obtain i where i: "fmlookup (acquiring M) pid = Some (Locked i)" by blast
  note ok = machine_okD [OF assms]
  show ?thesis
    by (rule process_acts [OF assms, of _ pid])
      (use ok(1) [OF i] i in \<open>auto simp: acquire_report_def write_holder_def Let_def unwrap_or_def dest: ok(3)
        split: option.splits if_splits\<close>)
qed (use assms in \<open>auto simp: acquire_report_def split: option.splits AcquirePoint.splits\<close>)

lemma finish_ok:
  assumes "machine_ok unix calm fixed M" "fixed \<longrightarrow> calm"
  shows "machine_ok unix calm fixed (acquire_finish unix pid info location M)"
proof (cases "\<exists>i. fmlookup (acquiring M) pid = Some (Reported i)")
  case True
  then obtain i where i: "fmlookup (acquiring M) pid = Some (Reported i)" by blast
  note ok = machine_okD [OF assms(1)]
  show ?thesis
    by (rule process_acts [OF assms(1), of _ pid])
      (use ok(1) [OF i] i assms(2) in \<open>auto simp: acquire_finish_def lease_ok_def lock_identity_def dest: ok(3)
        split: if_splits\<close>)
qed (use assms in \<open>auto simp: acquire_finish_def split: option.splits AcquirePoint.splits\<close>)

lemma drop_ok:
  assumes "machine_ok unix calm fixed M"
  shows "machine_ok unix calm fixed (drop_lease pid M)"
proof (cases "fmlookup (leases M) pid")
  case (Some l)
  note ok = machine_okD [OF assms]
  have none: "fmlookup (acquiring M) pid = None" using ok(1) Some by (metis not_None_eq option.distinct(1))
  have mine: "fmlookup (lock_owner M) (lease_inode l) = Some pid" using ok(2) [OF Some] by (simp add: lease_ok_def)
  show ?thesis
    by (rule process_acts [OF assms, of _ pid])
      (use Some none mine in \<open>auto simp: drop_lease_def relinquish_def dest: ok(3) split: if_splits\<close>)
qed (use assms in \<open>simp add: drop_lease_def\<close>)

lemma exit_ok:
  assumes "machine_ok unix calm fixed M"
  shows "machine_ok unix calm fixed (process_exit pid M)"
  by (rule process_acts [OF assms, of _ pid]) (auto simp: process_exit_def split: if_splits)

lemma meddle_ok:
  assumes "machine_ok unix calm fixed M" "calm \<longrightarrow> acquiring M = fmempty" "\<not> fixed"
  shows "machine_ok unix calm fixed (M\<lparr>lock_name := x\<rparr>)"
proof -
  have point: "point_ok calm (M\<lparr>lock_name := x\<rparr>) pid p" if "point_ok calm M pid p" "\<not> calm" for pid p
    using that by (cases p) auto
  show ?thesis
    by (rule machine_okI)
      (use assms(2,3) in \<open>auto simp: lease_ok_def intro: point dest: machine_okD [OF assms(1)]\<close>)
qed

lemma step_ok:
  assumes "lease_step unix meddle M M'" "machine_ok unix calm fixed M" "fixed \<longrightarrow> calm"
    and "\<And>M. meddle M \<Longrightarrow> calm \<Longrightarrow> acquiring M = fmempty" "\<And>M. meddle M \<Longrightarrow> \<not> fixed"
  shows "machine_ok unix calm fixed M'"
  using assms(1)
proof cases
  case (enter_step pid location usable res)
  then show ?thesis
    using assms(2) claim_ok by (auto simp: acquire_enter_def fail_def split: option.splits if_splits)
next
  case (open_step pid fresh res)
  then show ?thesis using assms(2) open_ok by blast
next
  case (lock_step pid res)
  then show ?thesis using assms(2) lock_ok by blast
next
  case remove_step
  then show ?thesis using meddle_ok [OF assms(2)] assms(4,5) by blast
next
  case (replace_step i)
  then show ?thesis using meddle_ok [OF assms(2)] assms(4,5) by blast
qed (use assms(2,3) report_ok finish_ok drop_ok exit_ok in auto)

lemma reachable_ok:
  assumes "(lease_step unix meddle)\<^sup>*\<^sup>* machine_new M" "fixed \<longrightarrow> calm"
    and "\<And>M. meddle M \<Longrightarrow> calm \<Longrightarrow> acquiring M = fmempty" "\<And>M. meddle M \<Longrightarrow> \<not> fixed"
  shows "machine_ok unix calm fixed M"
  using assms(1)
proof (induction rule: rtranclp_induct)
  case base
  show ?case by (simp add: machine_ok_def machine_new_def)
next
  case (step M M')
  then show ?case using step_ok assms(2-4) by blast
qed

lemma require_write_held:
  "require_write unix pid M = Inr l \<longleftrightarrow> fmlookup (leases M) pid = Some l \<and> still_held unix M l"
  by (auto simp: require_write_def still_held_def split: option.splits)

text \<open>
  C22. One data directory has one writer. Over any interleaving of the system calls of any number of
  processes, with leases dropped and processes killed at any point, at most one process passes
  \<open>require_write\<close>: where the platform gives inodes, even if the lock file is removed or replaced
  whenever no process is inside \<open>acquire\<close>; elsewhere if it is left alone.
\<close>

theorem one_writer:
  assumes reach: "(lease_step unix meddle)\<^sup>*\<^sup>* machine_new M" and calm: "\<And>M. meddle M \<Longrightarrow> unix \<and> acquiring M = fmempty"
    and p: "require_write unix p M = Inr l" and q: "require_write unix q M = Inr k"
  shows "p = q \<and> l = k"
proof -
  note lp = p [unfolded require_write_held] and lq = q [unfolded require_write_held]
  have "machine_ok unix True (\<not> unix) M" by (rule reachable_ok [OF reach]) (use calm in auto)
  from machine_okD(2) [OF this] have ok: "lease_ok unix True (\<not> unix) M p l" "lease_ok unix True (\<not> unix) M q k"
    using lp lq by blast+
  then have "lease_inode l = lease_inode k"
    using lp lq
    by (cases unix) (auto simp: lease_ok_def still_held_def verify_still_held_def lock_identity_def split: option.splits if_splits)
  with ok have "p = q" by (simp add: lease_ok_def)
  with lp lq show ?thesis by simp
qed

definition sample_location :: StorageLocation where
  "sample_location = location_new True ''/home/u/.aeroric'' LocalVolume"

definition sample_holder :: "nat \<Rightarrow> HolderInfo" where
  "sample_holder pid = holder_info pid \<lparr>lo_application = ''aeroric'', lo_version = ''1''\<rparr> 5 5"

text \<open>Process 1 is interrupted after it locked file 10; process 2 finds file 11 under the name.\<close>

definition locked_then_removed :: Machine where
  "locked_then_removed = (snd (acquire_lock 1 (snd (acquire_open 1 (Some 10)
     (snd (acquire_enter 1 sample_location True machine_new))))))\<lparr>lock_name := None\<rparr>"

definition first_finished :: Machine where
  "first_finished = acquire_finish True 1 (sample_holder 1) sample_location
     (acquire_report 1 (sample_holder 1) (Some 11) True locked_then_removed)"

lemmas machine_eval = acquire_enter_def acquire_open_def acquire_lock_def acquire_report_def acquire_finish_def
  write_holder_def claim_def lock_identity_def unwrap_or_def fail_def Let_def

lemma sample_location_eligible: "writer_eligible sample_location = None"
  by (simp add: sample_location_def location_new_def writer_eligible_def)

lemma fmdrop_single [simp]: "fmdrop k (fmupd k v fmempty) = fmempty"
  by (simp add: fmdrop_fmupd)

lemma locked_then_removed_eq:
  "locked_then_removed = \<lparr>lock_name = None, lock_owner = fmupd 10 1 fmempty, hints = fmempty, claimed = [1],
     acquiring = fmupd 1 (Locked 10) fmempty, leases = fmempty\<rparr>"
  by (simp add: locked_then_removed_def machine_new_def sample_location_eligible machine_eval)

lemma first_finished_eq:
  "first_finished = \<lparr>lock_name = Some 11, lock_owner = fmupd 10 1 fmempty, hints = fmupd 11 (sample_holder 1) fmempty,
     claimed = [1], acquiring = fmempty, leases = fmupd 1 \<lparr>lease_inode = 10, lease_holder = sample_holder 1,
       identity = Some 11, lease_location = sample_location\<rparr> fmempty\<rparr>"
  by (simp add: first_finished_def locked_then_removed_eq machine_eval)

text \<open>An undisturbed \<open>acquire\<close> is one run of the steps.\<close>

lemma steps_andThen:
  assumes "andThen m f M = (res, M')" and "\<And>r M1. m M = (r, M1) \<Longrightarrow> R M M1"
    and "\<And>a M1 r M2. m M = (Inr a, M1) \<Longrightarrow> f a M1 = (r, M2) \<Longrightarrow> R\<^sup>*\<^sup>* M1 M2"
  shows "R\<^sup>*\<^sup>* M M'"
proof (cases "m M")
  case (Pair r M1)
  show ?thesis
  proof (cases r)
    case (Inl e)
    with assms(1) Pair assms(2) [OF Pair] show ?thesis by (simp add: andThen_def r_into_rtranclp)
  next
    case (Inr a)
    with assms(1) Pair have "f a M1 = (res, M')" by (simp add: andThen_def)
    with assms(2) [OF Pair] assms(3) Pair Inr show ?thesis by (meson converse_rtranclp_into_rtranclp)
  qed
qed

lemma acquire_steps:
  assumes run: "acquire unix pid owner location usable fresh wrote epoch_ms now M = (res, M')"
    and free: "lock_name M = None \<Longrightarrow> pred_option (inode_free M) fresh"
  shows "(lease_step unix meddle)\<^sup>*\<^sup>* M M'"
  using run unfolding acquire_def
proof (rule steps_andThen)
  fix r M1 assume "acquire_enter pid location usable M = (r, M1)"
  then show "lease_step unix meddle M M1" by (rule enter_step)
next
  fix a M1 r M2
  assume "acquire_enter pid location usable M = (Inr a, M1)"
  then have M1: "M1 = M\<lparr>claimed := pid # claimed M, acquiring := fmupd pid Claimed (acquiring M)\<rparr>"
    by (auto simp: acquire_enter_def claim_def fail_def split: option.splits if_splits)
  assume "andThen (acquire_open pid fresh) (\<lambda>_. andThen (acquire_lock pid) (\<lambda>_ M. let info = holder_info pid owner epoch_ms now in
      (Inr (), acquire_finish unix pid info location (acquire_report pid info fresh wrote M)))) M1 = (r, M2)"
  then show "(lease_step unix meddle)\<^sup>*\<^sup>* M1 M2"
  proof (rule steps_andThen)
    fix r M' assume "acquire_open pid fresh M1 = (r, M')"
    then show "lease_step unix meddle M1 M'"
      by (rule open_step [rotated 2]) (use free in \<open>auto simp: M1 inode_free_def pred_option_def split: if_splits\<close>)
  next
    fix a M2 r M4 assume opened: "acquire_open pid fresh M1 = (Inr a, M2)"
    assume "andThen (acquire_lock pid) (\<lambda>_ M. let info = holder_info pid owner epoch_ms now in
      (Inr (), acquire_finish unix pid info location (acquire_report pid info fresh wrote M))) M2 = (r, M4)"
    then show "(lease_step unix meddle)\<^sup>*\<^sup>* M2 M4"
    proof (rule steps_andThen)
      fix r M' assume "acquire_lock pid M2 = (r, M')"
      then show "lease_step unix meddle M2 M'" by (rule lock_step)
    next
      fix a M3 r M' assume locked: "acquire_lock pid M2 = (Inr a, M3)"
      let ?info = "holder_info pid owner epoch_ms now"
      assume "(let info = ?info in
        (Inr (), acquire_finish unix pid info location (acquire_report pid info fresh wrote M3))) = (r, M')"
      then have M': "M' = acquire_finish unix pid ?info location (acquire_report pid ?info fresh wrote M3)"
        by (simp add: Let_def)
      have "lock_name M3 \<noteq> None"
        using opened locked by (auto simp: acquire_open_def acquire_lock_def give_up_def relinquish_def Let_def
            split: option.splits AcquirePoint.splits if_splits)
      then have "lease_step unix meddle M3 (acquire_report pid ?info fresh wrote M3)" by (intro report_step) simp
      then show "(lease_step unix meddle)\<^sup>*\<^sup>* M3 M'"
        unfolding M' by (rule converse_rtranclp_into_rtranclp) (rule r_into_rtranclp, rule finish_step)
    qed
  qed
qed

text \<open>
  C36. Removing the lock file while a process is inside \<open>acquire\<close> defeats the check: it records the identity
  of the file the name leads to after \<open>write_holder\<close> re-created it, not of the file it locked, so a
  second process locks that file and both pass \<open>require_write\<close> from then on.
\<close>

theorem removed_while_acquiring_two_writers:
  "\<exists>M l k. (lease_step True (\<lambda>_. True))\<^sup>*\<^sup>* machine_new M
    \<and> require_write True 1 M = Inr l \<and> require_write True 2 M = Inr k"
proof -
  let ?R = "lease_step True (\<lambda>_. True)"
  let ?M1 = "snd (acquire_enter 1 sample_location True machine_new)"
  let ?M2 = "snd (acquire_open 1 (Some 10) ?M1)"
  let ?M3 = "snd (acquire_lock 1 ?M2)"
  have "?R machine_new ?M1" by (rule enter_step [OF surjective_pairing])
  moreover have "?R ?M1 ?M2"
    by (rule open_step [OF _ _ surjective_pairing])
      (simp_all add: machine_eval machine_new_def sample_location_eligible inode_free_def)
  moreover have "?R ?M2 ?M3" by (rule lock_step [OF surjective_pairing])
  moreover have "?R ?M3 locked_then_removed" unfolding locked_then_removed_def by (rule remove_step) simp
  ultimately have "?R\<^sup>*\<^sup>* machine_new locked_then_removed" by simp
  moreover have "?R locked_then_removed (acquire_report 1 (sample_holder 1) (Some 11) True locked_then_removed)"
    by (rule report_step) (simp add: locked_then_removed_eq inode_free_def)
  moreover have "?R (acquire_report 1 (sample_holder 1) (Some 11) True locked_then_removed) first_finished"
    unfolding first_finished_def by (rule finish_step)
  ultimately have one: "?R\<^sup>*\<^sup>* machine_new first_finished" by simp
  obtain M where M: "acquire True 2 \<lparr>lo_application = ''aeroric'', lo_version = ''1''\<rparr> sample_location True (Some 12) True 5 5
      first_finished = (Inr (), M)" and both: "require_write True 1 M = Inr (the (fmlookup (leases M) 1))"
      "require_write True 2 M = Inr (the (fmlookup (leases M) 2))"
    by (simp add: acquire_def op_defs first_finished_eq sample_location_eligible machine_eval require_write_def
        verify_still_held_def)
  have "?R\<^sup>*\<^sup>* first_finished M" by (rule acquire_steps [OF M]) (simp add: first_finished_eq)
  with one both show ?thesis by (meson rtranclp_trans)
qed

text \<open>Process 7 holds the lease, the file is replaced, process 8 takes over.\<close>

abbreviation sample_owner :: LeaseOwner where
  "sample_owner \<equiv> \<lparr>lo_application = ''aeroric'', lo_version = ''1''\<rparr>"

definition sample_first :: Machine where
  "sample_first = snd (acquire True 7 sample_owner sample_location True (Some 10) True 5 5 machine_new)"

definition sample_takeover :: Machine where
  "sample_takeover = snd (acquire True 8 sample_owner sample_location True (Some 12) True 5 5 (sample_first\<lparr>lock_name := Some 11\<rparr>))"

lemma sample_first_eq:
  "sample_first = \<lparr>lock_name = Some 10, lock_owner = fmupd 10 7 fmempty,
     hints = fmupd 10 (holder_info 7 sample_owner 5 5) fmempty, claimed = [7], acquiring = fmempty,
     leases = fmupd 7 \<lparr>lease_inode = 10, lease_holder = holder_info 7 sample_owner 5 5, identity = Some 10,
       lease_location = sample_location\<rparr> fmempty\<rparr>"
  by (simp add: sample_first_def acquire_def op_defs machine_new_def sample_location_eligible machine_eval)

lemma sample_takeover_facts:
  "lock_name sample_takeover = Some 11" "map_option identity (fmlookup (leases sample_takeover) 7) = Some (Some 10)"
  "map_option identity (fmlookup (leases sample_takeover) 8) = Some (Some 11)"
  by (simp_all add: sample_takeover_def sample_first_eq acquire_def op_defs sample_location_eligible machine_eval)

theorem one_writer_witness:
  "require_write True 7 sample_takeover = Inl LeaseLost \<and> (\<exists>l. require_write True 8 sample_takeover = Inr l)
    \<and> {p. \<exists>l. require_write True p sample_takeover = Inr l} = {8}"
proof -
  let ?R = "lease_step True (\<lambda>M. acquiring M = fmempty)"
  have "?R\<^sup>*\<^sup>* machine_new sample_first" unfolding sample_first_def
    by (rule acquire_steps [OF surjective_pairing]) (simp add: machine_new_def inode_free_def)
  moreover have "?R sample_first (sample_first\<lparr>lock_name := Some 11\<rparr>)"
    by (rule replace_step) (simp_all add: sample_first_eq inode_free_def)
  moreover have "?R\<^sup>*\<^sup>* (sample_first\<lparr>lock_name := Some 11\<rparr>) sample_takeover" unfolding sample_takeover_def
    by (rule acquire_steps [OF surjective_pairing]) simp
  ultimately have reach: "?R\<^sup>*\<^sup>* machine_new sample_takeover" by (rule rtranclp_trans [OF rtranclp.rtrancl_into_rtrancl])
  have ends: "require_write True 7 sample_takeover = Inl LeaseLost" "\<exists>l. require_write True 8 sample_takeover = Inr l"
    using sample_takeover_facts by (auto simp: require_write_def verify_still_held_def lock_identity_def)
  then obtain l where l: "require_write True 8 sample_takeover = Inr l" by blast
  have "p = 8" if "require_write True p sample_takeover = Inr k" for p k
    using one_writer [OF reach _ that l] by simp
  with ends show ?thesis by blast
qed

text \<open>
  C35. The lock dies with its holder. Whatever happened before, once the only process that had anything to do
  with the directory is gone, also by a crash and with its lock file still there, the next process on
  an eligible location gets the lease and may write, whether or not its report could be written.
\<close>

theorem acquire_after_crash:
  assumes reach: "(lease_step unix meddle)\<^sup>*\<^sup>* machine_new M" and alone: "set (claimed M) \<subseteq> {p}"
    and location: "writer_eligible location = None"
  shows "\<exists>M' l. acquire unix q owner location True (Some new) wrote epoch_ms now (process_exit p M) = (Inr (), M')
    \<and> require_write unix q M' = Inr l \<and> lease_holder l = holder_info q owner epoch_ms now"
proof -
  let ?M = "process_exit p M"
  have "machine_ok unix False False M" by (rule reachable_ok [OF reach]) auto
  then have ok: "machine_ok unix False False ?M" by (rule exit_ok)
  have idle: "q \<notin> set (claimed ?M)" for q using alone by (auto simp: process_exit_def)
  have locks: "fmlookup (lock_owner ?M) i = None" for i
  proof (rule ccontr)
    assume "fmlookup (lock_owner ?M) i \<noteq> None"
    then obtain r where "fmlookup (lock_owner ?M) i = Some r" by blast
    from machine_okD(3) [OF ok this] have "r \<in> set (claimed ?M)"
      using machine_okD(1,2) [OF ok] by blast
    with idle show False by blast
  qed
  show ?thesis
    by (simp add: acquire_def op_defs location machine_eval locks idle require_write_def verify_still_held_def
        split: option.splits)
qed

lemma sample_first_reached: "(lease_step True (\<lambda>_. False))\<^sup>*\<^sup>* machine_new sample_first"
  unfolding sample_first_def
  by (rule acquire_steps [OF surjective_pairing]) (simp add: machine_new_def inode_free_def)

theorem acquire_after_crash_witness:
  "\<exists>M' l. acquire True 8 sample_owner sample_location True (Some 11) False 6 6 (process_exit 7 sample_first) = (Inr (), M')
    \<and> require_write True 8 M' = Inr l \<and> lease_holder l = holder_info 8 sample_owner 6 6"
  by (rule acquire_after_crash [OF sample_first_reached _ sample_location_eligible]) (simp add: sample_first_eq)

text \<open>
  A refused writer leaves no trace: in every reachable state, when \<open>acquire\<close> fails, nothing is
  changed, not even the lock file, and the error is the reason: the location, the directory, the lock file
  that cannot be opened, this process's own claim, or the live lock of another process, with the hint
  found in the file.
\<close>

theorem acquire_refused_untouched:
  assumes reach: "(lease_step unix meddle)\<^sup>*\<^sup>* machine_new M"
    and free: "lock_name M = None \<Longrightarrow> pred_option (inode_free M) fresh"
    and run: "acquire unix pid owner location usable fresh wrote epoch_ms now M = (Inl e, M')"
  shows "M' = M \<and> (case e of
      UnsupportedLocation r \<Rightarrow> writer_eligible location = Some r
    | UnusableDirectory \<Rightarrow> \<not> usable
    | NotWritable \<Rightarrow> fresh = None
    | AlreadyInUse who \<Rightarrow> pid \<in> set (claimed M) \<and> who = None
        \<or> (\<exists>i q. lock_name M = Some i \<and> fmlookup (lock_owner M) i = Some q \<and> who = holder_hint M)
    | IdentityLost \<Rightarrow> False)"
proof (cases "writer_eligible location = None \<and> usable \<and> pid \<notin> set (claimed M)")
  case False
  with run show ?thesis
    by (auto simp: acquire_def acquire_enter_def claim_def op_defs split: option.splits if_splits)
next
  case True
  have ok: "machine_ok unix False False M" by (rule reachable_ok [OF reach]) auto
  have idle: "fmlookup (acquiring M) pid = None" using machine_okD(1) [OF ok] True by (metis not_None_eq)
  have drop: "fmdrop pid (acquiring M) = acquiring M"
    by (rule fmap_ext) (simp add: idle)
  show ?thesis
  proof (cases fresh)
    case None
    with True run drop show ?thesis
      by (auto simp: acquire_def op_defs machine_eval give_up_def relinquish_def fmdrop_fmupd)
  next
    case (Some new)
    define i where "i = unwrap_or (lock_name M) new"
    have held: "fmlookup (lock_owner M) i \<noteq> None"
      using True run Some by (auto simp: acquire_def op_defs machine_eval i_def split: if_splits option.splits)
    then have "lock_name M = Some i"
      using free Some by (cases "lock_name M") (auto simp: i_def unwrap_or_def inode_free_def)
    with True run Some held drop show ?thesis
      by (auto simp: acquire_def op_defs machine_eval give_up_def relinquish_def fmdrop_fmupd holder_hint_def)
  qed
qed

lemma unprobed_refused: "writer_eligible (unprobed data_dir) \<noteq> None"
  by (auto simp: unprobed_def writer_eligible_def split: VolumeKind.splits)

lemma from_wire_as_str: "from_wire (volume_as_str kind) = kind"
  by (cases kind) (simp_all add: from_wire_def)

end
