(* ===== verification/CircuitBreaker.thy ===== *)
theory CircuitBreaker
  imports Prelude
begin

text \<open>
  The circuit breaker of the local router (\<open>local_router/circuit_breaker.rs\<close>), one per agent and upstream
  target, with its registry. Counters are \<open>u32\<close> words that saturate. An \<open>Instant\<close> is a number of
  nanoseconds; every operation is given the instant and the wall clock it reads. Each operation runs
  under the breaker's lock and is one step.
\<close>

section \<open>The breaker\<close>

datatype CircuitState = Closed | Open | HalfOpen

record CircuitBreakerConfig =
  failure_threshold :: u32
  success_threshold :: u32
  timeout_seconds :: nat
  error_rate_percent :: u8
  min_requests :: u32

definition config_default :: CircuitBreakerConfig where
  "config_default = \<lparr>failure_threshold = 4, success_threshold = 2, timeout_seconds = 60, error_rate_percent = 60,
     min_requests = 10\<rparr>"

record CircuitPermit =
  allowed :: bool
  used_half_open_permit :: bool

definition permit_default :: CircuitPermit where
  "permit_default = \<lparr>allowed = False, used_half_open_permit = False\<rparr>"

record CircuitInner =
  state :: CircuitState
  config :: CircuitBreakerConfig
  consecutive_failures :: u32
  consecutive_successes :: u32
  total_requests :: u32
  failed_requests :: u32
  opened_at :: "nat option"
  half_open_in_flight :: bool
  last_success_at :: "int option"
  last_failure_at :: "int option"
  last_error :: "string option"

record CircuitBreakerStats =
  st_state :: CircuitState
  st_consecutive_failures :: u32
  st_consecutive_successes :: u32
  st_total_requests :: u32
  st_failed_requests :: u32
  st_last_success_at :: "int option"
  st_last_failure_at :: "int option"
  st_last_error :: "string option"

definition circuit_new :: "CircuitBreakerConfig \<Rightarrow> CircuitInner" where
  "circuit_new cfg = \<lparr>state = Closed, config = cfg, consecutive_failures = 0, consecutive_successes = 0,
     total_requests = 0, failed_requests = 0, opened_at = None, half_open_in_flight = False, last_success_at = None,
     last_failure_at = None, last_error = None\<rparr>"

definition transition_to_open :: "nat \<Rightarrow> CircuitInner \<Rightarrow> CircuitInner" where
  "transition_to_open now b =
    b\<lparr>state := Open, opened_at := Some now, consecutive_successes := 0, half_open_in_flight := False\<rparr>"

definition transition_to_half_open :: "CircuitInner \<Rightarrow> CircuitInner" where
  "transition_to_half_open b = b\<lparr>state := HalfOpen, consecutive_successes := 0, half_open_in_flight := False\<rparr>"

definition transition_to_closed :: "CircuitInner \<Rightarrow> CircuitInner" where
  "transition_to_closed b = b\<lparr>state := Closed, consecutive_failures := 0, consecutive_successes := 0,
     total_requests := 0, failed_requests := 0, opened_at := None, half_open_in_flight := False\<rparr>"

definition circuit_stats :: "CircuitInner \<Rightarrow> CircuitBreakerStats" where
  "circuit_stats b = \<lparr>st_state = state b, st_consecutive_failures = consecutive_failures b,
     st_consecutive_successes = consecutive_successes b, st_total_requests = total_requests b,
     st_failed_requests = failed_requests b, st_last_success_at = last_success_at b,
     st_last_failure_at = last_failure_at b, st_last_error = last_error b\<rparr>"

text \<open>\<open>opened.elapsed().as_secs()\<close>.\<close>

definition elapsed_secs :: "nat \<Rightarrow> nat \<Rightarrow> nat" where
  "elapsed_secs now opened = (now - opened) div 10 ^ 9"

definition allow_request :: "CircuitBreakerConfig \<Rightarrow> nat \<Rightarrow> CircuitInner \<Rightarrow> CircuitInner \<times> CircuitPermit" where
  "allow_request cfg now b0 =
    (let b1 = b0\<lparr>config := cfg\<rparr>;
         b = (if state b1 = Open \<and> (case opened_at b1 of
                  None \<Rightarrow> False
                | Some opened \<Rightarrow> timeout_seconds (config b1) \<le> elapsed_secs now opened)
              then transition_to_half_open b1 else b1)
     in case state b of
          Closed \<Rightarrow> (b, \<lparr>allowed = True, used_half_open_permit = False\<rparr>)
        | Open \<Rightarrow> (b, permit_default)
        | HalfOpen \<Rightarrow>
            if \<not> half_open_in_flight b
            then (b\<lparr>half_open_in_flight := True\<rparr>, \<lparr>allowed = True, used_half_open_permit = True\<rparr>)
            else (b, permit_default))"

definition record_success :: "CircuitBreakerConfig \<Rightarrow> bool \<Rightarrow> int \<Rightarrow> CircuitInner \<Rightarrow> CircuitInner" where
  "record_success cfg used stamp b0 =
    (let b1 = b0\<lparr>config := cfg, half_open_in_flight := (if used then False else half_open_in_flight b0),
           last_success_at := Some stamp, last_error := None, consecutive_failures := 0,
           total_requests := saturating_add (total_requests b0) 1\<rparr>
     in if state b1 = HalfOpen
        then let b2 = b1\<lparr>consecutive_successes := saturating_add (consecutive_successes b1) 1\<rparr>
             in if success_threshold (config b2) \<le> consecutive_successes b2 then transition_to_closed b2 else b2
        else b1)"

text \<open>\<open>usage::sanitize_summary\<close>: runs of white space become one blank, at most 512 characters are kept.\<close>

function split_whitespace :: "string \<Rightarrow> string \<Rightarrow> string list" where
  "split_whitespace word s =
    (if s = [] then (if word = [] then [] else [word])
     else if blank_len s = 0 then split_whitespace (word @ [hd s]) (tl s)
     else (if word = [] then [] else [word]) @ split_whitespace [] (drop (blank_len s) s))"
  by auto
termination
  by (relation "measure (\<lambda>(_, s). length s)") auto

declare split_whitespace.simps [simp del]

fun join_words :: "string list \<Rightarrow> string" where
  "join_words [] = []"
| "join_words [w] = w"
| "join_words (w # ws) = w @ '' '' @ join_words ws"

text \<open>The first \<open>n\<close> characters of a text: a character ends where the next lead byte stands.\<close>

fun take_chars :: "nat \<Rightarrow> string \<Rightarrow> string" where
  "take_chars n [] = []"
| "take_chars n (c # cs) =
    (if 128 \<le> byte_of c \<and> byte_of c < 192 then c # take_chars n cs
     else case n of 0 \<Rightarrow> [] | Suc m \<Rightarrow> c # take_chars m cs)"

definition MAX_ERROR_CHARS :: nat where
  "MAX_ERROR_CHARS = 512"

definition sanitize_summary :: "string \<Rightarrow> string" where
  "sanitize_summary message =
    (let collapsed = join_words (split_whitespace [] message)
     in take_chars MAX_ERROR_CHARS (if collapsed = [] then ''local router request failed'' else collapsed))"

definition error_rate_reached :: "CircuitInner \<Rightarrow> bool" where
  "error_rate_reached b \<longleftrightarrow> min_requests (config b) \<le> total_requests b
    \<and> saturating_mul (ucast (total_requests b) :: u64) (ucast (error_rate_percent (config b)))
      \<le> saturating_mul (ucast (failed_requests b) :: u64) 100"

definition record_failure :: "CircuitBreakerConfig \<Rightarrow> bool \<Rightarrow> string \<Rightarrow> nat \<Rightarrow> int \<Rightarrow> CircuitInner \<Rightarrow> CircuitInner" where
  "record_failure cfg used error now stamp b0 =
    (let b = b0\<lparr>config := cfg, half_open_in_flight := (if used then False else half_open_in_flight b0),
           last_failure_at := Some stamp, last_error := Some (sanitize_summary error),
           consecutive_failures := saturating_add (consecutive_failures b0) 1, consecutive_successes := 0,
           total_requests := saturating_add (total_requests b0) 1,
           failed_requests := saturating_add (failed_requests b0) 1\<rparr>
     in if state b = HalfOpen then transition_to_open now b
        else if state b \<noteq> Closed then b
        else if failure_threshold (config b) \<le> consecutive_failures b \<or> error_rate_reached b
        then transition_to_open now b else b)"

definition release_neutral :: "bool \<Rightarrow> CircuitInner \<Rightarrow> CircuitInner" where
  "release_neutral used b = (if \<not> used then b else b\<lparr>half_open_in_flight := False\<rparr>)"

definition circuit_reset :: "CircuitInner \<Rightarrow> CircuitInner" where
  "circuit_reset b = (transition_to_closed b)\<lparr>last_error := None\<rparr>"

section \<open>The registry\<close>

datatype RouterAgent = Claude | Codex

type_synonym Registry = "(RouterAgent \<times> string, CircuitInner) fmap"

definition get_or_create :: "RouterAgent \<Rightarrow> string \<Rightarrow> CircuitBreakerConfig \<Rightarrow> Registry \<Rightarrow> CircuitInner" where
  "get_or_create agent target cfg reg = (case fmlookup reg (agent, target) of Some b \<Rightarrow> b | None \<Rightarrow> circuit_new cfg)"

definition registry_update ::
  "RouterAgent \<Rightarrow> string \<Rightarrow> CircuitBreakerConfig \<Rightarrow> (CircuitInner \<Rightarrow> CircuitInner) \<Rightarrow> Registry \<Rightarrow> Registry" where
  "registry_update agent target cfg f reg = fmupd (agent, target) (f (get_or_create agent target cfg reg)) reg"

definition registry_allow ::
  "RouterAgent \<Rightarrow> string \<Rightarrow> CircuitBreakerConfig \<Rightarrow> nat \<Rightarrow> Registry \<Rightarrow> Registry \<times> CircuitPermit" where
  "registry_allow agent target cfg now reg = (case allow_request cfg now (get_or_create agent target cfg reg) of
     (b, permit) \<Rightarrow> (fmupd (agent, target) b reg, permit))"

definition registry_stats :: "RouterAgent \<Rightarrow> string \<Rightarrow> CircuitBreakerConfig \<Rightarrow> Registry \<Rightarrow> Registry \<times> CircuitBreakerStats" where
  "registry_stats agent target cfg reg =
    (registry_update agent target cfg id reg, circuit_stats (get_or_create agent target cfg reg))"

section \<open>Any sequence of calls\<close>

datatype BreakerOp =
    AllowOp CircuitBreakerConfig nat
  | SuccessOp CircuitBreakerConfig bool int
  | FailureOp CircuitBreakerConfig bool string nat int
  | NeutralOp CircuitBreakerConfig bool
  | ResetOp CircuitBreakerConfig

fun breaker_step :: "BreakerOp \<Rightarrow> CircuitInner \<Rightarrow> CircuitInner" where
  "breaker_step (AllowOp cfg now) b = fst (allow_request cfg now b)"
| "breaker_step (SuccessOp cfg used stamp) b = record_success cfg used stamp b"
| "breaker_step (FailureOp cfg used error now stamp) b = record_failure cfg used error now stamp b"
| "breaker_step (NeutralOp cfg used) b = release_neutral used b"
| "breaker_step (ResetOp cfg) b = circuit_reset b"

fun op_config :: "BreakerOp \<Rightarrow> CircuitBreakerConfig" where
  "op_config (AllowOp cfg now) = cfg"
| "op_config (SuccessOp cfg used stamp) = cfg"
| "op_config (FailureOp cfg used error now stamp) = cfg"
| "op_config (NeutralOp cfg used) = cfg"
| "op_config (ResetOp cfg) = cfg"

text \<open>What every breaker satisfies, in each of its states.\<close>

definition circuit_ok :: "CircuitInner \<Rightarrow> bool" where
  "circuit_ok b \<longleftrightarrow> consecutive_failures b \<le> failed_requests b \<and> failed_requests b \<le> total_requests b
    \<and> (case state b of
         Closed \<Rightarrow> opened_at b = None \<and> \<not> half_open_in_flight b \<and> consecutive_successes b = 0
       | Open \<Rightarrow> opened_at b \<noteq> None \<and> \<not> half_open_in_flight b \<and> consecutive_successes b = 0
       | HalfOpen \<Rightarrow> opened_at b \<noteq> None)"

lemmas transition_defs = transition_to_open_def transition_to_half_open_def transition_to_closed_def

lemma saturating_add_mono: "a \<le> b \<Longrightarrow> saturating_add a c \<le> saturating_add b (c :: 'a::len word)"
  by (simp add: word_le_nat_alt unat_saturating_add)

lemma saturating_add_above: "a \<le> b \<Longrightarrow> a \<le> saturating_add b (c :: 'a::len word)"
  using saturating_add_ge order_trans by blast

lemma allow_ok: "circuit_ok b \<Longrightarrow> circuit_ok (fst (allow_request cfg now b))"
  by (cases "state b") (auto simp: circuit_ok_def allow_request_def Let_def transition_defs split: option.splits)

lemma success_ok: "circuit_ok b \<Longrightarrow> circuit_ok (record_success cfg used stamp b)"
  by (cases "state b")
    (auto simp: circuit_ok_def record_success_def Let_def transition_defs saturating_add_above)

lemma failure_ok: "circuit_ok b \<Longrightarrow> circuit_ok (record_failure cfg used error now stamp b)"
  by (cases "state b")
    (auto simp: circuit_ok_def record_failure_def Let_def transition_defs saturating_add_mono)

lemma breaker_step_ok: "circuit_ok b \<Longrightarrow> circuit_ok (breaker_step op b)"
proof (cases op)
  case (NeutralOp cfg used)
  assume "circuit_ok b"
  with NeutralOp show ?thesis by (cases "state b") (simp_all add: circuit_ok_def release_neutral_def)
next
  case (ResetOp cfg)
  then show ?thesis by (simp add: circuit_ok_def circuit_reset_def transition_defs)
qed (simp_all add: allow_ok success_ok failure_ok)

definition breaker_run :: "BreakerOp list \<Rightarrow> CircuitInner \<Rightarrow> CircuitInner" where
  "breaker_run ops b = fold breaker_step ops b"

text \<open>
  C34. Well-formedness of the breaker: after any calls with any configurations, an open breaker knows
  since when, a closed one has forgotten it, only a half-open one can have a probe in flight or
  successes counted towards closing, and the failure counters stay within the totals although all of them
  saturate.
\<close>

theorem breaker_well_formed: "circuit_ok (breaker_run ops (circuit_new cfg))"
proof -
  have "circuit_ok (fold breaker_step ops b)" if "circuit_ok b" for b
    using that by (induction ops arbitrary: b) (simp_all add: breaker_step_ok)
  moreover have "circuit_ok (circuit_new cfg)" by (simp add: circuit_ok_def circuit_new_def)
  ultimately show ?thesis by (simp add: breaker_run_def)
qed

lemma word_bounds: "unat (w :: u32) < 2 ^ 32" "unat (v :: u8) < 2 ^ 8"
  using unsigned_less [of w, where ?'a = nat] unsigned_less [of v, where ?'a = nat] by simp_all

lemma ucast_u64:
  "unat (ucast (w :: u32) :: u64) = unat w" "unat (ucast (v :: u8) :: u64) = unat v"
proof -
  have "unat w < 2 ^ 64" "unat v < 2 ^ 64" using word_bounds(1) [of w] word_bounds(2) [of v] by simp_all
  then show "unat (ucast w :: u64) = unat w" "unat (ucast v :: u64) = unat v"
    by (simp_all add: unsigned_ucast_eq take_bit_nat_eq_self)
qed

text \<open>Neither product can saturate: a \<open>u32\<close> times a \<open>u8\<close> or a hundred fits a \<open>u64\<close>.\<close>

lemma error_rate_exact:
  "error_rate_reached b \<longleftrightarrow> unat (min_requests (config b)) \<le> unat (total_requests b)
    \<and> unat (total_requests b) * unat (error_rate_percent (config b)) \<le> 100 * unat (failed_requests b)"
proof -
  have t: "unat (w :: u32) \<le> 2 ^ 32" for w using word_bounds(1) [of w] by simp
  have p: "unat (w :: u8) \<le> 2 ^ 8" for w using word_bounds(2) [of w] by simp
  have "unat (total_requests b) * unat (error_rate_percent (config b)) \<le> 2 ^ 64 - 1"
    using mult_mono [OF t [of "total_requests b"] p [of "error_rate_percent (config b)"]] by simp
  moreover have "unat (failed_requests b) * 100 \<le> 2 ^ 64 - 1"
    using t [of "failed_requests b"] by simp
  ultimately show ?thesis
    by (simp add: error_rate_reached_def word_le_nat_alt unat_saturating_mul ucast_u64 mult.commute)
qed

text \<open>
  When a closed breaker opens: on a failure that makes the consecutive failures reach the threshold, or
  the failed share reach the configured percentage of enough requests, computed exactly, with no
  rounding and no overflow for any counter and percentage; otherwise it stays closed; and a success never
  opens it.
\<close>

theorem failure_opens_exactly:
  assumes "state b = Closed"
  shows "state (record_failure cfg used error now stamp b) =
      (if unat (failure_threshold cfg) \<le> min (unat (consecutive_failures b) + 1) (2 ^ 32 - 1)
         \<or> unat (min_requests cfg) \<le> min (unat (total_requests b) + 1) (2 ^ 32 - 1)
           \<and> min (unat (total_requests b) + 1) (2 ^ 32 - 1) * unat (error_rate_percent cfg)
             \<le> 100 * min (unat (failed_requests b) + 1) (2 ^ 32 - 1)
       then Open else Closed)
    \<and> state (record_success cfg used stamp b) = Closed"
  using assms
  by (simp add: record_failure_def record_success_def Let_def error_rate_exact word_le_nat_alt unat_saturating_add
      transition_to_open_def)

section \<open>Probing\<close>

text \<open>One request that is let through and succeeds, or is turned away.\<close>

definition healthy_request :: "CircuitBreakerConfig \<Rightarrow> nat \<Rightarrow> int \<Rightarrow> CircuitInner \<Rightarrow> CircuitInner" where
  "healthy_request cfg now stamp b = (case allow_request cfg now b of (b', permit) \<Rightarrow>
     if allowed permit then record_success cfg (used_half_open_permit permit) stamp b' else b')"

definition grants :: "CircuitBreakerConfig \<Rightarrow> nat \<Rightarrow> CircuitInner \<Rightarrow> bool" where
  "grants cfg now b \<longleftrightarrow> allowed (snd (allow_request cfg now b))"

lemma healthy_closed:
  assumes "state b = Closed"
  shows "grants cfg now b" "state (healthy_request cfg now stamp b) = Closed"
  using assms by (simp_all add: grants_def healthy_request_def allow_request_def record_success_def Let_def)

definition ready :: "CircuitBreakerConfig \<Rightarrow> nat \<Rightarrow> CircuitInner \<Rightarrow> bool" where
  "ready cfg now b \<longleftrightarrow> \<not> half_open_in_flight b
    \<and> (state b = Open \<longrightarrow> (\<exists>t. opened_at b = Some t \<and> timeout_seconds cfg \<le> elapsed_secs now t))"

lemma healthy_probe:
  assumes "ready cfg now b" "state b \<noteq> Closed"
  shows "grants cfg now b"
    "let n = (if state b = Open then 0 else consecutive_successes b); b' = healthy_request cfg now stamp b in
     if success_threshold cfg \<le> saturating_add n 1 then state b' = Closed
     else state b' = HalfOpen \<and> \<not> half_open_in_flight b' \<and> consecutive_successes b' = saturating_add n 1"
  using assms
  by (cases "state b";
      simp add: ready_def grants_def healthy_request_def allow_request_def record_success_def Let_def transition_defs;
      auto simp: allow_request_def record_success_def Let_def transition_defs)+

fun healthy_run :: "CircuitBreakerConfig \<Rightarrow> (nat \<times> int) list \<Rightarrow> CircuitInner \<Rightarrow> CircuitInner" where
  "healthy_run cfg [] b = b"
| "healthy_run cfg ((now, stamp) # ts) b = healthy_run cfg ts (healthy_request cfg now stamp b)"

fun all_granted :: "CircuitBreakerConfig \<Rightarrow> (nat \<times> int) list \<Rightarrow> CircuitInner \<Rightarrow> bool" where
  "all_granted cfg [] b \<longleftrightarrow> True"
| "all_granted cfg ((now, stamp) # ts) b \<longleftrightarrow> grants cfg now b \<and> all_granted cfg ts (healthy_request cfg now stamp b)"

lemma closed_run: "state b = Closed \<Longrightarrow> all_granted cfg ts b \<and> state (healthy_run cfg ts b) = Closed"
  by (induction ts arbitrary: b) (auto simp: healthy_closed)

lemma half_open_run:
  assumes "state b = HalfOpen" "\<not> half_open_in_flight b" "ts \<noteq> []"
    and "unat (success_threshold cfg) \<le> unat (consecutive_successes b) + length ts"
  shows "all_granted cfg ts b \<and> state (healthy_run cfg ts b) = Closed"
  using assms
proof (induction ts arbitrary: b)
  case (Cons t ts)
  obtain now stamp where t: "t = (now, stamp)" by fastforce
  let ?b = "healthy_request cfg now stamp b"
  have probe: "grants cfg now b" "if success_threshold cfg \<le> saturating_add (consecutive_successes b) 1 then state ?b = Closed
     else state ?b = HalfOpen \<and> \<not> half_open_in_flight ?b \<and> consecutive_successes ?b = saturating_add (consecutive_successes b) 1"
    using healthy_probe(1) [of cfg now b] healthy_probe(2) [of cfg now b stamp] Cons.prems by (simp_all add: ready_def Let_def)
  show ?case
  proof (cases "success_threshold cfg \<le> saturating_add (consecutive_successes b) 1")
    case True
    with probe t closed_run [of ?b] show ?thesis by simp
  next
    case False
    then have small: "unat (consecutive_successes b) + 1 < unat (success_threshold cfg)"
      using word_bounds(1) [of "success_threshold cfg"] by (simp add: word_le_nat_alt unat_saturating_add)
    then have "unat (saturating_add (consecutive_successes b) 1) = unat (consecutive_successes b) + 1"
      using word_bounds(1) [of "success_threshold cfg"] by (simp add: unat_saturating_add)
    moreover have "ts \<noteq> []" using Cons.prems(4) small by auto
    ultimately show ?thesis using Cons.IH [of ?b] Cons.prems(4) probe False t by simp
  qed
qed simp

text \<open>
  C33. The breaker recovers. Once a target answers again, no probe is out and the timeout of an open breaker
  has passed, the next requests are all let through one after the other, and after as many successes as the
  success threshold asks for (one if it asks for none) the breaker is closed and stays closed.
\<close>

theorem breaker_recovers:
  assumes "ready cfg (fst (hd ts)) b" "max 1 (unat (success_threshold cfg)) \<le> length ts"
  shows "all_granted cfg ts b \<and> state (healthy_run cfg ts b) = Closed"
proof (cases "state b")
  case Closed
  then show ?thesis by (rule closed_run)
next
  case HalfOpen
  with assms show ?thesis by (intro half_open_run) (auto simp: ready_def)
next
  case Open
  obtain now stamp rest where t: "ts = (now, stamp) # rest" using assms(2) by (cases ts) auto
  let ?b = "healthy_request cfg now stamp b"
  have probe: "grants cfg now b" "if success_threshold cfg \<le> saturating_add 0 1 then state ?b = Closed
     else state ?b = HalfOpen \<and> \<not> half_open_in_flight ?b \<and> consecutive_successes ?b = saturating_add 0 1"
    using healthy_probe(1) [of cfg now b] healthy_probe(2) [of cfg now b stamp] assms(1) t Open by (simp_all add: Let_def)
  have one: "unat (saturating_add 0 1 :: u32) = 1" by (simp add: unat_saturating_add)
  show ?thesis
  proof (cases "success_threshold cfg \<le> saturating_add 0 1")
    case True
    with probe t closed_run [of ?b] show ?thesis by simp
  next
    case False
    then have "1 < unat (success_threshold cfg)" by (simp add: word_le_nat_alt one)
    with assms(2) t have "rest \<noteq> []" "unat (success_threshold cfg) \<le> 1 + length rest" by auto
    with half_open_run [of ?b rest cfg] probe False t one show ?thesis by simp
  qed
qed

definition sample_open :: CircuitInner where
  "sample_open = record_failure (config_default\<lparr>failure_threshold := 1\<rparr>) False ''timeout'' 0 0 (circuit_new config_default)"

theorem breaker_recovers_witness:
  "state sample_open = Open \<and> state (healthy_run config_default [(60 * 10 ^ 9, 1), (61 * 10 ^ 9, 2)] sample_open) = Closed"
proof -
  have "state sample_open = Open" "opened_at sample_open = Some 0" "\<not> half_open_in_flight sample_open"
    by (simp_all add: sample_open_def record_failure_def circuit_new_def config_default_def Let_def transition_to_open_def
        saturating_add_def)
  then show ?thesis
    using breaker_recovers [of config_default "[(60 * 10 ^ 9, 1), (61 * 10 ^ 9, 2)]" sample_open]
    by (simp add: ready_def elapsed_secs_def config_default_def)
qed

lemma probe_held:
  assumes "allow_request cfg now b = (b', permit)" "used_half_open_permit permit"
  shows "state b' = HalfOpen \<and> half_open_in_flight b'"
  using assms by (cases "state b") (auto simp: allow_request_def permit_default_def Let_def transition_defs
      split: if_splits option.splits)

lemma held_denies: "state b = HalfOpen \<and> half_open_in_flight b \<Longrightarrow> \<not> grants cfg now b"
  by (simp add: grants_def allow_request_def permit_default_def Let_def)

text \<open>
  One probe at a time, and the price of it. After a half-open breaker let a probe through, it turns every
  further request away until somebody reports on the probe, however much time passes: a second
  probe never joins the first, and a probe whose report is lost keeps the target out for good.
\<close>

theorem probe_excludes_others:
  assumes "allow_request cfg now b = (b', permit)" "used_half_open_permit permit"
  shows "\<not> grants cfg' now' (breaker_run (map (\<lambda>(c, t). AllowOp c t) ts) b')"
proof -
  note probe = probe_held [OF assms]
  have "state (fold breaker_step (map (\<lambda>(c, t). AllowOp c t) ts) b) = HalfOpen
      \<and> half_open_in_flight (fold breaker_step (map (\<lambda>(c, t). AllowOp c t) ts) b)"
    if "state b = HalfOpen \<and> half_open_in_flight b" for b
    using that by (induction ts arbitrary: b) (auto simp: allow_request_def Let_def)
  from held_denies [OF this [OF probe]] show ?thesis by (simp add: breaker_run_def)
qed

section \<open>Targets are independent\<close>

definition registry_step :: "(RouterAgent \<times> string) \<times> BreakerOp \<Rightarrow> Registry \<Rightarrow> Registry" where
  "registry_step call reg = (case call of ((agent, target), op) \<Rightarrow>
     registry_update agent target (op_config op) (breaker_step op) reg)"

lemma registry_allow_step:
  "registry_allow agent target cfg now reg =
    (registry_step ((agent, target), AllowOp cfg now) reg, snd (allow_request cfg now (get_or_create agent target cfg reg)))"
  by (simp add: registry_allow_def registry_step_def registry_update_def split: prod.splits)

text \<open>
  The registry is one breaker per agent and target: over any calls, the breaker of a target is exactly what
  its own calls make of a new breaker configured by the first of them, and calls for other targets or the other agent never
  touch it.
\<close>

theorem registry_refines_breakers:
  "fmlookup (fold registry_step calls fmempty) key =
    (case filter (\<lambda>call. fst call = key) calls of
       [] \<Rightarrow> None
     | first # rest \<Rightarrow> Some (breaker_run (map snd (first # rest)) (circuit_new (op_config (snd first)))))"
proof (induction calls rule: rev_induct)
  case (snoc call calls)
  obtain agent target op where call: "call = ((agent, target), op)" by (metis prod.exhaust)
  show ?case
  proof (cases "(agent, target) = key")
    case False
    with snoc call show ?thesis by (auto simp: registry_step_def registry_update_def)
  next
    case True
    with snoc call show ?thesis
      by (auto simp: registry_step_def registry_update_def get_or_create_def breaker_run_def split: list.splits)
  qed
qed simp

end
