(* ===== verification/Connections.thy ===== *)
theory Connections
  imports Prelude
begin

text \<open>
  The document behind \<open>agent-connections.json\<close> (\<open>agent_connections/model.rs\<close>): connections with their model
  catalogs, pools and agent configurations; the structural check every save goes through
  (\<open>store.rs\<close>) and the edits of the \<open>agentConnections\<close> methods (\<open>service.rs\<close>). The hash inside a derived
  configuration id is the argument \<open>digest\<close>.
\<close>

section \<open>The document\<close>

datatype WireProtocol = Responses | Messages | ChatCompletions

datatype Harness = HClaude | HCodex | HOmp | HDsh

fun native_protocol :: "Harness \<Rightarrow> WireProtocol" where
  "native_protocol HClaude = Messages"
| "native_protocol HCodex = Responses"
| "native_protocol HOmp = ChatCompletions"
| "native_protocol HDsh = ChatCompletions"

definition gateway_supported :: "Harness \<Rightarrow> bool" where
  "gateway_supported h \<longleftrightarrow> h \<in> {HClaude, HCodex, HOmp, HDsh}"

fun slug :: "Harness \<Rightarrow> string" where
  "slug HClaude = ''claude''"
| "slug HCodex = ''codex''"
| "slug HOmp = ''omp''"
| "slug HDsh = ''dsh''"

definition from_slug :: "string \<Rightarrow> Harness option" where
  "from_slug s = find (\<lambda>h. slug h = s) [HClaude, HCodex, HOmp, HDsh]"

datatype ConnectionKind = ApiKey | OfficialOAuth | LinkedLocalLogin

datatype Vendor = Anthropic | OpenAi | OtherVendor

datatype ModelSource = Fetched | Manual

datatype InputKind = TextInput | ImageInput | PdfInput | AudioInput

record ReasoningTier =
  tier_label :: string
  tier_value :: string

record ModelEntry =
  upstream_id :: string
  mapped_name :: string
  display_name :: string
  model_source :: ModelSource
  context_window :: "nat option"
  max_output :: "nat option"
  inputs :: "InputKind list"
  reasoning_tiers :: "ReasoningTier list"
  entry_protocols :: "WireProtocol list"
  entry_enabled :: bool

definition routing_name :: "ModelEntry \<Rightarrow> string" where
  "routing_name m = (let mapped = trim (mapped_name m) in if mapped = [] then trim (upstream_id m) else mapped)"

record Connection =
  conn_id :: string
  conn_label :: string
  conn_kind :: ConnectionKind
  vendor :: Vendor
  base_url :: string
  protocols :: "WireProtocol list"
  use_global_proxy :: bool
  models :: "ModelEntry list"
  catalog_revision :: nat
  conn_enabled :: bool
  rest_on_limit :: bool

definition routable_models :: "Connection \<Rightarrow> ModelEntry list" where
  "routable_models c = filter entry_enabled (models c)"

datatype PoolStrategy = Priority | RoundRobin | WeightedRoundRobin | FillFirst | LeastUsed | FreeFirst | Pace

record PoolMember =
  member_connection :: string
  member_priority :: int
  member_weight :: nat
  member_free :: bool

record Pool =
  pool_id :: string
  pool_label :: string
  strategy :: PoolStrategy
  members :: "PoolMember list"
  sticky_sessions :: bool
  sticky_ttl_seconds :: nat

datatype ConfigTarget = ToConnection string | ToPool string | ToRoute "string option"

record AgentConfig =
  config_id :: string
  config_label :: string
  harness :: Harness
  target :: ConfigTarget
  default_model :: string
  default_reasoning :: string
  fallback_models :: "string list"

definition MAX_FALLBACK_MODELS :: nat where
  "MAX_FALLBACK_MODELS = 3"

record LoginGatewayState =
  login_enabled :: bool
  accepted_at :: "string option"
  login_models :: "ModelEntry list"

record LoginGateway =
  login_codex :: LoginGatewayState
  login_claude :: LoginGatewayState

record ConnectionsDocument =
  version :: nat
  connections :: "Connection list"
  pools :: "Pool list"
  configs :: "AgentConfig list"
  login_gateway :: LoginGateway

fun gateway_state :: "LoginGateway \<Rightarrow> Harness \<Rightarrow> LoginGatewayState option" where
  "gateway_state g HCodex = Some (login_codex g)"
| "gateway_state g HClaude = Some (login_claude g)"
| "gateway_state g HOmp = None"
| "gateway_state g HDsh = None"

definition gateway_active :: "LoginGateway \<Rightarrow> Harness \<Rightarrow> bool" where
  "gateway_active g h = (case gateway_state g h of None \<Rightarrow> False | Some s \<Rightarrow> login_enabled s \<and> accepted_at s \<noteq> None)"

subsection \<open>Virtual connections of the local logins\<close>

definition strip_prefix :: "string \<Rightarrow> string \<Rightarrow> string option" where
  "strip_prefix p s = (if take (length p) s = p then Some (drop (length p) s) else None)"

definition LOGIN_PREFIX :: string where
  "LOGIN_PREFIX = ''login-''"

definition VIA_PREFIX :: string where
  "VIA_PREFIX = ''via-''"

definition login_harness :: "Connection \<Rightarrow> Harness option" where
  "login_harness c =
    (if conn_kind c \<noteq> LinkedLocalLogin then None
     else case strip_prefix LOGIN_PREFIX (conn_id c) of
        None \<Rightarrow> None
      | Some rest \<Rightarrow> (case from_slug rest of
          None \<Rightarrow> None
        | Some h \<Rightarrow> if h \<in> {HCodex, HClaude} then Some h else None))"

definition via_id :: "(string \<Rightarrow> string) \<Rightarrow> Harness \<Rightarrow> string \<Rightarrow> string" where
  "via_id digest h cid = VIA_PREFIX @ slug h @ ''-'' @ digest cid"

definition via_login_id :: "Harness \<Rightarrow> string" where
  "via_login_id h = VIA_PREFIX @ slug h @ ''-login''"

definition via_all_id :: "Harness \<Rightarrow> string" where
  "via_all_id h = VIA_PREFIX @ slug h @ ''-all''"

definition login_connection_id :: "Harness \<Rightarrow> string" where
  "login_connection_id h = LOGIN_PREFIX @ slug h"

text \<open>The labels are the texts of the program; their wording is the argument \<open>label\<close>.\<close>

definition login_connection :: "(Harness \<Rightarrow> string) \<Rightarrow> Harness \<Rightarrow> ModelEntry list \<Rightarrow> Connection" where
  "login_connection label h ms =
    \<lparr>conn_id = login_connection_id h, conn_label = label h, conn_kind = LinkedLocalLogin,
     vendor = (if h = HCodex then OpenAi else Anthropic),
     base_url = (if h = HCodex then ''https://chatgpt.com/backend-api/codex'' else ''https://api.anthropic.com''),
     protocols = [if h = HCodex then Responses else Messages], use_global_proxy = False, models = ms,
     catalog_revision = 0, conn_enabled = True, rest_on_limit = True\<rparr>"

definition with_logins :: "(Harness \<Rightarrow> string) \<Rightarrow> ConnectionsDocument \<Rightarrow> ConnectionsDocument" where
  "with_logins label doc = fold (\<lambda>h d.
     if \<not> gateway_active (login_gateway d) h then d
     else let ms = (case gateway_state (login_gateway d) h of Some s \<Rightarrow> login_models s | None \<Rightarrow> [])
          in d\<lparr>connections := login_connection label h ms # connections d\<rparr>) [HCodex, HClaude] doc"

section \<open>The structural check\<close>

fun validate_models :: "string \<Rightarrow> string list \<Rightarrow> ModelEntry list \<Rightarrow> string + unit" where
  "validate_models cid names [] = Inr ()"
| "validate_models cid names (m # ms) =
    (if trim (upstream_id m) = [] then Inl (''connection `'' @ cid @ ''` has a model without upstream id'')
     else if entry_enabled m \<and> routing_name m \<in> set names
     then Inl (''connection `'' @ cid @ ''` maps `'' @ routing_name m @ ''` twice'')
     else validate_models cid (if entry_enabled m then routing_name m # names else names) ms)"

fun validate_connections :: "string list \<Rightarrow> Connection list \<Rightarrow> string + string list" where
  "validate_connections ids [] = Inr ids"
| "validate_connections ids (c # cs) =
    (if trim (conn_id c) = [] \<or> ''c:'' @ conn_id c \<in> set ids
     then Inl (''duplicate or empty connection id `'' @ conn_id c @ ''`'')
     else if protocols c = [] then Inl (''connection `'' @ conn_id c @ ''` lists no protocol'')
     else case validate_models (conn_id c) [] (models c) of
        Inl e \<Rightarrow> Inl e
      | Inr _ \<Rightarrow> validate_connections ((''c:'' @ conn_id c) # ids) cs)"

definition has_connection :: "ConnectionsDocument \<Rightarrow> string \<Rightarrow> bool" where
  "has_connection doc cid \<longleftrightarrow> list_ex (\<lambda>c. conn_id c = cid) (connections doc)"

definition has_pool :: "ConnectionsDocument \<Rightarrow> string \<Rightarrow> bool" where
  "has_pool doc pid \<longleftrightarrow> list_ex (\<lambda>p. pool_id p = pid) (pools doc)"

fun validate_pools :: "ConnectionsDocument \<Rightarrow> string list \<Rightarrow> Pool list \<Rightarrow> string + string list" where
  "validate_pools doc ids [] = Inr ids"
| "validate_pools doc ids (p # ps) =
    (if trim (pool_id p) = [] \<or> ''p:'' @ pool_id p \<in> set ids
     then Inl (''duplicate or empty pool id `'' @ pool_id p @ ''`'')
     else case find (\<lambda>m. \<not> has_connection doc (member_connection m)) (members p) of
        Some m \<Rightarrow> Inl (''pool `'' @ pool_id p @ ''` references missing connection `'' @ member_connection m @ ''`'')
      | None \<Rightarrow> validate_pools doc ((''p:'' @ pool_id p) # ids) ps)"

fun target_exists :: "ConnectionsDocument \<Rightarrow> ConfigTarget \<Rightarrow> bool" where
  "target_exists doc (ToConnection cid) = has_connection doc cid"
| "target_exists doc (ToPool pid) = has_pool doc pid"
| "target_exists doc (ToRoute pid) = (case pid of None \<Rightarrow> True | Some p \<Rightarrow> has_pool doc p)"

fun fallbacks_from :: "AgentConfig \<Rightarrow> string list \<Rightarrow> string list \<Rightarrow> string + unit" where
  "fallbacks_from cfg seen [] = Inr ()"
| "fallbacks_from cfg seen (raw # rest) =
    (let name = trim raw
     in if name = [] \<or> name = trim (default_model cfg) \<or> name \<in> set seen
        then Inl (''config `'' @ config_id cfg @ ''` has an empty, repeated or default fallback model `'' @ name @ ''`'')
        else fallbacks_from cfg (name # seen) rest)"

definition validate_fallbacks :: "AgentConfig \<Rightarrow> string + unit" where
  "validate_fallbacks cfg =
    (if MAX_FALLBACK_MODELS < length (fallback_models cfg)
     then Inl (''config `'' @ config_id cfg @ ''` lists more than '' @ decimal MAX_FALLBACK_MODELS @ '' fallback models'')
     else fallbacks_from cfg [] (fallback_models cfg))"

fun validate_configs :: "ConnectionsDocument \<Rightarrow> string list \<Rightarrow> AgentConfig list \<Rightarrow> string + unit" where
  "validate_configs doc ids [] = Inr ()"
| "validate_configs doc ids (cfg # rest) =
    (if trim (config_id cfg) = [] \<or> ''a:'' @ config_id cfg \<in> set ids
     then Inl (''duplicate or empty config id `'' @ config_id cfg @ ''`'')
     else if \<not> target_exists doc (target cfg)
     then Inl (''config `'' @ config_id cfg @ ''` targets something that does not exist'')
     else case validate_fallbacks cfg of
        Inl e \<Rightarrow> Inl e
      | Inr _ \<Rightarrow> validate_configs doc ((''a:'' @ config_id cfg) # ids) rest)"

definition validate :: "ConnectionsDocument \<Rightarrow> string + unit" where
  "validate doc = (case validate_connections [] (connections doc) of
      Inl e \<Rightarrow> Inl e
    | Inr ids \<Rightarrow> (case validate_pools doc ids (pools doc) of
        Inl e \<Rightarrow> Inl e
      | Inr ids' \<Rightarrow> validate_configs doc ids' (configs doc)))"

section \<open>Edits\<close>

fun upsert :: "('a \<Rightarrow> string) \<Rightarrow> 'a \<Rightarrow> 'a list \<Rightarrow> 'a list" where
  "upsert key item [] = [item]"
| "upsert key item (x # xs) = (if key x = key item then item # xs else x # upsert key item xs)"

definition put_connection :: "Connection \<Rightarrow> ConnectionsDocument \<Rightarrow> ConnectionsDocument" where
  "put_connection c doc =
    (let c' = (case find (\<lambda>o'. conn_id o' = conn_id c) (connections doc) of
            None \<Rightarrow> c
          | Some old \<Rightarrow> c\<lparr>catalog_revision :=
              (if models old \<noteq> models c then catalog_revision old + 1 else catalog_revision old)\<rparr>)
     in doc\<lparr>connections := upsert conn_id c' (connections doc)\<rparr>)"

definition delete_connection :: "string \<Rightarrow> ConnectionsDocument \<Rightarrow> string + ConnectionsDocument" where
  "delete_connection cid doc =
    (case find (\<lambda>cfg. target cfg = ToConnection cid) (configs doc) of
       Some cfg \<Rightarrow> Inl (''agent config `'' @ config_label cfg @ ''` uses this connection; change or delete it first'')
     | None \<Rightarrow>
        let kept = filter (\<lambda>c. conn_id c \<noteq> cid) (connections doc)
        in if length kept = length (connections doc) then Inl (''connection `'' @ cid @ ''` not found'')
           else Inr (doc\<lparr>connections := kept,
             pools := map (\<lambda>p. p\<lparr>members := filter (\<lambda>m. member_connection m \<noteq> cid) (members p)\<rparr>) (pools doc)\<rparr>))"

definition put_pool :: "Pool \<Rightarrow> ConnectionsDocument \<Rightarrow> ConnectionsDocument" where
  "put_pool p doc = doc\<lparr>pools := upsert pool_id p (pools doc)\<rparr>"

definition delete_pool :: "string \<Rightarrow> ConnectionsDocument \<Rightarrow> string + ConnectionsDocument" where
  "delete_pool pid doc =
    (case find (\<lambda>cfg. target cfg = ToPool pid \<or> target cfg = ToRoute (Some pid)) (configs doc) of
       Some cfg \<Rightarrow> Inl (''agent config `'' @ config_label cfg @ ''` uses this pool; change or delete it first'')
     | None \<Rightarrow>
        let kept = filter (\<lambda>p. pool_id p \<noteq> pid) (pools doc)
        in if length kept = length (pools doc) then Inl (''pool `'' @ pid @ ''` not found'')
           else Inr (doc\<lparr>pools := kept\<rparr>))"

definition put_config :: "AgentConfig \<Rightarrow> ConnectionsDocument \<Rightarrow> string + ConnectionsDocument" where
  "put_config cfg doc =
    (if list_ex (\<lambda>c. config_id c \<noteq> config_id cfg \<and> harness c = harness cfg
          \<and> trim (config_label c) = trim (config_label cfg)) (configs doc)
     then Inl (''an agent config named `'' @ config_label cfg @ ''` already exists for this harness'')
     else Inr (doc\<lparr>configs := upsert config_id cfg (configs doc)\<rparr>))"

definition delete_config :: "string \<Rightarrow> ConnectionsDocument \<Rightarrow> string + ConnectionsDocument" where
  "delete_config aid doc =
    (let kept = filter (\<lambda>c. config_id c \<noteq> aid) (configs doc)
     in if length kept = length (configs doc) then Inl (''agent config `'' @ aid @ ''` not found'')
        else Inr (doc\<lparr>configs := kept\<rparr>))"

definition fetched_entry :: "string \<Rightarrow> ModelEntry" where
  "fetched_entry i = \<lparr>upstream_id = i, mapped_name = [], display_name = [], model_source = Fetched, context_window = None,
     max_output = None, inputs = [], reasoning_tiers = [], entry_protocols = [], entry_enabled = True\<rparr>"

definition add_fetched :: "string \<Rightarrow> ModelEntry list \<times> nat \<Rightarrow> ModelEntry list \<times> nat" where
  "add_fetched raw acc = (case acc of (ms, added) \<Rightarrow>
     let i = trim raw
     in if i = [] \<or> list_ex (\<lambda>m. upstream_id m = i) ms then (ms, added) else (ms @ [fetched_entry i], added + 1))"

definition gone_upstream :: "string list \<Rightarrow> ModelEntry \<Rightarrow> bool" where
  "gone_upstream fetched m \<longleftrightarrow> model_source m = Fetched \<and> entry_enabled m
    \<and> \<not> list_ex (\<lambda>raw. trim raw = upstream_id m) fetched"

definition switched_off :: "string list \<Rightarrow> ModelEntry \<Rightarrow> ModelEntry" where
  "switched_off fetched m = (if gone_upstream fetched m then m\<lparr>entry_enabled := False\<rparr> else m)"

definition merge_fetched_models :: "string list \<Rightarrow> Connection \<Rightarrow> Connection \<times> nat \<times> nat" where
  "merge_fetched_models fetched c =
    (let (ms, added) = fold add_fetched fetched (models c, 0);
         disabled = length (filter (gone_upstream fetched) ms);
         ms' = map (switched_off fetched) ms
     in (c\<lparr>models := ms',
           catalog_revision := (if 0 < added \<or> 0 < disabled then catalog_revision c + 1 else catalog_revision c)\<rparr>,
         added, disabled))"

section \<open>What the check accepts\<close>

definition models_ok :: "Connection \<Rightarrow> bool" where
  "models_ok c \<longleftrightarrow> (\<forall>m \<in> set (models c). trim (upstream_id m) \<noteq> []) \<and> distinct (map routing_name (routable_models c))"

definition connections_ok :: "Connection list \<Rightarrow> bool" where
  "connections_ok cs \<longleftrightarrow> distinct (map conn_id cs)
    \<and> (\<forall>c \<in> set cs. trim (conn_id c) \<noteq> [] \<and> protocols c \<noteq> [] \<and> models_ok c)"

definition pools_ok :: "string set \<Rightarrow> Pool list \<Rightarrow> bool" where
  "pools_ok known ps \<longleftrightarrow> distinct (map pool_id ps)
    \<and> (\<forall>p \<in> set ps. trim (pool_id p) \<noteq> [] \<and> (\<forall>m \<in> set (members p). member_connection m \<in> known))"

fun target_in :: "string set \<Rightarrow> string set \<Rightarrow> ConfigTarget \<Rightarrow> bool" where
  "target_in cs ps (ToConnection cid) \<longleftrightarrow> cid \<in> cs"
| "target_in cs ps (ToPool pid) \<longleftrightarrow> pid \<in> ps"
| "target_in cs ps (ToRoute pid) \<longleftrightarrow> set_option pid \<subseteq> ps"

definition fallbacks_ok :: "AgentConfig \<Rightarrow> bool" where
  "fallbacks_ok cfg \<longleftrightarrow> length (fallback_models cfg) \<le> 3
    \<and> distinct (trim (default_model cfg) # map trim (fallback_models cfg)) \<and> [] \<notin> set (map trim (fallback_models cfg))"

definition configs_ok :: "string set \<Rightarrow> string set \<Rightarrow> AgentConfig list \<Rightarrow> bool" where
  "configs_ok cs ps as \<longleftrightarrow> distinct (map config_id as)
    \<and> (\<forall>a \<in> set as. trim (config_id a) \<noteq> [] \<and> target_in cs ps (target a) \<and> fallbacks_ok a)"

definition valid_document :: "ConnectionsDocument \<Rightarrow> bool" where
  "valid_document doc \<longleftrightarrow> connections_ok (connections doc)
    \<and> pools_ok (conn_id ` set (connections doc)) (pools doc)
    \<and> configs_ok (conn_id ` set (connections doc)) (pool_id ` set (pools doc)) (configs doc)"

lemma has_connection_iff: "has_connection doc cid \<longleftrightarrow> cid \<in> conn_id ` set (connections doc)"
  by (auto simp: has_connection_def list_ex_iff)

lemma has_pool_iff: "has_pool doc pid \<longleftrightarrow> pid \<in> pool_id ` set (pools doc)"
  by (auto simp: has_pool_def list_ex_iff)

lemma target_exists_iff:
  "target_exists doc tg \<longleftrightarrow> target_in (conn_id ` set (connections doc)) (pool_id ` set (pools doc)) tg"
  by (cases tg) (auto simp: has_connection_iff has_pool_iff split: option.splits)

lemma validate_models_iff:
  "validate_models cid names ms = Inr () \<longleftrightarrow> (\<forall>m \<in> set ms. trim (upstream_id m) \<noteq> [])
    \<and> distinct (map routing_name (filter entry_enabled ms))
    \<and> routing_name ` set (filter entry_enabled ms) \<inter> set names = {}"
  by (induction cid names ms rule: validate_models.induct) auto

lemma validate_connections_iff:
  "validate_connections ids cs = Inr ids' \<longleftrightarrow> connections_ok cs \<and> (\<forall>c \<in> set cs. ''c:'' @ conn_id c \<notin> set ids)
    \<and> ids' = rev (map (\<lambda>c. ''c:'' @ conn_id c) cs) @ ids"
proof (induction ids cs rule: validate_connections.induct)
  case (2 ids c cs)
  have ok: "validate_models (conn_id c) [] (models c) = Inr () \<longleftrightarrow> models_ok c"
    by (simp add: validate_models_iff models_ok_def routable_models_def)
  show ?case
  proof (cases "validate_models (conn_id c) [] (models c)")
    case (Inl e)
    with ok show ?thesis by (simp add: connections_ok_def)
  next
    case (Inr u)
    with ok 2 show ?thesis by (auto simp: connections_ok_def image_iff)
  qed
qed (auto simp: connections_ok_def)

lemma validate_pools_iff:
  "validate_pools doc ids ps = Inr ids' \<longleftrightarrow> pools_ok (conn_id ` set (connections doc)) ps
    \<and> (\<forall>p \<in> set ps. ''p:'' @ pool_id p \<notin> set ids) \<and> ids' = rev (map (\<lambda>p. ''p:'' @ pool_id p) ps) @ ids"
proof (induction doc ids ps rule: validate_pools.induct)
  case (2 doc ids p ps)
  show ?case
  proof (cases "find (\<lambda>m. \<not> has_connection doc (member_connection m)) (members p)")
    case (Some m)
    then have "m \<in> set (members p)" "\<not> has_connection doc (member_connection m)"
      by (auto simp: find_Some_iff)
    with Some show ?thesis by (auto simp: pools_ok_def has_connection_iff)
  next
    case None
    then have "\<forall>m \<in> set (members p). member_connection m \<in> conn_id ` set (connections doc)"
      by (auto simp: find_None_iff has_connection_iff)
    with None 2 show ?thesis by (auto simp: pools_ok_def image_iff)
  qed
qed (auto simp: pools_ok_def)

lemma fallbacks_from_iff:
  "fallbacks_from cfg seen names = Inr () \<longleftrightarrow> distinct (trim (default_model cfg) # map trim names)
    \<and> [] \<notin> set (map trim names) \<and> set (map trim names) \<inter> set seen = {}"
  by (induction cfg seen names rule: fallbacks_from.induct) (auto simp: Let_def)

lemma validate_fallbacks_iff: "validate_fallbacks cfg = Inr () \<longleftrightarrow> fallbacks_ok cfg"
  by (auto simp: validate_fallbacks_def fallbacks_ok_def fallbacks_from_iff MAX_FALLBACK_MODELS_def)

lemma validate_configs_iff:
  "validate_configs doc ids as = Inr () \<longleftrightarrow>
    configs_ok (conn_id ` set (connections doc)) (pool_id ` set (pools doc)) as \<and> (\<forall>a \<in> set as. ''a:'' @ config_id a \<notin> set ids)"
proof (induction doc ids as rule: validate_configs.induct)
  case (2 doc ids cfg rest)
  show ?case
  proof (cases "validate_fallbacks cfg")
    case (Inl e)
    then have "\<not> fallbacks_ok cfg" by (simp add: validate_fallbacks_iff [symmetric])
    with Inl show ?thesis by (simp add: configs_ok_def)
  next
    case (Inr u)
    then have "fallbacks_ok cfg" by (simp add: validate_fallbacks_iff [symmetric])
    with Inr 2 show ?thesis by (auto simp: configs_ok_def target_exists_iff image_iff [of "config_id cfg"])
  qed
qed (simp add: configs_ok_def)

lemma validate_iff_valid: "validate doc = Inr () \<longleftrightarrow> valid_document doc"
proof (cases "connections_ok (connections doc)")
  case False
  then show ?thesis
    using validate_connections_iff [of "[]" "connections doc"]
    by (cases "validate_connections [] (connections doc)") (auto simp: validate_def valid_document_def)
next
  case True
  let ?ids = "rev (map (\<lambda>c. ''c:'' @ conn_id c) (connections doc))"
  have conns: "validate_connections [] (connections doc) = Inr ?ids"
    using True by (simp add: validate_connections_iff)
  show ?thesis
  proof (cases "pools_ok (conn_id ` set (connections doc)) (pools doc)")
    case False
    then show ?thesis
      using validate_pools_iff [of doc ?ids "pools doc"] conns
      by (cases "validate_pools doc ?ids (pools doc)") (auto simp: validate_def valid_document_def)
  next
    case pools: True
    then have "validate_pools doc ?ids (pools doc) = Inr (rev (map (\<lambda>p. ''p:'' @ pool_id p) (pools doc)) @ ?ids)"
      by (auto simp: validate_pools_iff)
    with conns True pools show ?thesis by (auto simp: validate_def valid_document_def validate_configs_iff)
  qed
qed

text \<open>
  The check of a save accepts exactly the well-formed documents: distinct non-blank ids of each kind, a
  protocol on every connection, no model name that two routable entries of a connection share, every pool
  member and configuration target in the document, and at most three distinct fallbacks other than the
  default. The one table of seen ids never lets ids of different kinds collide.
\<close>

theorem validate_exact: "validate doc = Inr () \<longleftrightarrow> valid_document doc"
  by (rule validate_iff_valid)

section \<open>Edits keep the document well formed\<close>

lemma upsert_keys: "map key (upsert key item xs) = (if key item \<in> key ` set xs then map key xs else map key xs @ [key item])"
  by (induction xs) auto

lemma upsert_distinct: "distinct (map key xs) \<Longrightarrow> distinct (map key (upsert key item xs))"
  by (auto simp: upsert_keys)

lemma upsert_key_set: "key ` set (upsert key item xs) = insert (key item) (key ` set xs)"
  using arg_cong [OF upsert_keys [of key item xs], of set] by (auto split: if_splits)

lemma upsert_elem: "x \<in> set (upsert key item xs) \<Longrightarrow> x = item \<or> x \<in> set xs"
  by (induction xs) (auto split: if_splits)

lemma target_in_mono: "target_in cs ps tg \<Longrightarrow> cs \<subseteq> cs' \<Longrightarrow> ps \<subseteq> ps' \<Longrightarrow> target_in cs' ps' tg"
  by (cases tg) auto

lemma put_connection_valid:
  assumes "valid_document doc" "trim (conn_id c) \<noteq> []" "protocols c \<noteq> []" "models_ok c"
  shows "valid_document (put_connection c doc)"
proof -
  obtain rev where put: "put_connection c doc = doc\<lparr>connections := upsert conn_id (c\<lparr>catalog_revision := rev\<rparr>) (connections doc)\<rparr>"
    by (cases "find (\<lambda>o'. conn_id o' = conn_id c) (connections doc)")
      (auto simp: put_connection_def Let_def, metis Connection.surjective Connection.update_convs(9))
  have "models_ok (c\<lparr>catalog_revision := rev\<rparr>)" using assms(4) by (simp add: models_ok_def routable_models_def)
  with assms show ?thesis
    unfolding valid_document_def connections_ok_def pools_ok_def configs_ok_def put
    by (auto simp: upsert_distinct upsert_key_set dest!: upsert_elem intro: target_in_mono)
qed

lemma put_pool_valid:
  assumes "valid_document doc" "trim (pool_id p) \<noteq> []" "list_all (has_connection doc) (map member_connection (members p))"
  shows "valid_document (put_pool p doc)"
  using assms unfolding valid_document_def pools_ok_def configs_ok_def put_pool_def
  by (auto simp: upsert_distinct upsert_key_set list_all_iff has_connection_iff dest!: upsert_elem intro: target_in_mono)

lemma put_config_valid:
  assumes "valid_document doc" "trim (config_id a) \<noteq> []" "target_exists doc (target a)" "fallbacks_ok a"
    and "put_config a doc = Inr doc'"
  shows "valid_document doc'"
  using assms unfolding valid_document_def configs_ok_def put_config_def
  by (auto simp: upsert_distinct target_exists_iff dest!: upsert_elem split: if_splits)

lemma delete_config_valid:
  assumes "valid_document doc" "delete_config aid doc = Inr doc'"
  shows "valid_document doc'"
  using assms unfolding valid_document_def configs_ok_def delete_config_def
  by (auto simp: Let_def distinct_map_filter split: if_splits)

lemma delete_pool_valid:
  assumes "valid_document doc" "delete_pool pid doc = Inr doc'"
  shows "valid_document doc'"
proof -
  have doc': "doc' = doc\<lparr>pools := filter (\<lambda>p. pool_id p \<noteq> pid) (pools doc)\<rparr>"
    and free: "\<forall>a \<in> set (configs doc). target a \<noteq> ToPool pid \<and> target a \<noteq> ToRoute (Some pid)"
    using assms(2) by (auto simp: delete_pool_def Let_def find_None_iff split: option.splits if_splits)
  have "target_in cs (pool_id ` {p \<in> set (pools doc). pool_id p \<noteq> pid}) tg"
    if "target_in cs (pool_id ` set (pools doc)) tg" "tg \<noteq> ToPool pid" "tg \<noteq> ToRoute (Some pid)" for cs tg
    using that by (cases tg) auto
  with assms(1) free doc' show ?thesis
    unfolding valid_document_def pools_ok_def configs_ok_def by (auto simp: distinct_map_filter)
qed

lemma delete_connection_valid:
  assumes "valid_document doc" "delete_connection cid doc = Inr doc'"
  shows "valid_document doc'"
proof -
  let ?kept = "{c \<in> set (connections doc). conn_id c \<noteq> cid}"
  let ?pools = "map (\<lambda>p. p\<lparr>members := filter (\<lambda>m. member_connection m \<noteq> cid) (members p)\<rparr>) (pools doc)"
  have doc': "doc' = doc\<lparr>connections := filter (\<lambda>c. conn_id c \<noteq> cid) (connections doc), pools := ?pools\<rparr>"
    and free: "\<forall>a \<in> set (configs doc). target a \<noteq> ToConnection cid"
    using assms(2) by (auto simp: delete_connection_def Let_def find_None_iff split: option.splits if_splits)
  have ids: "map pool_id ?pools = map pool_id (pools doc)" "pool_id ` set ?pools = pool_id ` set (pools doc)"
    by (simp_all add: image_image)
  have "target_in (conn_id ` ?kept) ps tg"
    if "target_in (conn_id ` set (connections doc)) ps tg" "tg \<noteq> ToConnection cid" for ps tg
    using that by (cases tg) auto
  moreover have "pools_ok (conn_id ` ?kept) ?pools"
    using assms(1) unfolding valid_document_def pools_ok_def ids(1) by auto
  ultimately show ?thesis
    using assms(1) free doc' ids(2) unfolding valid_document_def connections_ok_def configs_ok_def
    by (simp add: distinct_map_filter)
qed

lemma filter_shrinks: "length (filter P xs) = length xs \<longleftrightarrow> list_all P xs"
  by (metis filter_True length_filter_less less_irrefl list_all_iff)

lemma find_none: "find P xs = None \<longleftrightarrow> \<not> list_ex P xs"
  by (induction xs) auto

lemma delete_connection_iff:
  "(\<exists>doc'. delete_connection cid doc = Inr doc') \<longleftrightarrow>
    has_connection doc cid \<and> \<not> list_ex (\<lambda>a. target a = ToConnection cid) (configs doc)"
  using find_none [of "\<lambda>cfg. target cfg = ToConnection cid" "configs doc"]
  by (auto simp: delete_connection_def Let_def filter_shrinks has_connection_def list_ex_iff list_all_iff split: option.splits if_splits)

lemma delete_pool_iff:
  "(\<exists>doc'. delete_pool pid doc = Inr doc') \<longleftrightarrow>
    has_pool doc pid \<and> \<not> list_ex (\<lambda>a. target a = ToPool pid \<or> target a = ToRoute (Some pid)) (configs doc)"
  using find_none [of "\<lambda>cfg. target cfg = ToPool pid \<or> target cfg = ToRoute (Some pid)" "configs doc"]
  by (auto simp: delete_pool_def Let_def filter_shrinks has_pool_def list_ex_iff list_all_iff split: option.splits if_splits)

lemma delete_connection_gone: "delete_connection cid doc = Inr doc' \<Longrightarrow> \<not> has_connection doc' cid"
  by (auto simp: delete_connection_def Let_def has_connection_def list_ex_iff split: option.splits if_splits)

lemma delete_pool_gone: "delete_pool pid doc = Inr doc' \<Longrightarrow> \<not> has_pool doc' pid"
  by (auto simp: delete_pool_def Let_def has_pool_def list_ex_iff split: option.splits if_splits)


definition sample_entry :: ModelEntry where
  "sample_entry = fetched_entry ''gpt''"

definition sample_connection :: "string \<Rightarrow> Connection" where
  "sample_connection cid = \<lparr>conn_id = cid, conn_label = cid, conn_kind = ApiKey, vendor = OtherVendor, base_url = ''https://a'',
     protocols = [Responses], use_global_proxy = False, models = [sample_entry], catalog_revision = 0, conn_enabled = True,
     rest_on_limit = True\<rparr>"

definition sample_document :: ConnectionsDocument where
  "sample_document = \<lparr>version = 1, connections = [sample_connection ''a'', sample_connection ''b''],
     pools = [\<lparr>pool_id = ''p'', pool_label = [], strategy = WeightedRoundRobin,
       members = [\<lparr>member_connection = ''a'', member_priority = 0, member_weight = 3, member_free = False\<rparr>,
         \<lparr>member_connection = ''b'', member_priority = 0, member_weight = 1, member_free = False\<rparr>],
       sticky_sessions = True, sticky_ttl_seconds = 3600\<rparr>],
     configs = [\<lparr>config_id = ''x'', config_label = ''X'', harness = HCodex, target = ToPool ''p'', default_model = ''gpt'',
       default_reasoning = [], fallback_models = []\<rparr>],
     login_gateway = \<lparr>login_codex = \<lparr>login_enabled = False, accepted_at = None, login_models = []\<rparr>,
       login_claude = \<lparr>login_enabled = False, accepted_at = None, login_models = []\<rparr>\<rparr>\<rparr>"

lemma sample_document_valid: "validate sample_document = Inr ()"
  by code_simp


section \<open>Refreshing a catalog\<close>

lemma add_fetched_all:
  "\<exists>news. fold add_fetched fetched (ms, n) = (ms @ map fetched_entry news, n + length news) \<and> distinct news
    \<and> set news = trim ` set fetched - {[]} - upstream_id ` set ms"
proof (induction fetched arbitrary: ms n)
  case (Cons raw rest)
  show ?case
  proof (cases "trim raw = [] \<or> list_ex (\<lambda>m. upstream_id m = trim raw) ms")
    case True
    then have "add_fetched raw (ms, n) = (ms, n)" by (simp add: add_fetched_def Let_def)
    moreover have "trim ` set (raw # rest) - {[]} - upstream_id ` set ms = trim ` set rest - {[]} - upstream_id ` set ms"
      using True by (auto simp: list_ex_iff intro: rev_image_eqI)
    ultimately show ?thesis using Cons.IH [of ms n] by simp
  next
    case False
    let ?ms = "ms @ [fetched_entry (trim raw)]"
    have step: "add_fetched raw (ms, n) = (?ms, n + 1)" using False by (simp add: add_fetched_def Let_def)
    obtain news where "fold add_fetched rest (?ms, n + 1) = (?ms @ map fetched_entry news, n + 1 + length news)"
      "distinct news" "set news = trim ` set rest - {[]} - upstream_id ` set ?ms"
      using Cons.IH [of ?ms "n + 1"] by blast
    with step False show ?thesis
      by (intro exI [of _ "trim raw # news"]) (auto simp: list_ex_iff fetched_entry_def)
  qed
qed simp

lemma add_fetched_known:
  "trim ` set fetched - {[]} \<subseteq> upstream_id ` set ms \<Longrightarrow> fold add_fetched fetched (ms, n) = (ms, n)"
proof (induction fetched)
  case (Cons raw rest)
  from Cons.prems have "trim raw = [] \<or> trim raw \<in> upstream_id ` set ms" by auto
  then have "trim raw = [] \<or> list_ex (\<lambda>m. upstream_id m = trim raw) ms" by (auto simp: list_ex_iff)
  then have "add_fetched raw (ms, n) = (ms, n)" by (simp add: add_fetched_def Let_def)
  with Cons show ?case by auto
qed simp

lemma switched_off_simps [simp]:
  "upstream_id (switched_off fetched m) = upstream_id m" "\<not> gone_upstream fetched (switched_off fetched m)"
  "switched_off fetched (switched_off fetched m) = switched_off fetched m"
  by (simp_all add: switched_off_def gone_upstream_def)

lemma merge_fetched_eq:
  assumes "set news = trim ` set fetched - {[]} - upstream_id ` set (models c)"
    and "fold add_fetched fetched (models c, 0) = (models c @ map fetched_entry news, length news)"
  shows "merge_fetched_models fetched c =
    (let disabled = length (filter (gone_upstream fetched) (models c))
     in (c\<lparr>models := map (switched_off fetched) (models c) @ map fetched_entry news,
           catalog_revision := catalog_revision c + (if 0 < length news \<or> 0 < disabled then 1 else 0)\<rparr>, length news, disabled))"
proof -
  have "\<not> gone_upstream fetched (fetched_entry i)" if "i \<in> set news" for i
    using that assms(1) by (auto simp: gone_upstream_def fetched_entry_def list_ex_iff)
  then have "filter (gone_upstream fetched) (map fetched_entry news) = []"
    "map (switched_off fetched) (map fetched_entry news) = map fetched_entry news"
    by (auto simp: filter_empty_conv switched_off_def)
  then show ?thesis
    by (simp add: merge_fetched_models_def assms(2) Let_def)
qed

text \<open>
  Refreshing a catalog from the provider's list: every entry there was keeps its place and all its fields,
  except that a fetched entry the provider no longer lists is switched off; behind them comes one enabled entry
  for each new non-blank id, once; the counts reported are the entries added and switched off; and
  a second refresh from the same list changes nothing, not even the revision.
\<close>

theorem merge_fetched_exact:
  "\<exists>news. distinct news \<and> set news = trim ` set fetched - {[]} - upstream_id ` set (models c)
    \<and> (let disabled = length (filter (gone_upstream fetched) (models c));
           c' = c\<lparr>models := map (switched_off fetched) (models c) @ map fetched_entry news,
             catalog_revision := catalog_revision c + (if 0 < length news \<or> 0 < disabled then 1 else 0)\<rparr>
       in merge_fetched_models fetched c = (c', length news, disabled) \<and> merge_fetched_models fetched c' = (c', 0, 0))"
proof -
  obtain news where news: "distinct news" "set news = trim ` set fetched - {[]} - upstream_id ` set (models c)"
    and added: "fold add_fetched fetched (models c, 0) = (models c @ map fetched_entry news, length news)"
    using add_fetched_all [of fetched "models c" 0] by auto
  define c' where "c' rev = c\<lparr>models := map (switched_off fetched) (models c) @ map fetched_entry news, catalog_revision := rev\<rparr>" for rev
  have "upstream_id ` set (models (c' rev)) = upstream_id ` set (models c) \<union> set news" for rev
    by (simp add: c'_def image_Un image_image fetched_entry_def)
  then have known: "trim ` set fetched - {[]} \<subseteq> upstream_id ` set (models (c' rev))" for rev
    using news(2) by auto
  have "\<not> gone_upstream fetched (fetched_entry i)" if "i \<in> set news" for i
    using that news(2) by (auto simp: gone_upstream_def fetched_entry_def list_ex_iff)
  then have still: "\<forall>m \<in> set (models (c' rev)). \<not> gone_upstream fetched m" for rev
    by (auto simp: c'_def)
  have "merge_fetched_models fetched (c' rev) = (c' rev, 0, 0)" for rev
  proof -
    have "filter (gone_upstream fetched) (models (c' rev)) = []" "map (switched_off fetched) (models (c' rev)) = models (c' rev)"
      using still [of rev] by (auto simp: filter_empty_conv switched_off_def intro: map_idI)
    then show ?thesis
      by (simp add: merge_fetched_models_def add_fetched_known [OF known] Let_def)
  qed
  with merge_fetched_eq [OF news(2) added] news show ?thesis
    by (intro exI [of _ news]) (simp add: Let_def c'_def)
qed

end
