(* ===== verification/Routing.thy ===== *)
theory Routing
  imports Connections "HOL-Library.List_Lexorder" "HOL-Library.Char_ord" "HOL-Library.Product_Lexorder" "HOL-Library.Multiset"
begin

text \<open>
  Which channels can serve a request and in what order (\<open>agent_connections/routing.rs\<close>), and the
  configurations derived from the document (\<open>ConnectionsDocument::config\<close>). The texts of derived
  labels are arguments. Identifiers are compared bytewise, as Rust compares strings.
\<close>

section \<open>Reaching a channel\<close>

datatype Reach = Direct | ViaGateway WireProtocol WireProtocol

datatype Unavailable =
    ConnectionMissing string
  | ConnectionDisabled
  | PoolMissing string
  | NoProtocol
  | GatewayNotYetForHarness Harness
  | ModelNotOffered string
  | CoolingDown nat
  | NoCandidates

definition model_protocols :: "Connection \<Rightarrow> ModelEntry \<Rightarrow> WireProtocol list" where
  "model_protocols c m = (if entry_protocols m = [] then protocols c else entry_protocols m)"

definition behind_config :: "ConnectionsDocument \<Rightarrow> AgentConfig \<Rightarrow> Connection list" where
  "behind_config doc cfg = (case target cfg of
     ToConnection cid \<Rightarrow> filter (\<lambda>c. conn_id c = cid) (connections doc)
   | ToPool pid \<Rightarrow> (case find (\<lambda>p. pool_id p = pid) (pools doc) of
        None \<Rightarrow> []
      | Some p \<Rightarrow> filter (\<lambda>c. list_ex (\<lambda>m. member_connection m = conn_id c) (members p)) (connections doc))
   | ToRoute _ \<Rightarrow> filter conn_enabled (connections doc))"

definition config_protocol :: "ConnectionsDocument \<Rightarrow> AgentConfig \<Rightarrow> WireProtocol" where
  "config_protocol doc cfg =
    (if harness cfg \<notin> {HOmp, HDsh} then native_protocol (harness cfg)
     else let behind = behind_config doc cfg;
              all_responses = (behind \<noteq> [] \<and> list_all (\<lambda>c. Responses \<in> set (protocols c)) behind);
              any_messages = list_ex (\<lambda>c. Messages \<in> set (protocols c)) behind
          in if all_responses \<and> \<not> any_messages then Responses else Messages)"

fun translation_order :: "WireProtocol \<Rightarrow> WireProtocol list" where
  "translation_order Messages = [ChatCompletions, Responses]"
| "translation_order Responses = [ChatCompletions, Messages]"
| "translation_order ChatCompletions = [Responses, Messages]"

definition reach_in :: "WireProtocol \<Rightarrow> Harness \<Rightarrow> WireProtocol list \<Rightarrow> Unavailable + Reach" where
  "reach_in native h ps =
    (if native \<in> set ps then Inr Direct
     else case find (\<lambda>p. p \<in> set ps) (translation_order native) of
        None \<Rightarrow> Inl NoProtocol
      | Some to \<Rightarrow>
          if \<not> gateway_supported h then Inl (GatewayNotYetForHarness h) else Inr (ViaGateway native to))"

definition reach_protocols :: "Harness \<Rightarrow> WireProtocol list \<Rightarrow> Unavailable + Reach" where
  "reach_protocols h ps = reach_in (native_protocol h) h ps"

definition reach :: "Harness \<Rightarrow> Connection \<Rightarrow> Unavailable + Reach" where
  "reach h c = reach_protocols h (protocols c)"

section \<open>Candidates\<close>

record Candidate =
  cand_connection :: string
  upstream_model :: string
  cand_reach :: Reach
  priority :: int
  weight :: nat
  free :: bool

definition MAX_WEIGHT :: nat where
  "MAX_WEIGHT = 100"

type_synonym Cooldowns = "(string, nat) fmap"

definition model_key :: "string \<Rightarrow> string \<Rightarrow> string" where
  "model_key cid m = cid @ [char_of (31 :: nat)] @ m"

definition cooling_until :: "Cooldowns \<Rightarrow> Candidate \<Rightarrow> nat" where
  "cooling_until cooldowns c =
    max (unwrap_or (fmlookup cooldowns (cand_connection c)) 0)
        (unwrap_or (fmlookup cooldowns (model_key (cand_connection c) (upstream_model c))) 0)"

record UsageCounters =
  requests :: "(string, nat) fmap"
  cursor :: "(string, nat) fmap"
  smooth :: "(string, (string, int) fmap) fmap"

definition member_meta :: "Pool option \<Rightarrow> string \<Rightarrow> PoolMember option" where
  "member_meta pool cid = Option.bind pool (\<lambda>p. find (\<lambda>m. member_connection m = cid) (members p))"

definition find_model :: "Connection \<Rightarrow> string \<Rightarrow> ModelEntry option" where
  "find_model c mapped = find (\<lambda>m. routing_name m = mapped) (routable_models c)"

definition clamp_weight :: "nat \<Rightarrow> nat" where
  "clamp_weight w = min MAX_WEIGHT (max 1 w)"

type_synonym Choice = "Candidate list \<times> (string \<times> Unavailable) list"

definition consider_channel ::
  "WireProtocol \<Rightarrow> AgentConfig \<Rightarrow> string \<Rightarrow> Connection \<Rightarrow> PoolMember option \<Rightarrow> Choice \<Rightarrow> Choice" where
  "consider_channel native cfg model c member acc = (case acc of (out, excluded) \<Rightarrow>
     if (case login_harness c of None \<Rightarrow> False
         | Some owner \<Rightarrow> owner \<noteq> harness cfg \<or> config_id cfg \<noteq> via_login_id owner) then (out, excluded)
     else if \<not> conn_enabled c then (out, excluded @ [(conn_id c, ConnectionDisabled)])
     else case find_model c model of
        None \<Rightarrow> (out, excluded @ [(conn_id c, ModelNotOffered model)])
      | Some entry \<Rightarrow> (case reach_in native (harness cfg) (model_protocols c entry) of
          Inr r \<Rightarrow> (out @ [\<lparr>cand_connection = conn_id c, upstream_model = upstream_id entry, cand_reach = r,
                     priority = (case member of None \<Rightarrow> 0 | Some m \<Rightarrow> member_priority m),
                     weight = (case member of None \<Rightarrow> 1 | Some m \<Rightarrow> clamp_weight (member_weight m)),
                     free = (case member of None \<Rightarrow> False | Some m \<Rightarrow> member_free m)\<rparr>], excluded)
        | Inl reason \<Rightarrow> (out, excluded @ [(conn_id c, reason)])))"

definition lookup_connection :: "ConnectionsDocument \<Rightarrow> string \<Rightarrow> Connection option" where
  "lookup_connection doc cid = find (\<lambda>c. conn_id c = cid) (connections doc)"

definition consider_member ::
  "ConnectionsDocument \<Rightarrow> WireProtocol \<Rightarrow> AgentConfig \<Rightarrow> string \<Rightarrow> PoolMember \<Rightarrow> Choice \<Rightarrow> Choice" where
  "consider_member doc native cfg model m acc = (case lookup_connection doc (member_connection m) of
     Some c \<Rightarrow> consider_channel native cfg model c (Some m) acc
   | None \<Rightarrow> (fst acc, snd acc @ [(member_connection m, ConnectionMissing (member_connection m))]))"

definition login_catch_all :: "ConnectionsDocument \<Rightarrow> WireProtocol \<Rightarrow> AgentConfig \<Rightarrow> string \<Rightarrow> Candidate list \<Rightarrow> Candidate list" where
  "login_catch_all doc native cfg model out =
    (if out = [] \<and> config_id cfg = via_login_id (harness cfg)
     then case find (\<lambda>c. conn_id c = login_connection_id (harness cfg) \<and> conn_enabled c) (connections doc) of
        None \<Rightarrow> out
      | Some login \<Rightarrow> (case reach_in native (harness cfg) (protocols login) of
          Inl _ \<Rightarrow> out
        | Inr r \<Rightarrow> out @ [\<lparr>cand_connection = conn_id login, upstream_model = model, cand_reach = r, priority = 0,
            weight = 1, free = False\<rparr>])
     else out)"

definition candidates :: "ConnectionsDocument \<Rightarrow> AgentConfig \<Rightarrow> string \<Rightarrow> Choice" where
  "candidates doc cfg model =
    (let native = config_protocol doc cfg in
     case target cfg of
       ToConnection cid \<Rightarrow> (case lookup_connection doc cid of
          Some c \<Rightarrow> consider_channel native cfg model c None ([], [])
        | None \<Rightarrow> ([], [(cid, ConnectionMissing cid)]))
     | ToPool pid \<Rightarrow> (case find (\<lambda>p. pool_id p = pid) (pools doc) of
          Some pool \<Rightarrow> fold (consider_member doc native cfg model) (members pool) ([], [])
        | None \<Rightarrow> ([], [(pid, PoolMissing pid)]))
     | ToRoute pid \<Rightarrow>
         (let pool = Option.bind pid (\<lambda>i. find (\<lambda>p. pool_id p = i) (pools doc));
              (out, excluded) = fold (\<lambda>c. consider_channel native cfg model c (member_meta pool (conn_id c))) (connections doc) ([], [])
          in (login_catch_all doc native cfg model out, excluded)))"

definition pool_filter :: "ConnectionsDocument \<Rightarrow> AgentConfig \<Rightarrow> string list option" where
  "pool_filter doc cfg = (case target cfg of
     ToConnection cid \<Rightarrow> Some [cid]
   | ToPool pid \<Rightarrow> map_option (\<lambda>p. map member_connection (members p)) (find (\<lambda>p. pool_id p = pid) (pools doc))
   | ToRoute _ \<Rightarrow> None)"

definition offer_model :: "ConnectionsDocument \<Rightarrow> AgentConfig \<Rightarrow> Connection \<Rightarrow> ModelEntry \<Rightarrow> string list \<Rightarrow> string list" where
  "offer_model doc cfg c m names = (case reach_in (config_protocol doc cfg) (harness cfg) (model_protocols c m) of
     Inl _ \<Rightarrow> names
   | Inr _ \<Rightarrow> (let name = routing_name m in if name \<noteq> [] \<and> name \<notin> set names then names @ [name] else names))"

definition offered_models :: "ConnectionsDocument \<Rightarrow> AgentConfig \<Rightarrow> string list" where
  "offered_models doc cfg = sort (fold (\<lambda>c names.
     if \<not> conn_enabled c then names
     else if (case pool_filter doc cfg of None \<Rightarrow> False | Some ids \<Rightarrow> conn_id c \<notin> set ids) then names
     else fold (offer_model doc cfg c) (routable_models c) names) (connections doc) [])"

section \<open>Ordering\<close>

definition is_cooling :: "Cooldowns \<Rightarrow> nat \<Rightarrow> Candidate \<Rightarrow> bool" where
  "is_cooling cooldowns now c \<longleftrightarrow> now < cooling_until cooldowns c"

definition partition_list :: "('a \<Rightarrow> bool) \<Rightarrow> 'a list \<Rightarrow> 'a list \<times> 'a list" where
  "partition_list P xs = (filter P xs, filter (\<lambda>x. \<not> P x) xs)"

definition take_out :: "nat \<Rightarrow> 'a list \<Rightarrow> 'a list" where
  "take_out i xs = xs ! i # take i xs @ drop (Suc i) xs"

definition add_weight :: "Candidate \<Rightarrow> (string, int) fmap \<Rightarrow> (string, int) fmap" where
  "add_weight c running =
    fmupd (cand_connection c) (unwrap_or (fmlookup running (cand_connection c)) 0 + int (weight c)) running"

definition running_of :: "(string, int) fmap \<Rightarrow> Candidate \<Rightarrow> int" where
  "running_of running c = unwrap_or (fmlookup running (cand_connection c)) 0"

definition best_index :: "(string, int) fmap \<Rightarrow> Candidate list \<Rightarrow> nat" where
  "best_index running bucket =
    fold (\<lambda>i best. if running_of running (bucket ! best) < running_of running (bucket ! i) then i else best)
      [0..<length bucket] 0"

text \<open>Smooth weighted round robin: one pick, with the running weights it leaves.\<close>

definition smooth_pick :: "Candidate list \<Rightarrow> (string, int) fmap \<Rightarrow> Candidate list \<times> (string, int) fmap" where
  "smooth_pick bucket running0 =
    (let total = sum_list (map (\<lambda>c. int (weight c)) bucket);
         running = fold add_weight bucket running0;
         best = best_index running bucket
     in (take_out best bucket,
         fmupd (cand_connection (bucket ! best)) (running_of running (bucket ! best) - total) running))"

definition rotate_bucket :: "PoolStrategy \<Rightarrow> string \<Rightarrow> Candidate list \<Rightarrow> UsageCounters \<Rightarrow> Candidate list \<times> UsageCounters" where
  "rotate_bucket strat key bucket usage =
    (if strat = RoundRobin
     then let cur = unwrap_or (fmlookup (cursor usage) key) 0
          in (rotate (cur mod length bucket) bucket, usage\<lparr>cursor := fmupd key ((cur + 1) mod 2 ^ 64) (cursor usage)\<rparr>)
     else let (bucket', running) = smooth_pick bucket (unwrap_or (fmlookup (smooth usage) key) fmempty)
          in (bucket', usage\<lparr>smooth := fmupd key running (smooth usage)\<rparr>))"

definition top_priority :: "(Candidate \<Rightarrow> bool) \<Rightarrow> Candidate list \<Rightarrow> int option" where
  "top_priority cooling xs = (case map priority (filter (\<lambda>c. \<not> cooling c) xs) of
     [] \<Rightarrow> None
   | p # ps \<Rightarrow> Some (fold min ps p))"

definition apply_strategy ::
  "PoolStrategy \<Rightarrow> string \<Rightarrow> (Candidate \<Rightarrow> bool) \<Rightarrow> Candidate list \<Rightarrow> UsageCounters \<Rightarrow> Candidate list \<times> UsageCounters" where
  "apply_strategy strat key cooling xs usage =
    (let used = (\<lambda>c. unwrap_or (fmlookup (requests usage) (cand_connection c)) 0) in
     if strat = Priority \<or> strat = FillFirst then (xs, usage)
     else if strat = LeastUsed \<or> strat = Pace then (sort_key (\<lambda>c. (priority c, used c)) xs, usage)
     else if strat = FreeFirst then (sort_key (\<lambda>c. (\<not> free c, priority c)) xs, usage)
     else case top_priority cooling xs of
        None \<Rightarrow> (xs, usage)
      | Some best \<Rightarrow>
          let (bucket, rest) = partition_list (\<lambda>c. priority c = best \<and> \<not> cooling c) xs;
              (bucket', usage') = rotate_bucket strat key bucket usage
          in (bucket' @ rest, usage'))"

fun position :: "('a \<Rightarrow> bool) \<Rightarrow> 'a list \<Rightarrow> nat option" where
  "position P [] = None"
| "position P (x # xs) = (if P x then Some 0 else map_option Suc (position P xs))"

definition pin_first :: "string option \<Rightarrow> Candidate list \<Rightarrow> Candidate list" where
  "pin_first sticky xs = (case sticky of
     None \<Rightarrow> xs
   | Some s \<Rightarrow> (case position (\<lambda>c. cand_connection c = s) xs of None \<Rightarrow> xs | Some i \<Rightarrow> take_out i xs))"

definition order ::
  "Candidate list \<Rightarrow> PoolStrategy \<Rightarrow> string \<Rightarrow> string option \<Rightarrow> Cooldowns \<Rightarrow> UsageCounters \<Rightarrow> nat
    \<Rightarrow> Candidate list \<times> UsageCounters" where
  "order xs strat key sticky cooldowns usage now =
    (let cooling = is_cooling cooldowns now;
         base = sort_key (\<lambda>c. (priority c, cand_connection c)) xs;
         (moved, usage') = apply_strategy strat key cooling base usage;
         (ready, waiting) = partition_list (\<lambda>c. \<not> cooling c) (pin_first sticky moved)
     in (ready @ sort_key (cooling_until cooldowns) waiting, usage'))"

section \<open>Classes of failure\<close>

datatype FailureClass =
  RequestError | RateLimited | AuthFailed | PaymentRequired | NotFound | ServerError | Network | FirstByteTimeout

definition from_status :: "nat \<Rightarrow> FailureClass" where
  "from_status s =
    (if s = 400 \<or> 405 \<le> s \<and> s \<le> 406 \<or> 413 \<le> s \<and> s \<le> 415 \<or> s = 422 \<or> s = 501 then RequestError
     else if s = 429 then RateLimited
     else if s = 402 then PaymentRequired
     else if s = 401 \<or> s = 403 then AuthFailed
     else if s = 404 then NotFound
     else ServerError)"

definition contains_text :: "string \<Rightarrow> string \<Rightarrow> bool" where
  "contains_text w s \<longleftrightarrow> list_ex (\<lambda>i. take (length w) (drop i s) = w) [0..<Suc (length s)]"

definition ascii_lower :: "string \<Rightarrow> string" where
  "ascii_lower s = map (\<lambda>c. if 65 \<le> byte_of c \<and> byte_of c \<le> 90 then char_of (byte_of c + 32) else c) s"

definition from_semantic :: "string \<Rightarrow> string \<Rightarrow> FailureClass" where
  "from_semantic kind0 message0 =
    (let kind = ascii_lower kind0; message = ascii_lower message0;
         any = list_ex (\<lambda>w. contains_text w kind \<or> contains_text w message)
     in if any [''context_length'', ''context_window'', ''prompt is too long'', ''maximum context''] then RequestError
        else if any [''insufficient_quota'', ''quota'', ''billing'', ''credit'', ''payment''] then PaymentRequired
        else if any [''rate_limit'', ''rate limit'', ''too many requests'', ''usage_limit''] then RateLimited
        else if any [''authentication'', ''permission'', ''invalid_api_key'', ''unauthorized''] then AuthFailed
        else if any [''not_found'', ''model_not_found'', ''does not exist''] then NotFound
        else if any [''invalid_request'', ''content_filter'', ''content_policy'', ''safety'', ''refusal'', ''cyber_policy'',
          ''invalid_prompt''] then RequestError
        else ServerError)"

definition should_failover :: "FailureClass \<Rightarrow> bool" where
  "should_failover k \<longleftrightarrow> k \<noteq> RequestError"

definition cools_model :: "FailureClass \<Rightarrow> bool" where
  "cools_model k \<longleftrightarrow> k \<in> {NotFound, FirstByteTimeout}"

definition allows_rebind :: "FailureClass \<Rightarrow> bool" where
  "allows_rebind k \<longleftrightarrow> k \<in> {RateLimited, AuthFailed, PaymentRequired, NotFound}"

definition cleared_by_edit :: "FailureClass \<Rightarrow> bool" where
  "cleared_by_edit k \<longleftrightarrow> k \<in> {AuthFailed, NotFound, PaymentRequired}"

fun cooldown_seconds :: "FailureClass \<Rightarrow> nat option \<Rightarrow> nat \<Rightarrow> nat" where
  "cooldown_seconds RequestError retry_after n = 0"
| "cooldown_seconds RateLimited retry_after n =
    (case retry_after of Some s \<Rightarrow> max s 10 | None \<Rightarrow> min (10 * 2 ^ min n 6) 600)"
| "cooldown_seconds AuthFailed retry_after n = 30 * 60"
| "cooldown_seconds PaymentRequired retry_after n = 30 * 60"
| "cooldown_seconds NotFound retry_after n = 12 * 60 * 60"
| "cooldown_seconds ServerError retry_after n = min (5 * 2 ^ min n 5) 300"
| "cooldown_seconds Network retry_after n = min (5 * 2 ^ min n 5) 300"
| "cooldown_seconds FirstByteTimeout retry_after n =
    (case n of 0 \<Rightarrow> 0 | Suc m \<Rightarrow> min (60 * 2 ^ min m 5) (30 * 60))"

section \<open>Derived configurations\<close>

definition split_once :: "char \<Rightarrow> string \<Rightarrow> (string \<times> string) option" where
  "split_once ch s = (case dropWhile (\<lambda>c. c \<noteq> ch) s of [] \<Rightarrow> None | _ # rest \<Rightarrow> Some (takeWhile (\<lambda>c. c \<noteq> ch) s, rest))"

definition route_all :: "string \<Rightarrow> string \<Rightarrow> Harness \<Rightarrow> string \<Rightarrow> AgentConfig" where
  "route_all aid label h model = \<lparr>config_id = aid, config_label = label, harness = h, target = ToRoute None,
     default_model = model, default_reasoning = [], fallback_models = []\<rparr>"

definition derived_all :: "string \<Rightarrow> ConnectionsDocument \<Rightarrow> Harness \<Rightarrow> AgentConfig option" where
  "derived_all label doc h =
    (if \<not> gateway_supported h \<or> \<not> list_ex conn_enabled (connections doc) then None
     else let cfg = route_all (via_all_id h) label h [];
              offered = offered_models doc cfg;
              names = concat (map (\<lambda>c. map routing_name (routable_models c))
                (filter (\<lambda>c. conn_enabled c \<and> login_harness c = None) (connections doc)))
          in map_option (\<lambda>name. cfg\<lparr>default_model := name\<rparr>) (find (\<lambda>name. name \<in> set offered) names))"

definition derived_login :: "string \<Rightarrow> ConnectionsDocument \<Rightarrow> Harness \<Rightarrow> AgentConfig option" where
  "derived_login label doc h = (case lookup_connection doc (login_connection_id h) of
     None \<Rightarrow> None
   | Some login \<Rightarrow> (case routable_models login of
       [] \<Rightarrow> None
     | m # _ \<Rightarrow> Some (route_all (via_login_id h) label h (routing_name m))))"

definition derived_config :: "(string \<Rightarrow> string) \<Rightarrow> ConnectionsDocument \<Rightarrow> Harness \<Rightarrow> Connection \<Rightarrow> AgentConfig option" where
  "derived_config digest doc h c =
    (if \<not> gateway_supported h \<or> \<not> conn_enabled c then None
     else let cfg = \<lparr>config_id = via_id digest h (conn_id c), config_label = conn_label c, harness = h,
                target = ToConnection (conn_id c), default_model = [], default_reasoning = [], fallback_models = []\<rparr>;
              offered = offered_models doc cfg
          in map_option (\<lambda>name. cfg\<lparr>default_model := name\<rparr>)
               (find (\<lambda>name. name \<in> set offered) (map routing_name (routable_models c))))"

definition connection_configs :: "(string \<Rightarrow> string) \<Rightarrow> string \<Rightarrow> ConnectionsDocument \<Rightarrow> AgentConfig list" where
  "connection_configs digest all_label doc =
    List.map_filter (derived_all all_label doc) [HCodex, HClaude, HOmp, HDsh]
    @ concat (map (\<lambda>c. List.map_filter (\<lambda>h. derived_config digest doc h c) [HCodex, HClaude, HOmp, HDsh])
        (filter (\<lambda>c. conn_enabled c \<and> login_harness c = None) (connections doc)))"

definition document_config ::
  "(string \<Rightarrow> string) \<Rightarrow> string \<Rightarrow> string \<Rightarrow> ConnectionsDocument \<Rightarrow> string \<Rightarrow> AgentConfig option" where
  "document_config digest all_label login_label doc aid = (case find (\<lambda>c. config_id c = aid) (configs doc) of
     Some cfg \<Rightarrow> Some cfg
   | None \<Rightarrow> (case strip_prefix VIA_PREFIX aid of
       None \<Rightarrow> None
     | Some tail \<Rightarrow> (case split_once CHR ''-'' tail of
         None \<Rightarrow> None
       | Some (s, rest) \<Rightarrow> (case from_slug s of
           None \<Rightarrow> None
         | Some h \<Rightarrow>
             if rest = ''all'' then derived_all all_label doc h
             else if rest = ''login'' then derived_login login_label doc h
             else (case find (\<lambda>c. via_id digest h (conn_id c) = aid) (connections doc) of
               None \<Rightarrow> None
             | Some c \<Rightarrow> derived_config digest doc h c)))))"

section \<open>Every strategy only reorders\<close>

lemma mset_take_out: "i < length xs \<Longrightarrow> mset (take_out i xs) = mset xs"
  by (simp add: take_out_def) (metis add_mset_add_single append_take_drop_id Cons_nth_drop_Suc mset.simps(2) mset_append
      union_mset_add_mset_right)

lemma best_index_spec:
  assumes "bucket \<noteq> []"
  shows "best_index running bucket < length bucket"
    "c \<in> set bucket \<Longrightarrow> running_of running c \<le> running_of running (bucket ! best_index running bucket)"
proof -
  let ?step = "\<lambda>i best. if running_of running (bucket ! best) < running_of running (bucket ! i) then i else best"
  have upto: "fold ?step [0..<k] 0 < length bucket
      \<and> (\<forall>i < k. running_of running (bucket ! i) \<le> running_of running (bucket ! fold ?step [0..<k] 0))"
    if "k \<le> length bucket" for k
    using that
  proof (induction k)
    case (Suc k)
    then show ?case by (auto simp: less_Suc_eq intro: order_trans)
  qed (use assms in simp)
  show "best_index running bucket < length bucket" using upto [of "length bucket"] by (simp add: best_index_def)
  show "running_of running c \<le> running_of running (bucket ! best_index running bucket)" if "c \<in> set bucket"
    using that upto [of "length bucket"] by (auto simp: best_index_def in_set_conv_nth)
qed

lemma top_priority_spec:
  assumes "top_priority cooling xs = Some best"
  shows "\<exists>c \<in> set xs. \<not> cooling c \<and> priority c = best" "c \<in> set xs \<Longrightarrow> \<not> cooling c \<Longrightarrow> best \<le> priority c"
proof -
  obtain p ps where ps: "map priority (filter (\<lambda>c. \<not> cooling c) xs) = p # ps" "best = fold min ps p"
    using assms by (auto simp: top_priority_def split: list.splits)
  then have "best = Min (priority ` {c \<in> set xs. \<not> cooling c})"
    by (metis Min.set_eq_fold list.set_map set_filter)
  moreover have "set (filter (\<lambda>c. \<not> cooling c) xs) \<noteq> {}" using ps(1) by (metis list.discI map_is_Nil_conv set_empty)
  then have "{c \<in> set xs. \<not> cooling c} \<noteq> {}" by simp
  ultimately have "best \<in> priority ` {c \<in> set xs. \<not> cooling c}"
    using Min_in [of "priority ` {c \<in> set xs. \<not> cooling c}"] by auto
  then show "\<exists>c \<in> set xs. \<not> cooling c \<and> priority c = best" by auto
  show "c \<in> set xs \<Longrightarrow> \<not> cooling c \<Longrightarrow> best \<le> priority c" using \<open>best = Min _\<close> by simp
qed

lemma mset_rotate_list: "mset (rotate n xs) = mset xs"
  by (metis append_take_drop_id mset_append rotate_drop_take union_commute)

lemma mset_rotate_bucket: "bucket \<noteq> [] \<Longrightarrow> mset (fst (rotate_bucket strat key bucket usage)) = mset bucket"
  by (simp add: rotate_bucket_def smooth_pick_def Let_def mset_take_out best_index_spec mset_rotate_list)

lemma mset_apply_strategy: "mset (fst (apply_strategy strat key cooling xs usage)) = mset xs"
proof (cases "top_priority cooling xs")
  case None
  then show ?thesis by (simp add: apply_strategy_def Let_def)
next
  case (Some best)
  then have "filter (\<lambda>c. priority c = best \<and> \<not> cooling c) xs \<noteq> []"
    using top_priority_spec(1) [OF Some] by (auto simp: filter_empty_conv)
  with Some mset_rotate_bucket [OF this, of strat key usage] show ?thesis
    by (auto simp: apply_strategy_def Let_def partition_list_def split: prod.splits)
qed

lemma position_bound: "position P xs = Some i \<Longrightarrow> i < length xs \<and> P (xs ! i)"
  by (induction xs arbitrary: i) (auto split: if_splits)

lemma position_exists: "x \<in> set xs \<Longrightarrow> P x \<Longrightarrow> \<exists>i. position P xs = Some i"
  by (induction xs) auto

lemma mset_pin_first: "mset (pin_first sticky xs) = mset xs"
  by (auto simp: pin_first_def mset_take_out dest: position_bound split: option.splits)

lemma order_eq:
  "fst (order xs strat key sticky cooldowns usage now) =
    (let moved = pin_first sticky (fst (apply_strategy strat key (is_cooling cooldowns now)
       (sort_key (\<lambda>c. (priority c, cand_connection c)) xs) usage))
     in filter (\<lambda>c. \<not> is_cooling cooldowns now c) moved
        @ sort_key (cooling_until cooldowns) (filter (is_cooling cooldowns now) moved))"
  by (simp add: order_def Let_def partition_list_def split: prod.splits)

lemma mset_order: "mset (fst (order xs strat key sticky cooldowns usage now)) = mset xs"
proof -
  have "mset (filter (\<lambda>c. \<not> P c) ys) + mset (filter P ys) = mset ys" for P and ys :: "Candidate list"
    by (induction ys) auto
  then show ?thesis by (simp add: order_eq Let_def mset_pin_first mset_apply_strategy del: mset_filter)
qed

lemma set_order: "set (fst (order xs strat key sticky cooldowns usage now)) = set xs"
  by (metis mset_order set_mset_mset)

text \<open>The first element of a list sorted by a key has the least key, also after dropping some.\<close>

lemma hd_sorted_key:
  assumes "sorted (map f ys)" "filter P ys \<noteq> []" "c \<in> set ys" "P c"
  shows "f (hd (filter P ys)) \<le> f c"
proof -
  have "sorted (map f (filter P ys))" using assms(1) by (induction ys) auto
  moreover have "c \<in> set (filter P ys)" using assms(3,4) by simp
  ultimately show ?thesis by (cases "filter P ys") (auto simp del: set_filter)
qed

lemma strategy_first:
  assumes "strat \<noteq> FreeFirst" "c \<in> set xs" "\<not> cooling c"
    and "moved = fst (apply_strategy strat key cooling (sort_key (\<lambda>c. (priority c, cand_connection c)) xs) usage)"
  shows "priority (hd (filter (\<lambda>c. \<not> cooling c) moved)) \<le> priority c"
proof -
  let ?base = "sort_key (\<lambda>c. (priority c, cand_connection c)) xs"
  have ready: "filter (\<lambda>c. \<not> cooling c) moved \<noteq> []" "c \<in> set moved" "c \<in> set ?base"
    using assms mset_eq_setD [OF mset_apply_strategy [of strat key cooling ?base usage]]
    by (auto simp: filter_empty_conv)
  show ?thesis
  proof (cases "strat = RoundRobin \<or> strat = WeightedRoundRobin")
    case False
    then have "moved = ?base \<or> (\<exists>used :: Candidate \<Rightarrow> nat. moved = sort_key (\<lambda>c. (priority c, used c)) ?base)"
      using assms(1,4) by (cases strat) (auto simp: apply_strategy_def Let_def)
    then show ?thesis
    proof
      assume "moved = ?base"
      with hd_sorted_key [OF sorted_sort_key [of "\<lambda>c. (priority c, cand_connection c)" xs], of "\<lambda>c. \<not> cooling c" c] ready assms
      show ?thesis by (auto simp: less_eq_prod_def)
    next
      assume "\<exists>used :: Candidate \<Rightarrow> nat. moved = sort_key (\<lambda>c. (priority c, used c)) ?base"
      then obtain used :: "Candidate \<Rightarrow> nat" where "moved = sort_key (\<lambda>c. (priority c, used c)) ?base" by blast
      with hd_sorted_key [OF sorted_sort_key [of "\<lambda>c. (priority c, used c)" ?base], of "\<lambda>c. \<not> cooling c" c] ready assms
      show ?thesis by (auto simp: less_eq_prod_def)
    qed
  next
    case True
    show ?thesis
    proof (cases "top_priority cooling ?base")
      case None
      with assms ready have False by (auto simp: top_priority_def filter_empty_conv split: list.splits)
      then show ?thesis ..
    next
      case (Some best)
      let ?bucket = "filter (\<lambda>c. priority c = best \<and> \<not> cooling c) ?base"
      have bucket: "?bucket \<noteq> []" using top_priority_spec(1) [OF Some] by (auto simp: filter_empty_conv)
      let ?first = "fst (rotate_bucket strat key ?bucket usage)"
      have first: "set ?first = set ?bucket" "?first \<noteq> []"
        using mset_eq_setD [OF mset_rotate_bucket [OF bucket, of strat key usage]] mset_rotate_bucket [OF bucket, of strat key usage] bucket
        by (simp_all del: set_filter mset_filter) (metis mset_zero_iff)
      have "\<exists>rest. moved = ?first @ rest"
        using True assms(4) Some by (auto simp: apply_strategy_def Let_def partition_list_def split: prod.splits)
      then obtain rest where "moved = ?first @ rest" by blast
      with first have "hd (filter (\<lambda>c. \<not> cooling c) moved) \<in> set ?bucket"
        by (cases ?first) auto
      then show ?thesis using top_priority_spec(2) [OF Some ready(3) assms(3)] by simp
    qed
  qed
qed

lemma pinned_first:
  assumes "distinct (map cand_connection xs)" "c \<in> set xs" "\<not> cooling c" "cand_connection c = s"
    and "mset moved = mset xs"
  shows "hd (filter (\<lambda>c. \<not> cooling c) (pin_first (Some s) moved)) = c"
proof -
  have "distinct (map cand_connection moved)" "c \<in> set moved"
    using assms by (metis mset_eq_imp_distinct_iff mset_map, metis mset_eq_setD)
  moreover obtain i where i: "position (\<lambda>c. cand_connection c = s) moved = Some i"
    using position_exists [OF \<open>c \<in> set moved\<close>, of "\<lambda>c. cand_connection c = s"] assms(4) by blast
  ultimately have "moved ! i = c" using position_bound [OF i] assms(4) by (auto simp: distinct_map inj_on_def)
  with i assms(3) show ?thesis by (simp add: pin_first_def take_out_def)
qed

text \<open>
  C28. What the ordering of channels guarantees, for every strategy, cooldown table and usage: nothing is lost or
  repeated, channels that may be used now come before cooling ones, cooling ones stand soonest-ending first;
  the member a session is pinned to is tried first while it is ready; and without a pin, unless free
  members go first, the channel tried first has the best priority of all that are ready.
\<close>

theorem order_contract:
  assumes "out = fst (order xs strat key sticky cooldowns usage now)"
  shows "mset out = mset xs
    \<and> (\<exists>ready waiting. out = ready @ waiting \<and> list_all (\<lambda>c. cooling_until cooldowns c \<le> now) ready
        \<and> list_all (\<lambda>c. now < cooling_until cooldowns c) waiting \<and> sorted (map (cooling_until cooldowns) waiting))
    \<and> (\<forall>c. distinct (map cand_connection xs) \<and> c \<in> set xs \<and> cooling_until cooldowns c \<le> now
        \<and> sticky = Some (cand_connection c) \<longrightarrow> hd out = c)
    \<and> (\<forall>c. sticky = None \<and> strat \<noteq> FreeFirst \<and> c \<in> set xs \<and> cooling_until cooldowns c \<le> now
        \<longrightarrow> priority (hd out) \<le> priority c)"
proof (intro conjI allI impI)
  show "mset out = mset xs" using assms by (simp add: mset_order)
  let ?cooling = "is_cooling cooldowns now"
  let ?moved = "fst (apply_strategy strat key ?cooling (sort_key (\<lambda>c. (priority c, cand_connection c)) xs) usage)"
  let ?ready = "filter (\<lambda>c. \<not> ?cooling c) (pin_first sticky ?moved)"
  let ?waiting = "sort_key (cooling_until cooldowns) (filter ?cooling (pin_first sticky ?moved))"
  have out: "out = ?ready @ ?waiting" using assms by (simp add: order_eq Let_def)
  then show "\<exists>ready waiting. out = ready @ waiting \<and> list_all (\<lambda>c. cooling_until cooldowns c \<le> now) ready
        \<and> list_all (\<lambda>c. now < cooling_until cooldowns c) waiting \<and> sorted (map (cooling_until cooldowns) waiting)"
    by (intro exI conjI) (auto simp: list_all_iff is_cooling_def not_less)
  have moved: "mset ?moved = mset xs" by (simp add: mset_apply_strategy)
  have nonempty: "?ready \<noteq> []" if "c \<in> set xs" "cooling_until cooldowns c \<le> now" for c
    using that mset_eq_setD [OF mset_pin_first [of sticky ?moved]] mset_eq_setD [OF moved]
    by (auto simp: filter_empty_conv is_cooling_def not_less)
  show "hd out = c"
    if "distinct (map cand_connection xs) \<and> c \<in> set xs \<and> cooling_until cooldowns c \<le> now \<and> sticky = Some (cand_connection c)" for c
    using that pinned_first [OF _ _ _ refl moved, of c ?cooling] nonempty [of c] out
    by (auto simp: is_cooling_def not_less hd_append)
  show "priority (hd out) \<le> priority c"
    if "sticky = None \<and> strat \<noteq> FreeFirst \<and> c \<in> set xs \<and> cooling_until cooldowns c \<le> now" for c
    using that strategy_first [of strat c xs ?cooling ?moved key usage] nonempty [of c] out
    by (auto simp: is_cooling_def not_less hd_append pin_first_def)
qed

definition sample_usage :: UsageCounters where
  "sample_usage = \<lparr>requests = fmempty, cursor = fmempty, smooth = fmempty\<rparr>"

definition sample_candidate :: "string \<Rightarrow> nat \<Rightarrow> Candidate" where
  "sample_candidate cid w = \<lparr>cand_connection = cid, upstream_model = ''m'', cand_reach = Direct, priority = 0, weight = w, free = False\<rparr>"

theorem order_contract_witness:
  "hd (fst (order [sample_candidate ''a'' 1, sample_candidate ''b'' 1] RoundRobin ''k'' (Some ''b'') fmempty sample_usage 5))
    = sample_candidate ''b'' 1"
proof -
  let ?xs = "[sample_candidate ''a'' 1, sample_candidate ''b'' 1]"
  have "distinct (map cand_connection ?xs) \<and> sample_candidate ''b'' 1 \<in> set ?xs
      \<and> cooling_until fmempty (sample_candidate ''b'' 1) \<le> 5 \<and> Some ''b'' = Some (cand_connection (sample_candidate ''b'' 1))"
    by (simp add: sample_candidate_def cooling_until_def)
  with order_contract [OF refl, of ?xs RoundRobin "''k''" "Some ''b''" fmempty sample_usage 5] show ?thesis by blast
qed

section \<open>Weighted round robin is fair\<close>

text \<open>
  The scheduler apart from the tables that hold its state: after \<open>t\<close> picks of which \<open>cnt c\<close> fell on \<open>c\<close>, each running
  weight is what its weight earned minus a total for each pick, and never falls to minus a total.
\<close>

definition balanced :: "'a set \<Rightarrow> ('a \<Rightarrow> int) \<Rightarrow> int \<Rightarrow> ('a \<Rightarrow> int) \<Rightarrow> ('a \<Rightarrow> int) \<Rightarrow> bool" where
  "balanced B w t cnt r \<longleftrightarrow> sum cnt B = t \<and> (\<forall>c \<in> B. r c = t * w c - sum w B * cnt c \<and> - sum w B < r c)"

lemma balanced_sum:
  assumes "balanced B w t cnt r"
  shows "sum r B = 0"
proof -
  have "sum r B = (\<Sum>c \<in> B. t * w c - sum w B * cnt c)"
    using assms by (intro sum.cong) (auto simp: balanced_def)
  also have "\<dots> = t * sum w B - sum w B * sum cnt B" by (simp add: sum_subtractf sum_distrib_left)
  finally show ?thesis using assms by (simp add: balanced_def)
qed

lemma balanced_step:
  assumes "balanced B w t cnt r" "finite B" "p \<in> B" "0 < sum w B" "\<forall>c \<in> B. 0 \<le> w c"
    and most: "\<forall>c \<in> B. r c + w c \<le> r p + w p"
    and r': "\<forall>c \<in> B. r' c = r c + w c - (if c = p then sum w B else 0)"
  shows "balanced B w (t + 1) (cnt(p := cnt p + 1)) r'"
proof -
  have "\<not> r p + w p \<le> 0"
  proof
    assume "r p + w p \<le> 0"
    with most have "\<forall>c \<in> B. r c + w c \<le> 0" by (meson order_trans)
    then have "(\<Sum>c \<in> B. r c + w c) \<le> 0" by (simp add: sum_nonpos)
    with balanced_sum [OF assms(1)] assms(4) show False by (simp add: sum.distrib)
  qed
  then have pick: "- sum w B < r' p" using r' assms(3) by simp
  have "- sum w B < r' c" if "c \<in> B" "c \<noteq> p" for c
  proof -
    have "- sum w B < r c" "0 \<le> w c" using assms(1,5) that(1) by (auto simp: balanced_def)
    with r' that show ?thesis by simp
  qed
  with pick have low: "\<forall>c \<in> B. - sum w B < r' c" by metis
  have "sum (cnt(p := cnt p + 1)) B = sum cnt B + 1"
    using assms(2,3) by (simp add: sum.remove [of B p])
  moreover have "r' c = (t + 1) * w c - sum w B * (cnt(p := cnt p + 1)) c" if "c \<in> B" for c
  proof -
    have eqs: "r' c = r c + w c - (if c = p then sum w B else 0)" "r c = t * w c - sum w B * cnt c"
      using that assms(1) r' by (auto simp: balanced_def)
    show ?thesis unfolding eqs by (simp add: algebra_simps)
  qed
  ultimately show ?thesis using assms(1) low by (simp add: balanced_def)
qed

lemma balanced_round:
  assumes "balanced B w (k * sum w B) cnt r" "finite B" "0 < sum w B" "c \<in> B"
  shows "cnt c = k * w c"
proof -
  have most: "cnt c \<le> k * w c" if "c \<in> B" for c
  proof (rule ccontr)
    assume "\<not> cnt c \<le> k * w c"
    then have "sum w B * (k * w c + 1) \<le> sum w B * cnt c" using assms(3) by (intro mult_left_mono) auto
    with assms(1) that show False by (auto simp: balanced_def algebra_simps)
  qed
  have "(\<Sum>c \<in> B. k * w c - cnt c) = 0"
    using assms(1) by (simp add: balanced_def sum_subtractf sum_distrib_left)
  then have "\<forall>c \<in> B. k * w c - cnt c = 0" using sum_nonneg_eq_0_iff [of B "\<lambda>c. k * w c - cnt c"] assms(2) most by simp
  with assms(4) show ?thesis by simp
qed

lemma running_of_add:
  "running_of (add_weight d r) c = running_of r c + (if cand_connection c = cand_connection d then int (weight d) else 0)"
  by (simp add: running_of_def add_weight_def)

lemma running_of_fold:
  assumes "distinct (map cand_connection bucket)"
  shows "running_of (fold add_weight bucket r) c = running_of r c
    + (if cand_connection c \<in> cand_connection ` set bucket
       then int (weight (the (find (\<lambda>d. cand_connection d = cand_connection c) bucket))) else 0)"
  using assms by (induction bucket arbitrary: r) (auto simp: running_of_add)

lemma running_of_added:
  assumes "distinct (map cand_connection bucket)" "c \<in> set bucket"
  shows "running_of (fold add_weight bucket r) c = running_of r c + int (weight c)"
proof -
  obtain d where d: "find (\<lambda>d. cand_connection d = cand_connection c) bucket = Some d"
    using assms(2) by (metis (mono_tags, lifting) find_None_iff not_None_eq)
  then have "d \<in> set bucket" "cand_connection d = cand_connection c" by (auto simp: find_Some_iff)
  with assms have "d = c" by (auto simp: distinct_map inj_on_def)
  with d assms(2) show ?thesis by (simp add: running_of_fold [OF assms(1)])
qed

lemma smooth_pick_spec:
  assumes "distinct (map cand_connection bucket)" "bucket \<noteq> []"
  obtains p where "p \<in> set bucket" "hd (fst (smooth_pick bucket r)) = p"
    "\<forall>c \<in> set bucket. running_of r c + int (weight c) \<le> running_of r p + int (weight p)"
    "\<forall>c \<in> set bucket. running_of (snd (smooth_pick bucket r)) c = running_of r c + int (weight c)
      - (if c = p then sum (int \<circ> weight) (set bucket) else 0)"
proof -
  let ?r = "fold add_weight bucket r"
  let ?p = "bucket ! best_index ?r bucket"
  have p: "?p \<in> set bucket" using best_index_spec(1) [OF assms(2)] by simp
  have total: "sum_list (map (\<lambda>c. int (weight c)) bucket) = sum (int \<circ> weight) (set bucket)"
    using assms(1) by (simp add: sum_list_distinct_conv_sum_set distinct_map o_def)
  have "running_of (snd (smooth_pick bucket r)) c = running_of r c + int (weight c)
      - (if c = ?p then sum (int \<circ> weight) (set bucket) else 0)" if "c \<in> set bucket" for c
  proof -
    have "cand_connection c = cand_connection ?p \<longleftrightarrow> c = ?p" using assms(1) that p by (auto simp: distinct_map inj_on_def)
    then have "running_of (snd (smooth_pick bucket r)) c =
        running_of ?r c - (if c = ?p then sum (int \<circ> weight) (set bucket) else 0)"
      by (auto simp: smooth_pick_def Let_def running_of_def total)
    with running_of_added [OF assms(1) that, of r] show ?thesis by simp
  qed
  moreover have "\<forall>c \<in> set bucket. running_of r c + int (weight c) \<le> running_of r ?p + int (weight ?p)"
    using best_index_spec(2) [OF assms(2), of _ ?r] running_of_added [OF assms(1)] p by (metis (no_types))
  ultimately show thesis using p that [of ?p] by (simp add: smooth_pick_def Let_def take_out_def)
qed

text \<open>The channels of the best priority among those that may be used now.\<close>

definition best_ready :: "Cooldowns \<Rightarrow> nat \<Rightarrow> Candidate list \<Rightarrow> Candidate list" where
  "best_ready cooldowns now xs =
    (let ready = filter (\<lambda>c. cooling_until cooldowns c \<le> now) xs
     in filter (\<lambda>c. list_all (\<lambda>d. priority c \<le> priority d) ready) ready)"

lemma order_weighted:
  assumes "c \<in> set (best_ready cooldowns now xs)"
  obtains bucket where "mset bucket = mset (best_ready cooldowns now xs)"
    "\<And>u. hd (fst (order xs WeightedRoundRobin key None cooldowns u now)) =
       hd (fst (smooth_pick bucket (unwrap_or (fmlookup (smooth u) key) fmempty)))"
    "\<And>u. fmlookup (smooth (snd (order xs WeightedRoundRobin key None cooldowns u now))) key =
       Some (snd (smooth_pick bucket (unwrap_or (fmlookup (smooth u) key) fmempty)))"
proof -
  let ?cooling = "is_cooling cooldowns now"
  let ?base = "sort_key (\<lambda>c. (priority c, cand_connection c)) xs"
  have c: "c \<in> set ?base" "\<not> ?cooling c" "\<And>d. d \<in> set ?base \<Longrightarrow> \<not> ?cooling d \<Longrightarrow> priority c \<le> priority d"
    using assms by (auto simp: best_ready_def list_all_iff is_cooling_def not_less)
  obtain best where best: "top_priority ?cooling ?base = Some best"
    using c by (cases "top_priority ?cooling ?base")
      (auto simp: top_priority_def filter_empty_conv split: list.splits)
  then have prio: "best = priority c"
    using top_priority_spec [OF best] c by (metis order_antisym)
  let ?bucket = "filter (\<lambda>d. priority d = best \<and> \<not> ?cooling d) ?base"
  have "mset ?bucket = mset (best_ready cooldowns now xs)"
  proof -
    have "filter_mset (\<lambda>d. priority d = best \<and> \<not> ?cooling d) (mset xs) =
        filter_mset (\<lambda>d. list_all (\<lambda>e. priority d \<le> priority e) (filter (\<lambda>e. cooling_until cooldowns e \<le> now) xs)
          \<and> cooling_until cooldowns d \<le> now) (mset xs)"
      using c prio by (intro filter_mset_cong) (auto simp: is_cooling_def not_less list_all_iff intro: antisym)
    then show ?thesis by (simp add: best_ready_def Let_def filter_filter_mset conj_commute)
  qed
  moreover have bucket: "?bucket \<noteq> []" using c prio by (auto simp: filter_empty_conv)
  moreover have "hd (fst (order xs WeightedRoundRobin key None cooldowns u now)) =
       hd (fst (smooth_pick ?bucket (unwrap_or (fmlookup (smooth u) key) fmempty)))"
    "fmlookup (smooth (snd (order xs WeightedRoundRobin key None cooldowns u now))) key =
       Some (snd (smooth_pick ?bucket (unwrap_or (fmlookup (smooth u) key) fmempty)))" for u
  proof -
    let ?r = "unwrap_or (fmlookup (smooth u) key) fmempty"
    have applied: "apply_strategy WeightedRoundRobin key ?cooling ?base u =
        (fst (smooth_pick ?bucket ?r) @ filter (\<lambda>d. \<not> (priority d = best \<and> \<not> ?cooling d)) ?base,
         u\<lparr>smooth := fmupd key (snd (smooth_pick ?bucket ?r)) (smooth u)\<rparr>)"
      by (simp add: apply_strategy_def best Let_def partition_list_def rotate_bucket_def split: prod.splits)
    have "set (fst (smooth_pick ?bucket ?r)) = set ?bucket"
      by (simp add: smooth_pick_def Let_def mset_eq_setD [OF mset_take_out] best_index_spec(1) [OF bucket] del: set_filter)
    then have "filter (\<lambda>d. \<not> ?cooling d) (fst (smooth_pick ?bucket ?r)) = fst (smooth_pick ?bucket ?r)"
      by (auto simp: filter_id_conv)
    moreover have "fst (smooth_pick ?bucket ?r) \<noteq> []" by (simp add: smooth_pick_def Let_def take_out_def)
    ultimately show "hd (fst (order xs WeightedRoundRobin key None cooldowns u now)) = hd (fst (smooth_pick ?bucket ?r))"
      by (simp add: order_eq applied pin_first_def)
    show "fmlookup (smooth (snd (order xs WeightedRoundRobin key None cooldowns u now))) key = Some (snd (smooth_pick ?bucket ?r))"
      by (simp add: order_def applied Let_def split: prod.splits)
  qed
  ultimately show thesis using that by blast
qed

fun first_picks :: "nat \<Rightarrow> ('u \<Rightarrow> 'c list \<times> 'u) \<Rightarrow> 'u \<Rightarrow> 'c list" where
  "first_picks 0 f u = []"
| "first_picks (Suc n) f u = (case f u of (out, u') \<Rightarrow> hd out # first_picks n f u')"

lemma weighted_run:
  assumes "distinct (map cand_connection bucket)" "bucket \<noteq> []" "0 < sum (int \<circ> weight) (set bucket)"
    and picks: "\<And>u. hd (fst (f u)) = hd (fst (smooth_pick bucket (unwrap_or (fmlookup (smooth u) key) fmempty)))"
    and keeps: "\<And>u. fmlookup (smooth (snd (f u))) key = Some (snd (smooth_pick bucket (unwrap_or (fmlookup (smooth u) key) fmempty)))"
    and "balanced (set bucket) (int \<circ> weight) t cnt (running_of (unwrap_or (fmlookup (smooth u) key) fmempty))"
  shows "\<exists>r. balanced (set bucket) (int \<circ> weight) (t + int n) (\<lambda>c. cnt c + int (count_list (first_picks n f u) c)) r"
  using assms(6)
proof (induction n arbitrary: t cnt u)
  case (Suc n)
  let ?r = "unwrap_or (fmlookup (smooth u) key) fmempty"
  obtain p where p: "p \<in> set bucket" "hd (fst (smooth_pick bucket ?r)) = p"
    and most: "\<forall>c \<in> set bucket. running_of ?r c + int (weight c) \<le> running_of ?r p + int (weight p)"
    and after: "\<forall>c \<in> set bucket. running_of (snd (smooth_pick bucket ?r)) c = running_of ?r c + int (weight c)
      - (if c = p then sum (int \<circ> weight) (set bucket) else 0)"
    using smooth_pick_spec [OF assms(1,2)] by blast
  have "balanced (set bucket) (int \<circ> weight) (t + 1) (cnt(p := cnt p + 1)) (running_of (snd (smooth_pick bucket ?r)))"
    using balanced_step [OF Suc.prems _ p(1) assms(3)] most after by (simp add: o_def)
  then have "balanced (set bucket) (int \<circ> weight) (t + 1) (cnt(p := cnt p + 1))
      (running_of (unwrap_or (fmlookup (smooth (snd (f u))) key) fmempty))"
    by (simp add: keeps)
  then have "\<exists>r. balanced (set bucket) (int \<circ> weight) (t + 1 + int n)
      (\<lambda>c. (cnt(p := cnt p + 1)) c + int (count_list (first_picks n f (snd (f u))) c)) r"
    by (rule Suc.IH)
  moreover have "(\<lambda>c. (cnt(p := cnt p + 1)) c + int (count_list (first_picks n f (snd (f u))) c))
      = (\<lambda>c. cnt c + int (count_list (first_picks (Suc n) f u) c))"
    using picks [of u] p(2) by (auto simp: fun_eq_iff split: prod.splits)
  moreover have "t + 1 + int n = t + int (Suc n)" by simp
  ultimately show ?case by (simp only:)
qed auto

text \<open>
  C27. Weighted round robin is fair. While the set of usable channels stays the same, over any number of full rounds,
  a round being as many requests as the weights of the best-priority ready channels sum up to, each of these channels is
  tried first exactly as often per round as its weight says, starting from fresh counters.
\<close>

theorem weighted_round_robin_fair:
  assumes "distinct (map cand_connection xs)" "list_all (\<lambda>c. 0 < weight c) xs" "fmlookup (smooth usage) key = None"
    and "c \<in> set (best_ready cooldowns now xs)"
  shows "count_list (first_picks (k * sum_list (map weight (best_ready cooldowns now xs)))
      (\<lambda>u. order xs WeightedRoundRobin key None cooldowns u now) usage) c = k * weight c"
proof -
  let ?f = "\<lambda>u. order xs WeightedRoundRobin key None cooldowns u now"
  obtain bucket where bucket: "mset bucket = mset (best_ready cooldowns now xs)"
    and picks: "\<And>u. hd (fst (?f u)) = hd (fst (smooth_pick bucket (unwrap_or (fmlookup (smooth u) key) fmempty)))"
      "\<And>u. fmlookup (smooth (snd (?f u))) key = Some (snd (smooth_pick bucket (unwrap_or (fmlookup (smooth u) key) fmempty)))"
    using order_weighted [OF assms(4), of key] by blast
  have elems: "set bucket = set (best_ready cooldowns now xs)" using bucket by (rule mset_eq_setD)
  have "distinct (map cand_connection (best_ready cooldowns now xs))"
    using assms(1) by (simp add: best_ready_def Let_def distinct_map_filter)
  then have dist: "distinct (map cand_connection bucket)" by (metis bucket mset_eq_imp_distinct_iff mset_map)
  have sums: "int (sum_list (map weight (best_ready cooldowns now xs))) = sum (int \<circ> weight) (set bucket)"
  proof -
    have "sum_list (map weight (best_ready cooldowns now xs)) = sum_list (map weight bucket)"
      by (metis bucket mset_map sum_mset_sum_list)
    also have "\<dots> = sum weight (set bucket)" using dist by (simp add: sum_list_distinct_conv_sum_set distinct_map)
    finally show ?thesis by simp
  qed
  have "weight c > 0" using assms(2,4) by (auto simp: best_ready_def Let_def list_all_iff)
  then have pos: "0 < sum (int \<circ> weight) (set bucket)"
    using assms(4) elems by (intro sum_pos2 [of _ c]) auto
  have nonempty: "bucket \<noteq> []" using assms(4) elems by auto
  have "balanced (set bucket) (int \<circ> weight) 0 (\<lambda>_. 0) (running_of (unwrap_or (fmlookup (smooth usage) key) fmempty))"
    using assms(3) pos by (simp add: balanced_def running_of_def)
  from weighted_run [where f = ?f and key = key, OF dist nonempty pos picks this]
  have "\<exists>r. balanced (set bucket) (int \<circ> weight) (0 + int (k * sum_list (map weight (best_ready cooldowns now xs))))
      (\<lambda>c. 0 + int (count_list (first_picks (k * sum_list (map weight (best_ready cooldowns now xs))) ?f usage) c)) r"
    by blast
  then obtain r where "balanced (set bucket) (int \<circ> weight) (int k * sum (int \<circ> weight) (set bucket))
      (\<lambda>c. int (count_list (first_picks (k * sum_list (map weight (best_ready cooldowns now xs))) ?f usage) c)) r"
    unfolding of_nat_mult sums by auto
  from balanced_round [OF this _ pos] assms(4) elems show ?thesis
    by (simp flip: of_nat_mult)
qed

theorem weighted_round_robin_fair_witness:
  "count_list (first_picks 4 (\<lambda>u. order [sample_candidate ''a'' 3, sample_candidate ''b'' 1] WeightedRoundRobin ''k'' None fmempty u 5)
      sample_usage) (sample_candidate ''a'' 3) = 3"
  using weighted_round_robin_fair [of "[sample_candidate ''a'' 3, sample_candidate ''b'' 1]" sample_usage "''k''"
      "sample_candidate ''a'' 3" fmempty 5 1]
  by (simp add: sample_candidate_def sample_usage_def best_ready_def cooling_until_def)

section \<open>What is offered can be served\<close>

lemma reach_in_iff: "(\<exists>r. reach_in native h ps = Inr r) \<longleftrightarrow> ps \<noteq> []"
proof (cases ps)
  case (Cons p rest)
  then show ?thesis
    by (cases native; cases p) (auto simp: reach_in_def gateway_supported_def, (cases h; simp)+)
next
  case Nil
  then show ?thesis by (cases native) (simp_all add: reach_in_def)
qed

definition serves :: "ConnectionsDocument \<Rightarrow> AgentConfig \<Rightarrow> string \<Rightarrow> Connection \<Rightarrow> bool" where
  "serves doc cfg model c \<longleftrightarrow> conn_enabled c \<and> model \<in> routing_name ` set (routable_models c)"

lemma model_protocols_ne: "protocols c \<noteq> [] \<Longrightarrow> model_protocols c m \<noteq> []"
  by (simp add: model_protocols_def)

lemma consider_channel_serves:
  assumes "login_harness c = None" "protocols c \<noteq> []"
  shows "fst (consider_channel native cfg model c member acc) \<noteq> [] \<longleftrightarrow> fst acc \<noteq> [] \<or> serves doc cfg model c"
proof (cases "find_model c model")
  case None
  then have "model \<notin> routing_name ` set (routable_models c)" by (auto simp: find_model_def find_None_iff)
  with None assms show ?thesis by (simp add: consider_channel_def serves_def split: prod.splits)
next
  case (Some entry)
  then have "model \<in> routing_name ` set (routable_models c)" by (auto simp: find_model_def find_Some_iff)
  moreover obtain r where "reach_in native (harness cfg) (model_protocols c entry) = Inr r"
    using reach_in_iff model_protocols_ne [OF assms(2)] by blast
  ultimately show ?thesis using Some assms by (simp add: consider_channel_def serves_def split: prod.splits)
qed

lemma offered_from:
  assumes "protocols c \<noteq> []" "\<forall>m \<in> set ms. trim (upstream_id m) \<noteq> []"
  shows "set (fold (offer_model doc cfg c) ms names) = set names \<union> routing_name ` set ms"
  using assms(2)
proof (induction ms arbitrary: names)
  case (Cons m ms)
  obtain r where r: "reach_in (config_protocol doc cfg) (harness cfg) (model_protocols c m) = Inr r"
    using reach_in_iff model_protocols_ne [OF assms(1)] by blast
  have "routing_name m \<noteq> []" using Cons.prems by (simp add: routing_name_def Let_def)
  with r have "set (offer_model doc cfg c m names) = insert (routing_name m) (set names)"
    by (auto simp: offer_model_def Let_def)
  with Cons show ?case by simp
qed simp

definition behind :: "ConnectionsDocument \<Rightarrow> AgentConfig \<Rightarrow> Connection \<Rightarrow> bool" where
  "behind doc cfg c = (case pool_filter doc cfg of None \<Rightarrow> True | Some ids \<Rightarrow> conn_id c \<in> set ids)"

lemma offered_set:
  assumes "connections_ok cs"
  shows "set (fold (\<lambda>c names. if \<not> conn_enabled c then names
       else if (case pool_filter doc cfg of None \<Rightarrow> False | Some ids \<Rightarrow> conn_id c \<notin> set ids) then names
       else fold (offer_model doc cfg c) (routable_models c) names) cs names)
    = set names \<union> {model. \<exists>c \<in> set cs. behind doc cfg c \<and> serves doc cfg model c}"
  using assms
proof (induction cs arbitrary: names)
  case (Cons c cs)
  have c: "protocols c \<noteq> []" "\<forall>m \<in> set (routable_models c). trim (upstream_id m) \<noteq> []"
    using Cons.prems by (auto simp: connections_ok_def models_ok_def routable_models_def)
  have ok: "connections_ok cs" using Cons.prems by (simp add: connections_ok_def)
  show ?case
    using Cons.IH [OF ok] offered_from [OF c, of doc cfg]
    by (cases "pool_filter doc cfg") (auto simp: behind_def serves_def)
qed simp

lemma lookup_connection_unique:
  assumes "connections_ok (connections doc)" "c \<in> set (connections doc)"
  shows "lookup_connection doc (conn_id c) = Some c"
proof -
  obtain d where d: "lookup_connection doc (conn_id c) = Some d"
    using assms(2) by (metis (mono_tags, lifting) find_None_iff lookup_connection_def not_None_eq)
  then have "d \<in> set (connections doc)" "conn_id d = conn_id c" by (auto simp: lookup_connection_def find_Some_iff)
  with assms have "d = c" by (auto simp: connections_ok_def distinct_map inj_on_def)
  with d show ?thesis by simp
qed

lemma lookup_connection_in: "lookup_connection doc cid = Some c \<Longrightarrow> c \<in> set (connections doc) \<and> conn_id c = cid"
  by (auto simp: lookup_connection_def find_Some_iff)

lemma fold_choice:
  assumes "\<And>x acc. x \<in> set xs \<Longrightarrow> fst (f x acc) \<noteq> [] \<longleftrightarrow> fst acc \<noteq> [] \<or> P x"
  shows "fst (fold f xs acc) \<noteq> [] \<longleftrightarrow> fst acc \<noteq> [] \<or> (\<exists>x \<in> set xs. P x)"
  using assms
proof (induction xs arbitrary: acc)
  case (Cons x xs)
  have "fst (fold f xs (f x acc)) \<noteq> [] \<longleftrightarrow> fst (f x acc) \<noteq> [] \<or> (\<exists>x \<in> set xs. P x)"
    using Cons.IH [of "f x acc"] Cons.prems by simp
  with Cons.prems [of x acc] show ?case by auto
qed simp

lemma considered_iff_serves:
  assumes "connections_ok (connections doc)" "list_all (\<lambda>c. login_harness c = None) (connections doc)" "c \<in> set (connections doc)"
  shows "fst (consider_channel native cfg model c member acc) \<noteq> [] \<longleftrightarrow> fst acc \<noteq> [] \<or> serves doc cfg model c"
  using assms by (intro consider_channel_serves) (auto simp: connections_ok_def list_all_iff)

lemma pool_candidates_serve:
  assumes "connections_ok (connections doc)" "list_all (\<lambda>c. login_harness c = None) (connections doc)"
    and "\<forall>m \<in> set (members p). member_connection m \<in> conn_id ` set (connections doc)"
  shows "fst (fold (consider_member doc native cfg model) (members p) ([], [])) \<noteq> [] \<longleftrightarrow>
    (\<exists>m \<in> set (members p). \<exists>c \<in> set (connections doc). conn_id c = member_connection m \<and> serves doc cfg model c)"
proof -
  have "fst (consider_member doc native cfg model m acc) \<noteq> [] \<longleftrightarrow>
      fst acc \<noteq> [] \<or> (\<exists>c \<in> set (connections doc). conn_id c = member_connection m \<and> serves doc cfg model c)"
    if "m \<in> set (members p)" for m acc
  proof -
    from assms(3) that have "member_connection m \<in> conn_id ` set (connections doc)" by (rule bspec)
    then obtain c where c: "c \<in> set (connections doc)" "conn_id c = member_connection m" by auto
    have "(\<exists>d \<in> set (connections doc). conn_id d = member_connection m \<and> serves doc cfg model d) \<longleftrightarrow> serves doc cfg model c"
      using c assms(1) by (auto simp: connections_ok_def distinct_map inj_on_def)
    with lookup_connection_unique [OF assms(1) c(1)] c(2) considered_iff_serves [OF assms(1,2) c(1)]
    show ?thesis by (simp add: consider_member_def)
  qed
  from fold_choice [of "members p" "consider_member doc native cfg model", OF this, of "([], [])"] show ?thesis by simp
qed

text \<open>
  C31. The model menu and the router agree: in a document the save check accepts, with no local login switched on,
  a configuration offers a model name exactly when some channel behind the configuration can serve it.
\<close>

theorem offered_iff_servable:
  assumes "validate doc = Inr ()" "list_all (\<lambda>c. login_harness c = None) (connections doc)"
    and "target_exists doc (target cfg)" "config_id cfg \<noteq> via_login_id (harness cfg)"
  shows "model \<in> set (offered_models doc cfg) \<longleftrightarrow> fst (candidates doc cfg model) \<noteq> []"
proof -
  have ok: "connections_ok (connections doc)" "pools_ok (conn_id ` set (connections doc)) (pools doc)"
    using assms(1) by (simp_all add: validate_iff_valid valid_document_def)
  note each = considered_iff_serves [OF ok(1) assms(2)]
  have offered: "model \<in> set (offered_models doc cfg) \<longleftrightarrow> (\<exists>c \<in> set (connections doc). behind doc cfg c \<and> serves doc cfg model c)"
    using offered_set [OF ok(1), of doc cfg "[]"] by (simp add: offered_models_def)
  show ?thesis
  proof (cases "target cfg")
    case (ToConnection cid)
    with assms(3) obtain c where c: "c \<in> set (connections doc)" "conn_id c = cid"
      by (auto simp: has_connection_def list_ex_iff)
    then have "fst (candidates doc cfg model) \<noteq> [] \<longleftrightarrow> serves doc cfg model c"
      using ToConnection lookup_connection_unique [OF ok(1) c(1)] each [OF c(1), of _ _ _ _ "([], [])"] by (simp add: candidates_def Let_def)
    moreover have "behind doc cfg d \<longleftrightarrow> d = c" if "d \<in> set (connections doc)" for d
      using that c ok(1) ToConnection by (auto simp: behind_def pool_filter_def connections_ok_def distinct_map inj_on_def)
    ultimately show ?thesis using offered c(1) by blast
  next
    case (ToPool pid)
    with assms(3) obtain p where p: "find (\<lambda>p. pool_id p = pid) (pools doc) = Some p"
      by (auto simp: has_pool_def list_ex_iff) (metis (mono_tags, lifting) find_None_iff not_None_eq)
    then have members: "\<forall>m \<in> set (members p). member_connection m \<in> conn_id ` set (connections doc)"
      using ok(2) by (auto simp: pools_ok_def find_Some_iff)
    from pool_candidates_serve [OF ok(1) assms(2) members] ToPool p
    have "fst (candidates doc cfg model) \<noteq> [] \<longleftrightarrow>
        (\<exists>m \<in> set (members p). \<exists>c \<in> set (connections doc). conn_id c = member_connection m \<and> serves doc cfg model c)"
      by (simp add: candidates_def Let_def)
    with offered ToPool p show ?thesis by (auto simp: behind_def pool_filter_def)
  next
    case (ToRoute pid)
    let ?pool = "Option.bind pid (\<lambda>i. find (\<lambda>p. pool_id p = i) (pools doc))"
    from fold_choice [of "connections doc" "\<lambda>c. consider_channel (config_protocol doc cfg) cfg model c (member_meta ?pool (conn_id c))"
        "serves doc cfg model" "([], [])"] each
    have "fst (candidates doc cfg model) \<noteq> [] \<longleftrightarrow> (\<exists>c \<in> set (connections doc). serves doc cfg model c)"
      using ToRoute assms(4) by (simp add: candidates_def Let_def login_catch_all_def split: prod.splits)
    with offered ToRoute show ?thesis by (auto simp: behind_def pool_filter_def)
  qed
qed

theorem offered_iff_servable_witness:
  "''gpt'' \<in> set (offered_models sample_document (hd (configs sample_document)))"
proof -
  have "list_all (\<lambda>c. login_harness c = None) (connections sample_document)"
    "target_exists sample_document (target (hd (configs sample_document)))"
    "config_id (hd (configs sample_document)) \<noteq> via_login_id (harness (hd (configs sample_document)))"
    "fst (candidates sample_document (hd (configs sample_document)) ''gpt'') \<noteq> []"
    by code_simp+
  with offered_iff_servable [OF sample_document_valid, of "hd (configs sample_document)" "''gpt''"] show ?thesis by blast
qed

definition sample_login_document :: ConnectionsDocument where
  "sample_login_document = sample_document\<lparr>login_gateway :=
     \<lparr>login_codex = \<lparr>login_enabled = True, accepted_at = Some ''2026-10-30'', login_models = [fetched_entry ''gpt-codex'']\<rparr>,
      login_claude = \<lparr>login_enabled = False, accepted_at = None, login_models = []\<rparr>\<rparr>\<rparr>"


end
