(* ===== verification/ConfigRoutes.thy ===== *)
theory ConfigRoutes
  imports Routing
begin

text \<open>
  Routing of tasks pinned to an agent configuration (\<open>local_router/config_routes.rs\<close>) with the upstream targets it
  makes (\<open>UpstreamTarget\<close> in \<open>local_router/mod.rs\<close>). The tables behind the process-wide mutex are the record
  \<open>RouteState\<close> (with the targets of \<open>reasoning_memory.rs\<close> that get replayed thinking stripped); every function is given the epoch second it reads. Sums of \<open>u64\<close> seconds wrap, as in a release build.
  The keychain, the URL parser, the hash and derived \<open>Debug\<close> texts are arguments.
\<close>

section \<open>Reasoning values of a fallback model\<close>

record EffortMap =
  effort_table :: "(string \<times> string) list"
  accepted :: "string list"
  keep_unknown :: bool

definition effort_pairs :: "ReasoningTier list \<Rightarrow> ReasoningTier \<Rightarrow> (string \<times> string) list" where
  "effort_pairs fallback tier =
    (case find (\<lambda>f. ascii_lower (trim (tier_label f)) = ascii_lower (trim (tier_label tier))) fallback of
       None \<Rightarrow> []
     | Some to \<Rightarrow> map (\<lambda>from. (ascii_lower (trim from), tier_value to)) [tier_value tier, tier_label tier])"

definition effort_new :: "ReasoningTier list \<Rightarrow> ReasoningTier list \<Rightarrow> EffortMap" where
  "effort_new requested fallback = \<lparr>effort_table = concat (map (effort_pairs fallback) requested),
     accepted = map (\<lambda>f. ascii_lower (trim (tier_value f))) fallback, keep_unknown = (fallback = [])\<rparr>"

definition effort_rewrite :: "EffortMap \<Rightarrow> string \<Rightarrow> string option" where
  "effort_rewrite e value =
    (let key = ascii_lower (trim value)
     in if keep_unknown e \<or> key \<in> set (accepted e) then Some value
        else map_option snd (find (\<lambda>(from, _). from = key) (effort_table e)))"

record Fallback =
  requested :: string
  served :: string
  effort :: EffortMap

section \<open>Upstream targets\<close>

text \<open>What the code uses of the crate \<open>url\<close>.\<close>

record 'u UrlApi =
  url_parse :: "string \<Rightarrow> 'u option"
  url_scheme :: "'u \<Rightarrow> string"
  url_host :: "'u \<Rightarrow> string option"
  url_username :: "'u \<Rightarrow> string"
  url_password :: "'u \<Rightarrow> string option"
  url_query :: "'u \<Rightarrow> string option"
  url_fragment :: "'u \<Rightarrow> string option"
  url_path :: "'u \<Rightarrow> string"
  url_set_path :: "string \<Rightarrow> 'u \<Rightarrow> 'u"

record 'u UpstreamTarget =
  target_id :: string
  target_name :: string
  target_url :: 'u
  api_key :: string
  target_models :: "string list"
  enable_1m_context :: bool
  enable_chat_completions_proxy :: bool
  upstream_protocol :: "WireProtocol option"
  target_fallback :: "Fallback option"
  target_login :: "Harness option"

definition trim_slashes :: "string \<Rightarrow> string" where
  "trim_slashes s = rev (dropWhile (\<lambda>c. c = CHR ''/'') (rev s))"

fun distinct_models :: "string list \<Rightarrow> string list \<Rightarrow> string list" where
  "distinct_models seen [] = []"
| "distinct_models seen (raw # rest) =
    (let m = trim raw
     in if m = [] then distinct_models seen rest
        else if ascii_lower m \<in> set seen then distinct_models seen rest
        else m # distinct_models (ascii_lower m # seen) rest)"

definition with_details ::
  "'u UrlApi \<Rightarrow> string \<Rightarrow> string \<Rightarrow> string \<Rightarrow> string \<Rightarrow> string list \<Rightarrow> bool \<Rightarrow> bool \<Rightarrow> string + 'u UpstreamTarget" where
  "with_details url id0 name0 base key ms one_m chat =
    (let i = trim id0 in
     if i = [] then Inl ''local router target id cannot be empty''
     else let name = trim name0 in
     case url_parse url (trim base) of
       None \<Rightarrow> Inl ''upstream base URL must be an absolute HTTP(S) URL''
     | Some u \<Rightarrow>
         if url_scheme url u \<notin> {''http'', ''https''} \<or> url_host url u = None \<or> url_username url u \<noteq> []
           \<or> url_password url u \<noteq> None \<or> url_query url u \<noteq> None \<or> url_fragment url u \<noteq> None
         then Inl ''upstream base URL must use HTTP(S) and cannot contain credentials, query, or fragment''
         else let path = (if url_path url u = ''/'' then [] else trim_slashes (url_path url u))
              in Inr \<lparr>target_id = i, target_name = (if name = [] then ''Unnamed'' else name),
                   target_url = url_set_path url path u, api_key = trim key, target_models = distinct_models [] ms,
                   enable_1m_context = one_m, enable_chat_completions_proxy = chat, upstream_protocol = None,
                   target_fallback = None, target_login = None\<rparr>)"

section \<open>The tables\<close>

record RouteState =
  cooldowns :: Cooldowns
  reasons :: "(string, FailureClass) fmap"
  streaks :: "(string, nat) fmap"
  slow :: "(string, nat \<times> nat) fmap"
  sticky :: "(string, string \<times> nat) fmap"
  sticky_ttl :: "(string, nat option) fmap"
  rebind :: "string list"
  no_rest_on_limit :: "string list"
  usage :: UsageCounters
  primary_failure :: "(string, FailureClass) fmap"
  downgrades :: "(string, Fallback \<times> FailureClass option \<times> nat) fmap"
  stripped :: "string list"

definition state_default :: RouteState where
  "state_default = \<lparr>cooldowns = fmempty, reasons = fmempty, streaks = fmempty, slow = fmempty, sticky = fmempty,
     sticky_ttl = fmempty, rebind = [], no_rest_on_limit = [],
     usage = \<lparr>requests = fmempty, cursor = fmempty, smooth = fmempty\<rparr>, primary_failure = fmempty, downgrades = fmempty, stripped = []\<rparr>"

definition TARGET_PREFIX :: string where
  "TARGET_PREFIX = ''conn:''"

definition SLOW_WINDOW_S :: nat where
  "SLOW_WINDOW_S = 30 * 60"

definition u64_add :: "nat \<Rightarrow> nat \<Rightarrow> nat" where
  "u64_add a b = (a + b) mod 2 ^ 64"

definition connection_of :: "string \<Rightarrow> string option" where
  "connection_of tid = strip_prefix TARGET_PREFIX tid"

text \<open>The sets of ids: insertion and removal.\<close>

definition set_insert :: "string \<Rightarrow> string list \<Rightarrow> string list" where
  "set_insert x xs = (if x \<in> set xs then xs else x # xs)"

definition set_remove :: "string \<Rightarrow> string list \<Rightarrow> string list" where
  "set_remove x xs = filter (\<lambda>y. y \<noteq> x) xs"

definition pinned :: "RouteState \<Rightarrow> string \<Rightarrow> nat \<Rightarrow> string option" where
  "pinned s task now = (case fmlookup (sticky s) task of
     None \<Rightarrow> None
   | Some (cid, until) \<Rightarrow> if now < until then Some cid else None)"

definition note_downgrade :: "string \<Rightarrow> Fallback option \<Rightarrow> nat \<Rightarrow> RouteState \<Rightarrow> RouteState" where
  "note_downgrade task fallback now s = (case fallback of
     Some f \<Rightarrow>
       let since = (case fmlookup (downgrades s) task of
             None \<Rightarrow> now
           | Some (g, _, first) \<Rightarrow> if served g = served f then first else now)
       in s\<lparr>downgrades := fmupd task (f, fmlookup (primary_failure s) task, since) (downgrades s)\<rparr>
   | None \<Rightarrow> s\<lparr>downgrades := fmdrop task (downgrades s), primary_failure := fmdrop task (primary_failure s)\<rparr>)"

definition clear_connection :: "string \<Rightarrow> RouteState \<Rightarrow> RouteState" where
  "clear_connection cid s = s\<lparr>streaks := fmdrop cid (streaks s), cooldowns := fmdrop cid (cooldowns s),
     reasons := fmdrop cid (reasons s), usage := (usage s)\<lparr>requests :=
       fmupd cid (u64_add (unwrap_or (fmlookup (requests (usage s)) cid) 0) 1) (requests (usage s))\<rparr>\<rparr>"

definition move_sticky :: "string \<Rightarrow> string \<Rightarrow> nat \<Rightarrow> RouteState \<Rightarrow> RouteState" where
  "move_sticky task cid now s0 =
    (let again = (task \<in> set (rebind s0));
         s = s0\<lparr>rebind := set_remove task (rebind s0)\<rparr>
     in case fmlookup (sticky_ttl s) task of
          Some (Some ttl) \<Rightarrow>
            let current = pinned s task now
            in if current = None \<or> again \<or> current = Some cid
               then s\<lparr>sticky := fmupd task (cid, u64_add now ttl) (sticky s)\<rparr> else s
        | _ \<Rightarrow> s)"

definition route_success :: "string \<Rightarrow> string \<Rightarrow> Fallback option \<Rightarrow> nat \<Rightarrow> RouteState \<Rightarrow> RouteState" where
  "route_success task tid fallback now s = (case connection_of tid of
     None \<Rightarrow> s
   | Some cid \<Rightarrow>
       let s' = clear_connection cid (note_downgrade task fallback now s)
       in if fallback \<noteq> None then s' else move_sticky task cid now s')"

definition slow_start :: "string \<Rightarrow> nat \<Rightarrow> RouteState \<Rightarrow> nat \<times> RouteState" where
  "slow_start key now s =
    (let (n, prev) = unwrap_or (fmlookup (slow s) key) (0, 0);
         n' = (if now - prev \<le> SLOW_WINDOW_S then (n + 1) mod 2 ^ 32 else 1)
     in (cooldown_seconds FirstByteTimeout None ((n' + (2 ^ 32 - 1)) mod 2 ^ 32), s\<lparr>slow := fmupd key (n', now) (slow s)\<rparr>))"

definition streak_cooldown :: "FailureClass \<Rightarrow> nat option \<Rightarrow> string \<Rightarrow> RouteState \<Rightarrow> nat \<times> RouteState" where
  "streak_cooldown k retry_after key s =
    (let n = unwrap_or (fmlookup (streaks s) key) 0
     in (cooldown_seconds k retry_after n, s\<lparr>streaks := fmupd key (min (n + 1) (2 ^ 32 - 1)) (streaks s)\<rparr>))"

definition failure_key :: "FailureClass \<Rightarrow> string \<Rightarrow> string \<Rightarrow> string" where
  "failure_key k cid m = (if cools_model k then model_key cid m else cid)"

definition failure_cooldown :: "FailureClass \<Rightarrow> nat option \<Rightarrow> string \<Rightarrow> string \<Rightarrow> nat \<Rightarrow> RouteState \<Rightarrow> nat \<times> RouteState" where
  "failure_cooldown k retry_after cid key now s =
    (if k = FirstByteTimeout then slow_start key now s
     else if k = RateLimited \<and> cid \<in> set (no_rest_on_limit s) then (0, s)
     else streak_cooldown k retry_after key s)"

definition note_class :: "string \<Rightarrow> FailureClass \<Rightarrow> bool \<Rightarrow> RouteState \<Rightarrow> RouteState" where
  "note_class task k fallback s0 =
    (let s = (if \<not> fallback then s0\<lparr>primary_failure := fmupd task k (primary_failure s0)\<rparr> else s0)
     in if allows_rebind k then s\<lparr>rebind := set_insert task (rebind s)\<rparr> else s)"

definition route_failure ::
  "string \<Rightarrow> string \<Rightarrow> string \<Rightarrow> FailureClass \<Rightarrow> nat option \<Rightarrow> bool \<Rightarrow> nat \<Rightarrow> RouteState \<Rightarrow> bool \<times> RouteState" where
  "route_failure task tid m k retry_after fallback now s0 =
    (if \<not> should_failover k then (False, s0)
     else case connection_of tid of
       None \<Rightarrow> (True, s0)
     | Some cid \<Rightarrow>
         let key = failure_key k cid m;
             (cooldown, s) = failure_cooldown k retry_after cid key now (note_class task k fallback s0)
         in (True, if 0 < cooldown
                   then s\<lparr>cooldowns := fmupd key (u64_add now cooldown) (cooldowns s), reasons := fmupd key k (reasons s)\<rparr>
                   else s))"

definition belongs_to :: "string \<Rightarrow> string \<Rightarrow> bool" where
  "belongs_to cid key \<longleftrightarrow> key = cid \<or> strip_prefix (model_key cid []) key \<noteq> None"

definition clear_cooldowns :: "string \<Rightarrow> RouteState \<Rightarrow> nat \<times> RouteState" where
  "clear_cooldowns cid s =
    (let gone = (\<lambda>key. belongs_to cid key \<and> fmlookup (cooldowns s) key \<noteq> None)
     in (card (fset (ffilter (belongs_to cid) (fmdom (cooldowns s)))),
         s\<lparr>cooldowns := fmfilter (\<lambda>k. \<not> gone k) (cooldowns s), reasons := fmfilter (\<lambda>k. \<not> gone k) (reasons s),
           streaks := fmfilter (\<lambda>k. \<not> gone k) (streaks s), slow := fmfilter (\<lambda>k. \<not> gone k) (slow s)\<rparr>))"

definition stripped_remember :: "string \<Rightarrow> RouteState \<Rightarrow> RouteState" where
  "stripped_remember tid s = s\<lparr>stripped := set_insert tid (stripped s)\<rparr>"

definition is_stripped :: "RouteState \<Rightarrow> string \<Rightarrow> bool" where
  "is_stripped s tid \<longleftrightarrow> tid \<in> set (stripped s)"

definition stripped_forget :: "string \<Rightarrow> RouteState \<Rightarrow> RouteState" where
  "stripped_forget tid s = s\<lparr>stripped := set_remove tid (stripped s)\<rparr>"

definition stripped_report :: "RouteState \<Rightarrow> string list" where
  "stripped_report s = sort (stripped s)"

definition reasoning_stripped_report :: "RouteState \<Rightarrow> string list" where
  "reasoning_stripped_report s = List.map_filter connection_of (stripped_report s)"

definition connection_changed :: "string \<Rightarrow> RouteState \<Rightarrow> RouteState" where
  "connection_changed cid s =
    (let gone = (\<lambda>key. belongs_to cid key
           \<and> (case fmlookup (reasons s) key of None \<Rightarrow> False | Some k \<Rightarrow> cleared_by_edit k))
     in stripped_forget (TARGET_PREFIX @ cid)
          (s\<lparr>cooldowns := fmfilter (\<lambda>k. \<not> gone k) (cooldowns s), reasons := fmfilter (\<lambda>k. \<not> gone k) (reasons s),
             streaks := fmfilter (\<lambda>k. \<not> gone k) (streaks s)\<rparr>))"

definition forget_task :: "string \<Rightarrow> RouteState \<Rightarrow> RouteState" where
  "forget_task task s = s\<lparr>sticky := fmdrop task (sticky s), sticky_ttl := fmdrop task (sticky_ttl s),
     rebind := set_remove task (rebind s), primary_failure := fmdrop task (primary_failure s),
     downgrades := fmdrop task (downgrades s)\<rparr>"

text \<open>\<open>Retry-After\<close>: seconds, or an HTTP date whose parser is the argument \<open>date\<close> (an epoch second).\<close>

definition parse_retry_after :: "(string \<Rightarrow> int option) \<Rightarrow> string \<Rightarrow> nat \<Rightarrow> nat option" where
  "parse_retry_after date value now = (case parse_uint 64 (trim value) of
     Some n \<Rightarrow> Some n
   | None \<Rightarrow> (case date (trim value) of
       None \<Rightarrow> None
     | Some stamp \<Rightarrow> if stamp < 0 then None else Some (nat stamp - now)))"

section \<open>Resolution\<close>

record TaskGrant =
  grant_task :: string
  grant_config :: "string option"

datatype 'u Resolution = Targets "'u UpstreamTarget list" | Unresolved string

fun reach_supported :: "Reach \<Rightarrow> bool" where
  "reach_supported Direct = True"
| "reach_supported (ViaGateway from to) \<longleftrightarrow>
    (from = Responses \<or> from = Messages) \<and> to = ChatCompletions \<or> from = Messages \<and> to = Responses
    \<or> from = Responses \<and> to = Messages"

definition strategy_and_ttl :: "ConnectionsDocument \<Rightarrow> ConfigTarget \<Rightarrow> PoolStrategy \<times> nat option \<times> string" where
  "strategy_and_ttl doc tg =
    (let of_pool = (\<lambda>pid. case Option.bind pid (\<lambda>i. find (\<lambda>p. pool_id p = i) (pools doc)) of
           Some p \<Rightarrow> (strategy p, if sticky_sessions p then Some (sticky_ttl_seconds p) else None, ''p:'' @ pool_id p)
         | None \<Rightarrow> (Priority, Some 3600, ''route''))
     in case tg of
          ToConnection cid \<Rightarrow> (Priority, None, ''c:'' @ cid)
        | ToPool pid \<Rightarrow> of_pool (Some pid)
        | ToRoute pid \<Rightarrow> of_pool pid)"

fun model_chain :: "string list \<Rightarrow> string list \<Rightarrow> string list" where
  "model_chain chain [] = chain"
| "model_chain chain (raw # rest) =
    (let name = trim raw
     in model_chain (if name \<noteq> [] \<and> name \<notin> set chain then chain @ [name] else chain) rest)"

definition declared_tiers :: "ConnectionsDocument \<Rightarrow> string \<Rightarrow> ReasoningTier list" where
  "declared_tiers doc model = fold (\<lambda>tier tiers. if tier \<in> set tiers then tiers else tiers @ [tier])
     (concat (map reasoning_tiers (filter (\<lambda>m. routing_name m = model)
       (concat (map routable_models (filter conn_enabled (connections doc))))))) []"

definition model_tiers :: "Connection \<Rightarrow> string \<Rightarrow> ReasoningTier list" where
  "model_tiers c m = (case find (\<lambda>e. trim (upstream_id e) = m) (models c) of None \<Rightarrow> [] | Some e \<Rightarrow> reasoning_tiers e)"

text \<open>The ordering of the channels of every model of the chain, under the lock.\<close>

fun order_lists ::
  "PoolStrategy \<Rightarrow> string \<Rightarrow> string option \<Rightarrow> Cooldowns \<Rightarrow> nat \<Rightarrow> (nat \<times> string \<times> Candidate list) list \<Rightarrow> UsageCounters
    \<Rightarrow> (Candidate \<times> nat) list \<times> (Candidate \<times> nat) list \<times> UsageCounters" where
  "order_lists strat key pin cds now [] u = ([], [], u)"
| "order_lists strat key pin cds now ((index, name, xs) # rest) u =
    (if xs = [] then order_lists strat key pin cds now rest u
     else let key' = (if index = 0 then key else key @ ''#'' @ name);
              (out, u') = order xs strat key' (if index = 0 then pin else None) cds u now;
              (ready, waiting, u'') = order_lists strat key pin cds now rest u'
          in (map (\<lambda>c. (c, index)) (filter (\<lambda>c. \<not> is_cooling cds now c) out) @ ready,
              map (\<lambda>c. (c, index)) (filter (is_cooling cds now) out) @ waiting, u''))"

definition order_chain ::
  "PoolStrategy \<Rightarrow> string \<Rightarrow> string option \<Rightarrow> Cooldowns \<Rightarrow> nat \<Rightarrow> (nat \<times> string \<times> Candidate list) list \<Rightarrow> UsageCounters
    \<Rightarrow> (Candidate \<times> nat) list \<times> UsageCounters" where
  "order_chain strat key pin cds now groups u = (case order_lists strat key pin cds now groups u of
     (ready, waiting, u') \<Rightarrow> (ready @ sort_key (\<lambda>(c, _). cooling_until cds c) waiting, u'))"

definition register_task :: "ConnectionsDocument \<Rightarrow> string \<Rightarrow> nat option \<Rightarrow> RouteState \<Rightarrow> RouteState" where
  "register_task doc task ttl s = s\<lparr>sticky_ttl := fmupd task ttl (sticky_ttl s),
     no_rest_on_limit := fold (\<lambda>c ids. if rest_on_limit c then set_remove (conn_id c) ids else set_insert (conn_id c) ids)
       (connections doc) (no_rest_on_limit s)\<rparr>"

definition order_for_task ::
  "ConnectionsDocument \<Rightarrow> string \<Rightarrow> ConfigTarget \<Rightarrow> (nat \<times> string \<times> Candidate list) list \<Rightarrow> nat \<Rightarrow> RouteState
    \<Rightarrow> (Candidate \<times> nat) list \<times> RouteState" where
  "order_for_task doc task tg groups now s0 = (case strategy_and_ttl doc tg of (strat, ttl, key) \<Rightarrow>
     let s = register_task doc task ttl s0;
         pin = (case ttl of None \<Rightarrow> None | Some _ \<Rightarrow> pinned s task now);
         (out, u) = order_chain strat key pin (cooldowns s) now groups (usage s)
     in (out, s\<lparr>usage := u\<rparr>))"

text \<open>One target for a candidate, or the reason there is none; a vanished connection is passed over in silence.\<close>

definition make_target ::
  "'u UrlApi \<Rightarrow> (string \<Rightarrow> string + string option) \<Rightarrow> ConnectionsDocument \<Rightarrow> AgentConfig \<Rightarrow> string list \<Rightarrow> Candidate \<times> nat
    \<Rightarrow> string list + 'u UpstreamTarget" where
  "make_target url keychain doc cfg chain ci = (case ci of (cand, index) \<Rightarrow>
     case lookup_connection doc (cand_connection cand) of
       None \<Rightarrow> Inl []
     | Some c \<Rightarrow>
         (case (case login_harness c of Some _ \<Rightarrow> Inr [] | None \<Rightarrow>
            (case keychain (conn_id c) of
               Inr (Some key) \<Rightarrow> Inr key
             | Inr None \<Rightarrow> Inr []
             | Inl e \<Rightarrow> Inl (conn_id c @ '': keychain '' @ e))) of
            Inl reason \<Rightarrow> Inl [reason]
          | Inr key \<Rightarrow>
              (case with_details url (TARGET_PREFIX @ conn_id c) (conn_label c) (base_url c) key [upstream_model cand] False
                  (cand_reach cand \<noteq> Direct) of
                 Inl e \<Rightarrow> Inl [conn_id c @ '': '' @ e]
               | Inr t \<Rightarrow>
                   Inr (t\<lparr>upstream_protocol := Some (case cand_reach cand of
                            Direct \<Rightarrow> config_protocol doc cfg | ViaGateway _ to \<Rightarrow> to),
                          target_login := login_harness c,
                          target_fallback := (if index = 0 then None
                            else Some \<lparr>requested = chain ! 0, served = chain ! index,
                              effort = effort_new (declared_tiers doc (chain ! 0)) (model_tiers c (upstream_model cand))\<rparr>)\<rparr>))))"

fun split_results :: "(string list + 'a) list \<Rightarrow> string list \<times> 'a list" where
  "split_results [] = ([], [])"
| "split_results (r # rs) = (case split_results rs of (bad, good) \<Rightarrow>
     (case r of Inl e \<Rightarrow> (e @ bad, good) | Inr t \<Rightarrow> (bad, t # good)))"

fun join_reasons :: "string list \<Rightarrow> string" where
  "join_reasons [] = []"
| "join_reasons [r] = r"
| "join_reasons (r # rs) = r @ ''; '' @ join_reasons rs"

definition reason_label :: "nat \<Rightarrow> string \<Rightarrow> string \<Rightarrow> string" where
  "reason_label index name i = (if index = 0 then i else i @ '' (fallback `'' @ name @ ''`)'')"

definition list_for_model ::
  "(Unavailable \<Rightarrow> string) \<Rightarrow> ConnectionsDocument \<Rightarrow> AgentConfig \<Rightarrow> nat \<times> string \<Rightarrow> string list \<times> (nat \<times> string \<times> Candidate list)" where
  "list_for_model debug doc cfg entry = (case entry of (index, name) \<Rightarrow>
     case candidates doc cfg name of (found, excluded) \<Rightarrow>
       (map (\<lambda>(i, why). reason_label index name i @ '': '' @ debug why) excluded
        @ map (\<lambda>c. reason_label index name (cand_connection c) @ '': protocol translation not available yet'')
            (filter (\<lambda>c. \<not> reach_supported (cand_reach c)) found),
        index, name, filter (\<lambda>c. reach_supported (cand_reach c)) found))"

record 'u ResolvePorts =
  url_api :: "'u UrlApi"
  keychain :: "string \<Rightarrow> string + string option"
  debug_text :: "Unavailable \<Rightarrow> string"
  id_digest :: "string \<Rightarrow> string"
  all_label :: string
  login_label :: string
  login_name :: "Harness \<Rightarrow> string"

definition resolve :: "'u ResolvePorts \<Rightarrow> ConnectionsDocument \<Rightarrow> TaskGrant \<Rightarrow> string \<Rightarrow> nat \<Rightarrow> RouteState \<Rightarrow> 'u Resolution \<times> RouteState" where
  "resolve ports doc grant model0 now s = (case grant_config grant of
     None \<Rightarrow> (Unresolved ''task token carries no agent configuration'', s)
   | Some aid \<Rightarrow> (case document_config (id_digest ports) (all_label ports) (login_label ports) doc aid of
       None \<Rightarrow> (Unresolved (''agent configuration `'' @ aid @ ''` no longer exists''), s)
     | Some cfg \<Rightarrow>
         let model = (if trim model0 = [] then default_model cfg else trim model0) in
         if model = [] then (Unresolved ''request names no model and the configuration has no default'', s)
         else
           let chain = model_chain [model] (fallback_models cfg);
               found = map (list_for_model (debug_text ports) doc cfg) (enumerate 0 chain);
               why = concat (map fst found);
               groups = map snd found
           in if list_all (\<lambda>(_, _, xs). xs = []) groups
              then (Unresolved (''no channel can serve `'' @ model @ ''`: ''
                     @ (if why = [] then ''none configured'' else join_reasons why)), s)
              else (case order_for_task doc (grant_task grant) (target cfg) groups now s of (ordered, s') \<Rightarrow>
                (case split_results (map (make_target (url_api ports) (keychain ports) doc cfg chain) ordered) of (bad, good) \<Rightarrow>
                   (if good = [] then Unresolved (''no channel is usable: '' @ join_reasons (why @ bad)) else Targets good, s')))))"

section \<open>Channels of the requested model first, cooling ones last\<close>

definition tagged :: "(nat \<times> string \<times> Candidate list) list \<Rightarrow> (Candidate \<times> nat) list" where
  "tagged groups = concat (map (\<lambda>(index, _, xs). map (\<lambda>c. (c, index)) xs) groups)"

lemma order_lists_spec:
  assumes "order_lists strat key pin cds now groups u = (ready, waiting, u')"
  shows "mset (ready @ waiting) = mset (tagged groups)" (is ?perm)
    and "list_all (\<lambda>(c, _). \<not> is_cooling cds now c) ready" "list_all (\<lambda>(c, _). is_cooling cds now c) waiting"
    and "sorted (map fst groups) \<Longrightarrow> sorted (map snd ready)"
proof -
  have "mset (ready @ waiting) = mset (tagged groups) \<and> list_all (\<lambda>(c, _). \<not> is_cooling cds now c) ready
      \<and> list_all (\<lambda>(c, _). is_cooling cds now c) waiting \<and> set (map snd ready) \<subseteq> set (map fst groups)
      \<and> (sorted (map fst groups) \<longrightarrow> sorted (map snd ready))"
    using assms
  proof (induction strat key pin cds now groups u arbitrary: ready waiting u' rule: order_lists.induct)
    case (2 strat key pin cds now index name xs rest u)
    show ?case
    proof (cases "xs = []")
      case True
      with 2 show ?thesis by (auto simp: tagged_def)
    next
      case False
      obtain out v where out: "order xs strat (if index = 0 then key else key @ ''#'' @ name) (if index = 0 then pin else None) cds u now = (out, v)"
        by fastforce
      obtain r w v' where rest: "order_lists strat key pin cds now rest v = (r, w, v')" by (metis prod.exhaust)
      note IH = "2.IH"(2) [OF False refl out [symmetric] refl rest]
      have ready: "ready = map (\<lambda>c. (c, index)) (filter (\<lambda>c. \<not> is_cooling cds now c) out) @ r"
        and waiting: "waiting = map (\<lambda>c. (c, index)) (filter (is_cooling cds now) out) @ w"
        using "2.prems" False out rest by (simp_all add: Let_def)
      have part: "mset (filter (\<lambda>c. \<not> is_cooling cds now c) ys) + mset (filter (is_cooling cds now) ys) = mset ys" for ys
        by (induction ys) auto
      have "mset out = mset xs"
        using mset_order [of xs strat "if index = 0 then key else key @ ''#'' @ name" "if index = 0 then pin else None" cds u now] out
        by simp
      then have "image_mset (\<lambda>c. (c, index)) (mset (filter (\<lambda>c. \<not> is_cooling cds now c) out))
          + image_mset (\<lambda>c. (c, index)) (mset (filter (is_cooling cds now) out)) = image_mset (\<lambda>c. (c, index)) (mset xs)"
        by (simp add: part del: mset_filter flip: image_mset_union)
      with IH have "mset (ready @ waiting) = mset (tagged ((index, name, xs) # rest))"
        by (simp add: ready waiting tagged_def ac_simps del: mset_filter)
      moreover have "sorted (map snd ready)" if "sorted (map fst ((index, name, xs) # rest))"
      proof -
        have "map snd (map (\<lambda>c. (c, index)) ys) = replicate (length ys) index" for ys :: "Candidate list"
          by (induction ys) auto
        moreover have "\<forall>i \<in> set (map snd r). index \<le> i" using IH that by fastforce
        ultimately show ?thesis using IH that by (simp add: ready sorted_append del: map_map)
      qed
      ultimately show ?thesis using IH by (auto simp: ready waiting list_all_iff)
    qed
  qed (simp add: tagged_def)
  then show ?perm "list_all (\<lambda>(c, _). \<not> is_cooling cds now c) ready" "list_all (\<lambda>(c, _). is_cooling cds now c) waiting"
    "sorted (map fst groups) \<Longrightarrow> sorted (map snd ready)"
    by auto
qed

text \<open>
  C29. The order in which a pinned task's channels are tried: every channel of the requested model and of its
  fallbacks exactly once; all channels that may be used now, those of the requested model before those of the
  first fallback and so on, before all cooling ones; the cooling ones soonest-ending first whatever their model. Asking for the
  order changes no cooldown, streak, pin or downgrade.
\<close>

theorem order_for_task_contract:
  assumes "order_for_task doc task tg groups now s = (out, s')" "sorted (map fst groups)"
  shows "mset out = mset (tagged groups)
    \<and> (\<exists>ready waiting. out = ready @ waiting
        \<and> list_all (\<lambda>(c, _). cooling_until (cooldowns s) c \<le> now) ready \<and> sorted (map snd ready)
        \<and> list_all (\<lambda>(c, _). now < cooling_until (cooldowns s) c) waiting
        \<and> sorted (map (\<lambda>(c, _). cooling_until (cooldowns s) c) waiting))
    \<and> cooldowns s' = cooldowns s \<and> streaks s' = streaks s \<and> sticky s' = sticky s \<and> rebind s' = rebind s
    \<and> downgrades s' = downgrades s"
proof -
  obtain strat ttl key where st: "strategy_and_ttl doc tg = (strat, ttl, key)" by (metis prod.exhaust)
  let ?s = "register_task doc task ttl s"
  let ?pin = "case ttl of None \<Rightarrow> None | Some _ \<Rightarrow> pinned ?s task now"
  have same: "cooldowns ?s = cooldowns s" "streaks ?s = streaks s" "sticky ?s = sticky s" "rebind ?s = rebind s"
    "downgrades ?s = downgrades s"
    by (simp_all add: register_task_def)
  obtain ready waiting u where lists: "order_lists strat key ?pin (cooldowns s) now groups (usage ?s) = (ready, waiting, u)"
    by (metis prod.exhaust)
  have out: "out = ready @ sort_key (\<lambda>(c, _). cooling_until (cooldowns s) c) waiting" and s': "s' = ?s\<lparr>usage := u\<rparr>"
    using assms(1) st lists by (auto simp: order_for_task_def order_chain_def Let_def same split: prod.splits)
  have "\<exists>ready waiting. out = ready @ waiting
      \<and> list_all (\<lambda>(c, _). cooling_until (cooldowns s) c \<le> now) ready \<and> sorted (map snd ready)
      \<and> list_all (\<lambda>(c, _). now < cooling_until (cooldowns s) c) waiting
      \<and> sorted (map (\<lambda>(c, _). cooling_until (cooldowns s) c) waiting)"
    using order_lists_spec(2-4) [OF lists] assms(2)
    by (intro exI [of _ ready] exI [of _ "sort_key (\<lambda>(c, _). cooling_until (cooldowns s) c) waiting"])
      (auto simp: out list_all_iff is_cooling_def not_less)
  with order_lists_spec(1) [OF lists] s' show ?thesis by (simp add: out same)
qed

theorem order_for_task_contract_witness:
  "mset (fst (order_for_task sample_document ''t'' (ToPool ''p'')
      [(0, ''gpt'', [sample_candidate ''a'' 3, sample_candidate ''b'' 1]), (1, ''old'', [sample_candidate ''a'' 3])] 5 state_default))
    = {#(sample_candidate ''a'' 3, 0), (sample_candidate ''b'' 1, 0), (sample_candidate ''a'' 3, 1)#}"
  using order_for_task_contract [OF surjective_pairing, of
      "[(0, ''gpt'', [sample_candidate ''a'' 3, sample_candidate ''b'' 1]), (1, ''old'', [sample_candidate ''a'' 3])]"
      sample_document "''t''" "ToPool ''p''" 5 state_default]
  by (simp add: tagged_def add_mset_commute)

section \<open>Cooldowns\<close>

lemma cooldown_bound: "k \<noteq> RateLimited \<or> retry_after = None \<Longrightarrow> cooldown_seconds k retry_after n \<le> 43200"
  by (cases k) (auto split: nat.splits)

lemma streak_cooldown_fields [simp]:
  "cooldowns (snd (streak_cooldown k ra key s)) = cooldowns s" "sticky (snd (streak_cooldown k ra key s)) = sticky s"
  "rebind (snd (streak_cooldown k ra key s)) = rebind s" "sticky_ttl (snd (streak_cooldown k ra key s)) = sticky_ttl s"
  by (simp_all add: streak_cooldown_def Let_def)

lemma slow_start_fields [simp]:
  "cooldowns (snd (slow_start key now s)) = cooldowns s" "sticky (snd (slow_start key now s)) = sticky s"
  "rebind (snd (slow_start key now s)) = rebind s" "sticky_ttl (snd (slow_start key now s)) = sticky_ttl s"
  by (simp_all add: slow_start_def Let_def split: prod.splits)

lemma failure_cooldown_fields [simp]:
  "cooldowns (snd (failure_cooldown k ra cid key now s)) = cooldowns s" "sticky (snd (failure_cooldown k ra cid key now s)) = sticky s"
  "rebind (snd (failure_cooldown k ra cid key now s)) = rebind s" "sticky_ttl (snd (failure_cooldown k ra cid key now s)) = sticky_ttl s"
  by (simp_all add: failure_cooldown_def)

lemma note_class_fields [simp]:
  "cooldowns (note_class task k fb s) = cooldowns s" "sticky (note_class task k fb s) = sticky s"
  "sticky_ttl (note_class task k fb s) = sticky_ttl s"
  by (simp_all add: note_class_def Let_def)

lemma failure_cooldown_bound:
  assumes "k \<noteq> RateLimited \<or> ra = None"
  shows "fst (failure_cooldown k ra cid key now s) \<le> 43200"
  using cooldown_bound [OF assms] cooldown_bound [of FirstByteTimeout None]
  by (auto simp: failure_cooldown_def slow_start_def streak_cooldown_def Let_def split: prod.splits)

text \<open>
  How long a failure rests a channel: at most its own key changes in the cooldown table, the model's for a missing
  model or a slow start and the connection's otherwise; the rest starts now and lasts at most twelve hours, except that a
  provider may name its own; a wrong request rests nothing and does not fail over.
\<close>

theorem failure_rest_bounded:
  assumes "k \<noteq> RateLimited \<or> retry_after = None" "now + 43200 < 2 ^ 64" "connection_of tid = Some cid"
    and "route_failure task tid m k retry_after fallback now s = (again, s')"
  shows "again = (k \<noteq> RequestError) \<and> (\<forall>key. fmlookup (cooldowns s') key = fmlookup (cooldowns s) key
    \<or> key = failure_key k cid m \<and> k \<noteq> RequestError
      \<and> (\<exists>d. fmlookup (cooldowns s') key = Some (now + d) \<and> 0 < d \<and> d \<le> 43200))"
proof (cases "k = RequestError")
  case True
  with assms(4) show ?thesis by (auto simp: route_failure_def should_failover_def)
next
  case False
  let ?s = "note_class task k fallback s"
  let ?key = "failure_key k cid m"
  obtain d s'' where d: "failure_cooldown k retry_after cid ?key now ?s = (d, s'')" by fastforce
  have bound: "d \<le> 43200" using failure_cooldown_bound [OF assms(1), of cid ?key now ?s] d by simp
  have same: "cooldowns s'' = cooldowns s" using failure_cooldown_fields(1) [of k retry_after cid ?key now ?s] d by simp
  have s': "again" "s' = (if 0 < d then s''\<lparr>cooldowns := fmupd ?key (u64_add now d) (cooldowns s''),
      reasons := fmupd ?key k (reasons s'')\<rparr> else s'')"
    using assms(3,4) d False by (simp_all add: route_failure_def should_failover_def Let_def split: if_splits)
  have "u64_add now d = now + d" using assms(2) bound by (simp add: u64_add_def)
  with s' same bound False show ?thesis by auto
qed

lemma trim_decimal: "trim (decimal n) = decimal n"
  by (rule trim_visible) (auto simp: list_all_iff visible_def dest: decimal_digits)

text \<open>
  A provider that asks for a very long rest gets none: when the epoch second and the number in \<open>Retry-After\<close> sum to
  \<open>2^64\<close> or more, the sum wraps in a release build, the rest ends before it began, and the rate-limited channel is tried again
  at once.
\<close>

theorem retry_after_wraps:
  assumes "now < 2 ^ 64" "d < 2 ^ 64" "2 ^ 64 \<le> now + d" "10 \<le> d"
    and "connection_of tid = Some cid" "cid \<notin> set (no_rest_on_limit s)"
  shows "(let s' = snd (route_failure task tid m RateLimited (parse_retry_after date (decimal d) now) fallback now s)
    in fmlookup (cooldowns s') cid = Some (now + d - 2 ^ 64) \<and> now + d - 2 ^ 64 < now)"
proof -
  have "parse_retry_after date (decimal d) now = Some d"
    using assms(2) by (simp add: parse_retry_after_def trim_decimal)
  have "u64_add now d = now + d - 2 ^ 64"
    using assms(1-3) by (simp add: u64_add_def mod_if)
  moreover have "no_rest_on_limit (note_class task RateLimited fallback s) = no_rest_on_limit s"
    by (simp add: note_class_def Let_def)
  ultimately show ?thesis
    using assms \<open>parse_retry_after date (decimal d) now = Some d\<close>
    by (simp add: route_failure_def should_failover_def failure_key_def cools_model_def failure_cooldown_def streak_cooldown_def
        Let_def max_def)
qed

section \<open>Session affinity\<close>

record FailedAttempt =
  fa_target :: string
  fa_model :: string
  fa_class :: FailureClass
  fa_retry :: "nat option"
  fa_fallback :: bool
  fa_time :: nat

definition note_attempt :: "string \<Rightarrow> FailedAttempt \<Rightarrow> RouteState \<Rightarrow> RouteState" where
  "note_attempt task f s =
    snd (route_failure task (fa_target f) (fa_model f) (fa_class f) (fa_retry f) (fa_fallback f) (fa_time f) s)"

definition allows_move :: "FailedAttempt \<Rightarrow> bool" where
  "allows_move f \<longleftrightarrow> connection_of (fa_target f) \<noteq> None \<and> allows_rebind (fa_class f)"

lemma note_attempt_pin:
  "sticky (note_attempt task f s) = sticky s" "sticky_ttl (note_attempt task f s) = sticky_ttl s"
  "task \<in> set (rebind (note_attempt task f s)) \<longleftrightarrow> task \<in> set (rebind s) \<or> allows_move f"
proof -
  show "sticky (note_attempt task f s) = sticky s" "sticky_ttl (note_attempt task f s) = sticky_ttl s"
    by (simp_all add: note_attempt_def route_failure_def case_prod_unfold Let_def split: option.splits)
  have "task \<in> set (rebind (note_class task k fb s)) \<longleftrightarrow> task \<in> set (rebind s) \<or> allows_rebind k" for k fb
    by (simp add: note_class_def Let_def set_insert_def)
  moreover have "\<not> should_failover k \<Longrightarrow> \<not> allows_rebind k" for k
    by (cases k) (simp_all add: should_failover_def allows_rebind_def)
  ultimately show "task \<in> set (rebind (note_attempt task f s)) \<longleftrightarrow> task \<in> set (rebind s) \<or> allows_move f"
    by (auto simp: note_attempt_def route_failure_def allows_move_def case_prod_unfold Let_def split: option.splits)
qed

lemma note_attempts_pin:
  "sticky (fold (note_attempt task) fs s) = sticky s" "sticky_ttl (fold (note_attempt task) fs s) = sticky_ttl s"
  "task \<in> set (rebind (fold (note_attempt task) fs s)) \<longleftrightarrow> task \<in> set (rebind s) \<or> list_ex allows_move fs"
  by (induction fs arbitrary: s) (auto simp: note_attempt_pin)

lemma success_before_pin:
  "sticky (clear_connection cid (note_downgrade task fb now s)) = sticky s"
  "sticky_ttl (clear_connection cid (note_downgrade task fb now s)) = sticky_ttl s"
  "rebind (clear_connection cid (note_downgrade task fb now s)) = rebind s"
  by (simp_all add: clear_connection_def note_downgrade_def Let_def split: option.splits)

text \<open>
  C30. When a session moves to another member. A task pinned to a member that is not due to move makes a request that fails on some
  channels and is then answered by another one: the pin moves to the answering member exactly when one of the failures was a
  rate limit, a refused key, missing credit or a missing model; after transient failures only, or when a fallback model
  answered, it stays where it was with its old expiry.
\<close>

theorem pin_moves_exactly:
  assumes "fmlookup (sticky s) task = Some (old, until)" "task \<notin> set (rebind s)" "now < until"
    and "fmlookup (sticky_ttl s) task = Some (Some ttl)" "connection_of tid = Some new" "new \<noteq> old"
  shows "fmlookup (sticky (route_success task tid fallback now (fold (note_attempt task) fs s))) task =
    (if fallback = None \<and> list_ex allows_move fs then Some (new, u64_add now ttl) else Some (old, until))"
proof -
  let ?s = "clear_connection new (note_downgrade task fallback now (fold (note_attempt task) fs s))"
  have s: "fmlookup (sticky ?s) task = Some (old, until)" "fmlookup (sticky_ttl ?s) task = Some (Some ttl)"
    "task \<in> set (rebind ?s) \<longleftrightarrow> list_ex allows_move fs"
    using assms by (simp_all add: success_before_pin note_attempts_pin)
  show ?thesis
  proof (cases fallback)
    case None
    then have "route_success task tid fallback now (fold (note_attempt task) fs s) = move_sticky task new now ?s"
      using assms(5) by (simp add: route_success_def Let_def)
    then show ?thesis using s assms(3,6) None by (simp add: move_sticky_def Let_def pinned_def)
  next
    case (Some f)
    then show ?thesis using s assms(5) by (simp add: route_success_def Let_def)
  qed
qed

theorem pin_moves_exactly_witness:
  "fmlookup (sticky (route_success ''t'' ''conn:b'' None 100 (note_attempt ''t''
      \<lparr>fa_target = ''conn:a'', fa_model = ''m'', fa_class = ServerError, fa_retry = None, fa_fallback = False, fa_time = 99\<rparr>
      (state_default\<lparr>sticky := fmupd ''t'' (''a'', 200) fmempty, sticky_ttl := fmupd ''t'' (Some 60) fmempty\<rparr>)))) ''t'' = Some (''a'', 200)"
proof -
  have "connection_of ''conn:b'' = Some ''b''" by code_simp
  with pin_moves_exactly [of "state_default\<lparr>sticky := fmupd ''t'' (''a'', 200) fmempty, sticky_ttl := fmupd ''t'' (Some 60) fmempty\<rparr>"
      "''t''" "''a''" 200 100 60 "''conn:b''" "''b''" None
      "[\<lparr>fa_target = ''conn:a'', fa_model = ''m'', fa_class = ServerError, fa_retry = None, fa_fallback = False, fa_time = 99\<rparr>]"]
  show ?thesis by (simp add: state_default_def allows_move_def allows_rebind_def)
qed

end
