(* ===== verification/Failover.thy ===== *)
theory Failover
  imports CircuitBreaker ConfigRoutes "HOL-Library.Sublist"
begin

text \<open>
  How the local router picks a target for a request and fails over (\<open>proxy_request\<close> in \<open>local_router/server.rs\<close>, from the
  choice of candidates to the reply), with the policy of \<open>local_router/mod.rs\<close>. Sending one request to one target is the port
  \<open>attempt_target\<close>; it yields nothing when the client went away meanwhile, which drops the handler at that point. At every
  \<open>await\<close> other requests may run: \<open>others\<close> is what they did to the shared breakers and routing tables. Usage records and metrics
  are left out.
\<close>

section \<open>Policy and candidates\<close>

record RouterAgentPolicy =
  auto_failover_enabled :: bool
  max_retries :: u8
  streaming_first_byte_timeout :: nat
  streaming_idle_timeout :: nat
  non_streaming_timeout :: nat
  circuit_failure_threshold :: u32
  circuit_success_threshold :: u32
  circuit_timeout_seconds :: nat
  circuit_error_rate_percent :: u8
  circuit_min_requests :: u32
  active_target :: string
  failover_queue :: "string list"
  model_mapping_enabled :: bool
  rectifier_enabled :: bool
  thinking_optimizer_enabled :: bool
  cache_injection_enabled :: bool

definition policy_default :: RouterAgentPolicy where
  "policy_default = \<lparr>auto_failover_enabled = False, max_retries = 3, streaming_first_byte_timeout = 60,
     streaming_idle_timeout = 120, non_streaming_timeout = 600, circuit_failure_threshold = 4, circuit_success_threshold = 2,
     circuit_timeout_seconds = 60, circuit_error_rate_percent = 60, circuit_min_requests = 10, active_target = [],
     failover_queue = [], model_mapping_enabled = True, rectifier_enabled = True, thinking_optimizer_enabled = False,
     cache_injection_enabled = False\<rparr>"

definition circuit_breaker_config :: "RouterAgentPolicy \<Rightarrow> CircuitBreakerConfig" where
  "circuit_breaker_config p = \<lparr>failure_threshold = max (circuit_failure_threshold p) 1,
     success_threshold = max (circuit_success_threshold p) 1, timeout_seconds = circuit_timeout_seconds p,
     error_rate_percent = min (circuit_error_rate_percent p) 100, min_requests = max (circuit_min_requests p) 1\<rparr>"

definition max_attempts :: "RouterAgentPolicy \<Rightarrow> nat" where
  "max_attempts p = (if auto_failover_enabled p then unat (max_retries p) + 1 else 1)"

record 'u RouterAgentRuntime =
  runtime_targets :: "'u UpstreamTarget list"
  runtime_policy :: RouterAgentPolicy

definition find_target :: "'u RouterAgentRuntime \<Rightarrow> string \<Rightarrow> 'u UpstreamTarget option" where
  "find_target rt tid = find (\<lambda>t. target_id t = tid) (runtime_targets rt)"

fun first_seen :: "string list \<Rightarrow> string list \<Rightarrow> string list" where
  "first_seen seen [] = []"
| "first_seen seen (x # xs) = (if x \<in> set seen then first_seen seen xs else x # first_seen (x # seen) xs)"

definition candidates_for :: "'u RouterAgentRuntime \<Rightarrow> string option \<Rightarrow> 'u UpstreamTarget list" where
  "candidates_for rt preferred = (case preferred of
     Some tid \<Rightarrow> (case find_target rt tid of None \<Rightarrow> [] | Some t \<Rightarrow> [t])
   | None \<Rightarrow>
       if auto_failover_enabled (runtime_policy rt)
       then List.map_filter (find_target rt) (first_seen [] (failover_queue (runtime_policy rt)))
       else (case find_target rt (active_target (runtime_policy rt)) of
               Some t \<Rightarrow> [t]
             | None \<Rightarrow> (case runtime_targets rt of [] \<Rightarrow> [] | t # _ \<Rightarrow> [t])))"

text \<open>The policy of a task pinned to a configuration: every resolved channel is a candidate.\<close>

definition config_policy :: "RouterAgentPolicy \<Rightarrow> nat \<Rightarrow> RouterAgentPolicy" where
  "config_policy p n = p\<lparr>auto_failover_enabled := True, max_retries := of_nat (min (n - 1) 255), model_mapping_enabled := True\<rparr>"

section \<open>One request\<close>

record AttemptFailure =
  af_status :: nat
  upstream_status :: "nat option"
  af_headers :: "(string \<times> string) list"
  af_body :: string
  summary :: string
  af_endpoint :: string
  af_model :: string
  af_target :: string
  af_name :: string
  af_attempts :: nat
  af_class :: "FailureClass option"

datatype AttemptBody = Buffered string | Streaming

record AttemptResponse =
  ar_status :: nat
  ar_headers :: "(string \<times> string) list"
  ar_body :: AttemptBody
  error_summary :: "string option"
  ar_endpoint :: string
  ar_model :: string
  ar_attempts :: nat

datatype AttemptResult = Return AttemptResponse | Retry AttemptFailure

text \<open>What a request did, in order: permits it was given, attempts it made and how each was settled.\<close>

datatype Settlement = Succeeded | Failed | Released | HandedToStream

datatype RouterCall =
    Asked string CircuitPermit
  | Tried string AttemptResult
  | Settled string Settlement bool
  | MarkedActive string

record Router =
  breakers :: Registry
  routes :: RouteState
  active :: string
  calls :: "RouterCall list"
  awaits :: nat

record 'u RequestPorts =
  attempt_target :: "nat \<Rightarrow> 'u UpstreamTarget \<Rightarrow> AttemptResult option"
  others :: "nat \<Rightarrow> Registry \<times> RouteState \<Rightarrow> Registry \<times> RouteState"
  instant_at :: "nat \<Rightarrow> nat"
  wall_at :: "nat \<Rightarrow> int"
  epoch_at :: "nat \<Rightarrow> nat"
  http_date :: "string \<Rightarrow> int option"

record RouterRequest =
  req_agent :: RouterAgent
  req_target :: "string option"
  req_task :: "string option"
  req_policy :: RouterAgentPolicy
  req_path :: string
  req_model :: string

definition resume_turn :: "'u RequestPorts \<Rightarrow> Router \<Rightarrow> Router" where
  "resume_turn ports r = (case others ports (awaits r) (breakers r, routes r) of
     (reg, rts) \<Rightarrow> r\<lparr>breakers := reg, routes := rts, awaits := awaits r + 1\<rparr>)"

definition note_call :: "RouterCall \<Rightarrow> Router \<Rightarrow> Router" where
  "note_call c r = r\<lparr>calls := calls r @ [c]\<rparr>"

definition bypass_circuit_breaker :: "RouterRequest \<Rightarrow> 'u UpstreamTarget list \<Rightarrow> bool" where
  "bypass_circuit_breaker req ts \<longleftrightarrow> \<not> auto_failover_enabled (req_policy req) \<or> req_target req \<noteq> None \<or> length ts \<le> 1"

definition ask_permit :: "'u RequestPorts \<Rightarrow> RouterRequest \<Rightarrow> bool \<Rightarrow> 'u UpstreamTarget \<Rightarrow> Router \<Rightarrow> CircuitPermit \<times> Router" where
  "ask_permit ports req bypass t r0 =
    (if bypass then (\<lparr>allowed = True, used_half_open_permit = False\<rparr>, r0)
     else let r = resume_turn ports r0;
              (reg, permit) = registry_allow (req_agent req) (target_id t) (circuit_breaker_config (req_policy req))
                (instant_at ports (awaits r)) (breakers r)
          in (permit, note_call (Asked (target_id t) permit) (r\<lparr>breakers := reg\<rparr>)))"

definition try_target :: "'u RequestPorts \<Rightarrow> 'u UpstreamTarget \<Rightarrow> Router \<Rightarrow> AttemptResult option \<times> Router" where
  "try_target ports t r0 =
    (let r = resume_turn ports r0
     in case attempt_target ports (awaits r) t of
          None \<Rightarrow> (None, r)
        | Some res \<Rightarrow> (Some res, note_call (Tried (target_id t) res) r))"

definition report ::
  "'u RequestPorts \<Rightarrow> RouterRequest \<Rightarrow> 'u UpstreamTarget \<Rightarrow> Settlement \<Rightarrow> bool
    \<Rightarrow> (CircuitBreakerConfig \<Rightarrow> nat \<Rightarrow> int \<Rightarrow> CircuitInner \<Rightarrow> CircuitInner) \<Rightarrow> Router \<Rightarrow> Router" where
  "report ports req t how used f r0 =
    (let r = resume_turn ports r0; cfg = circuit_breaker_config (req_policy req)
     in note_call (Settled (target_id t) how used)
          (r\<lparr>breakers := registry_update (req_agent req) (target_id t) cfg
             (f cfg (instant_at ports (awaits r)) (wall_at ports (awaits r))) (breakers r)\<rparr>))"

definition mark_active_target :: "'u UpstreamTarget \<Rightarrow> Router \<Rightarrow> Router" where
  "mark_active_target t r = note_call (MarkedActive (target_id t)) (r\<lparr>active := target_id t\<rparr>)"

definition note_success :: "'u RequestPorts \<Rightarrow> RouterRequest \<Rightarrow> 'u UpstreamTarget \<Rightarrow> Router \<Rightarrow> bool \<times> Router" where
  "note_success ports req t r = (case req_task req of
     Some task \<Rightarrow> (False, r\<lparr>routes := route_success task (target_id t) (target_fallback t) (epoch_at ports (awaits r)) (routes r)\<rparr>)
   | None \<Rightarrow> (req_target req = None, r))"

definition keep_target :: "'u RequestPorts \<Rightarrow> RouterRequest \<Rightarrow> 'u UpstreamTarget \<Rightarrow> Router \<Rightarrow> Router" where
  "keep_target ports req t r = (case note_success ports req t r of
     (mark, r') \<Rightarrow> if mark then mark_active_target t (resume_turn ports r') else r')"

text \<open>\<open>HeaderValue::to_str\<close>: visible ASCII and tabs only.\<close>

definition header_text :: "string \<Rightarrow> string option" where
  "header_text v = (if list_all (\<lambda>c. 32 \<le> byte_of c \<and> byte_of c < 127 \<or> byte_of c = 9) v then Some v else None)"

definition note_failure :: "'u RequestPorts \<Rightarrow> RouterRequest \<Rightarrow> 'u UpstreamTarget \<Rightarrow> AttemptFailure \<Rightarrow> Router \<Rightarrow> Router" where
  "note_failure ports req t f r = (case req_task req of
     None \<Rightarrow> r
   | Some task \<Rightarrow>
       let now = epoch_at ports (awaits r);
           retry_after = Option.bind (Option.bind (map_of (af_headers f) ''retry-after'') header_text)
             (\<lambda>v. parse_retry_after (http_date ports) v now);
           k = unwrap_or (or_else (af_class f) (map_option from_status (upstream_status f))) Network
       in r\<lparr>routes := snd (route_failure task (af_target f) (af_model f) k retry_after (target_fallback t \<noteq> None) now (routes r))\<rparr>)"

definition settle_retry ::
  "'u RequestPorts \<Rightarrow> RouterRequest \<Rightarrow> 'u UpstreamTarget \<Rightarrow> bool \<Rightarrow> nat \<Rightarrow> AttemptFailure \<Rightarrow> Router \<Rightarrow> AttemptFailure \<times> Router" where
  "settle_retry ports req t used n f0 r =
    (let f = f0\<lparr>af_attempts := n\<rparr>
     in (f, note_failure ports req t f
              (report ports req t Failed used (\<lambda>cfg now stamp. record_failure cfg used (summary f) now stamp) r)))"

definition settle_return ::
  "'u RequestPorts \<Rightarrow> RouterRequest \<Rightarrow> 'u UpstreamTarget \<Rightarrow> bool \<Rightarrow> nat \<Rightarrow> AttemptResponse \<Rightarrow> Router \<Rightarrow> AttemptResponse \<times> Router" where
  "settle_return ports req t used n u0 r =
    (let u = u0\<lparr>ar_attempts := n\<rparr>
     in (u, if error_summary u \<noteq> None
            then report ports req t Released used (\<lambda>_ _ _. release_neutral used) r
            else if ar_body u = Streaming
            then keep_target ports req t (note_call (Settled (target_id t) HandedToStream used) r)
            else keep_target ports req t
              (report ports req t Succeeded used (\<lambda>cfg _ stamp. record_success cfg used stamp) r)))"

datatype 'u LoopEnd =
    Answered AttemptResponse
  | ClientGone
  | Exhausted nat "AttemptFailure option" bool "'u UpstreamTarget option"

fun failover_loop ::
  "'u RequestPorts \<Rightarrow> RouterRequest \<Rightarrow> bool \<Rightarrow> 'u UpstreamTarget list \<Rightarrow> nat \<Rightarrow> AttemptFailure option \<Rightarrow> bool
    \<Rightarrow> 'u UpstreamTarget option \<Rightarrow> Router \<Rightarrow> 'u LoopEnd \<times> Router" where
  "failover_loop ports req bypass [] n last_failure saw skipped r = (Exhausted n last_failure saw skipped, r)"
| "failover_loop ports req bypass (t # ts) n last_failure saw skipped r =
    (if max_attempts (req_policy req) \<le> n then (Exhausted n last_failure saw skipped, r)
     else case ask_permit ports req bypass t r of (permit, r1) \<Rightarrow>
       if \<not> allowed permit then failover_loop ports req bypass ts n last_failure saw (or_else skipped (Some t)) r1
       else case try_target ports t r1 of
          (None, r2) \<Rightarrow> (ClientGone, r2)
        | (Some (Retry f0), r2) \<Rightarrow> (case settle_retry ports req t (used_half_open_permit permit) (n + 1) f0 r2 of
            (f, r3) \<Rightarrow> failover_loop ports req bypass ts (n + 1) (Some f) True skipped r3)
        | (Some (Return u0), r2) \<Rightarrow> (case settle_return ports req t (used_half_open_permit permit) (n + 1) u0 r2 of
            (u, r3) \<Rightarrow> (Answered u, r3)))"

text \<open>When no candidate got a permit the first one skipped is tried once all the same.\<close>

definition last_resort ::
  "'u RequestPorts \<Rightarrow> RouterRequest \<Rightarrow> 'u UpstreamTarget \<Rightarrow> nat \<Rightarrow> Router \<Rightarrow> 'u LoopEnd \<times> Router" where
  "last_resort ports req t n r = (case try_target ports t r of
     (None, r') \<Rightarrow> (ClientGone, r')
   | (Some (Retry f0), r') \<Rightarrow> (case settle_retry ports req t False (n + 1) f0 r' of
       (f, r'') \<Rightarrow> (Exhausted (n + 1) (Some f) False (Some t), r''))
   | (Some (Return u0), r') \<Rightarrow>
       (let u = u0\<lparr>ar_attempts := n + 1\<rparr>
        in (Answered u,
            if error_summary u \<noteq> None then r'
            else if ar_body u = Streaming
            then keep_target ports req t (note_call (Settled (target_id t) HandedToStream False) r')
            else keep_target ports req t
              (report ports req t Succeeded False (\<lambda>cfg _ stamp. record_success cfg False stamp) r'))))"

datatype Reply =
    Upstream AttemptResponse
  | UpstreamError nat "(string \<times> string) list" string
  | JsonError nat string
  | NoReply

definition unavailable :: "RouterRequest \<Rightarrow> bool \<Rightarrow> nat \<Rightarrow> AttemptFailure" where
  "unavailable req saw n = \<lparr>af_status = 503, upstream_status = None, af_headers = [], af_body = [],
     summary = (if saw then ''all configured upstream targets failed''
       else ''all configured upstream targets are circuit-open or busy probing''),
     af_endpoint = req_path req, af_model = req_model req, af_target = [], af_name = [], af_attempts = n, af_class = None\<rparr>"

definition failure_reply :: "AttemptFailure \<Rightarrow> Reply" where
  "failure_reply f = (case upstream_status f of
     Some status \<Rightarrow> UpstreamError status (af_headers f) (af_body f)
   | None \<Rightarrow> JsonError (af_status f) (summary f))"

definition reply_of :: "RouterRequest \<Rightarrow> 'u LoopEnd \<Rightarrow> Reply" where
  "reply_of req e = (case e of
     Answered u \<Rightarrow> Upstream u
   | ClientGone \<Rightarrow> NoReply
   | Exhausted n last_failure saw _ \<Rightarrow> failure_reply (unwrap_or last_failure (unavailable req saw n)))"

definition proxy_candidates :: "'u RequestPorts \<Rightarrow> RouterRequest \<Rightarrow> bool \<Rightarrow> 'u UpstreamTarget list \<Rightarrow> Router \<Rightarrow> Reply \<times> Router" where
  "proxy_candidates ports req legacy_auto ts r =
    (if ts = []
     then (JsonError 503 (if legacy_auto then ''automatic failover is enabled, but its queue has no valid targets''
             else ''routing is disabled or no active target is configured for this agent''), r)
     else case failover_loop ports req (bypass_circuit_breaker req ts) ts 0 None False None r of
        (Exhausted n last_failure False (Some t), r1) \<Rightarrow> (case last_resort ports req t n r1 of
           (e, r2) \<Rightarrow> (reply_of req e, r2))
      | (e, r1) \<Rightarrow> (reply_of req e, r1))"

text \<open>
  The targets of a task pinned to a configuration. \<open>document\<close> is the answer of the file system: no data directory, a document that cannot be read, or
  the document; without a credential store nothing is resolved.
\<close>

definition resolve_from_disk ::
  "'u ResolvePorts \<Rightarrow> string + ConnectionsDocument \<Rightarrow> TaskGrant \<Rightarrow> string \<Rightarrow> nat \<Rightarrow> RouteState \<Rightarrow> 'u Resolution \<times> RouteState" where
  "resolve_from_disk secrets document grant model now s = (case document of
     Inr doc \<Rightarrow> resolve secrets (with_logins (login_name secrets) doc) grant model now s
   | Inl e \<Rightarrow> (Unresolved (''cannot read agent connections: '' @ e), s))"

definition resolve_config_targets ::
  "'u ResolvePorts option \<Rightarrow> string + (string + ConnectionsDocument) \<Rightarrow> TaskGrant \<Rightarrow> string \<Rightarrow> nat \<Rightarrow> RouteState
    \<Rightarrow> (string + 'u UpstreamTarget list) \<times> RouteState" where
  "resolve_config_targets secrets data_dir grant model now s = (case data_dir of
     Inl e \<Rightarrow> (Inl e, s)
   | Inr document \<Rightarrow> (case secrets of
       None \<Rightarrow> (Inl ''no credential store is configured for the router'', s)
     | Some store \<Rightarrow> (case resolve_from_disk store document grant model now s of
         (Targets ts, s') \<Rightarrow> (Inr ts, s')
       | (Unresolved reason, s') \<Rightarrow> (Inl reason, s'))))"

definition choose_targets ::
  "'u RequestPorts \<Rightarrow> 'u ResolvePorts option \<Rightarrow> string + (string + ConnectionsDocument) \<Rightarrow> 'u RouterAgentRuntime \<Rightarrow> TaskGrant option
    \<Rightarrow> RouterRequest \<Rightarrow> Router \<Rightarrow> (string + 'u UpstreamTarget list \<times> RouterRequest) \<times> Router" where
  "choose_targets ports secrets data_dir rt grant req r0 =
    (case (case grant of None \<Rightarrow> None | Some g \<Rightarrow> if grant_config g = None then None else Some g) of
       Some g \<Rightarrow>
         let r = resume_turn ports r0
         in (case resolve_config_targets secrets data_dir g (req_model req) (epoch_at ports (awaits r)) (routes r) of
              (Inl message, s) \<Rightarrow> (Inl message, r\<lparr>routes := s\<rparr>)
            | (Inr ts, s) \<Rightarrow> (Inr (ts, req\<lparr>req_task := Some (grant_task g), req_policy := config_policy (runtime_policy rt) (length ts)\<rparr>),
                r\<lparr>routes := s\<rparr>))
     | None \<Rightarrow> (Inr (candidates_for rt (req_target req), req\<lparr>req_task := None, req_policy := runtime_policy rt\<rparr>), r0))"

definition route_request ::
  "'u RequestPorts \<Rightarrow> 'u ResolvePorts option \<Rightarrow> string + (string + ConnectionsDocument) \<Rightarrow> 'u RouterAgentRuntime \<Rightarrow> TaskGrant option
    \<Rightarrow> RouterRequest \<Rightarrow> Router \<Rightarrow> Reply \<times> Router" where
  "route_request ports secrets data_dir rt grant req r = (case choose_targets ports secrets data_dir rt grant req r of
     (Inl message, r1) \<Rightarrow> (JsonError 503 message, r1)
   | (Inr (ts, req'), r1) \<Rightarrow> proxy_candidates ports req' (auto_failover_enabled (runtime_policy rt)) ts r1)"

section \<open>What a request leaves in the log\<close>

lemma resume_turn_calls [simp]: "calls (resume_turn ports r) = calls r"
  by (simp add: resume_turn_def split: prod.splits)

lemma choose_targets_calls: "choose_targets ports secrets data_dir rt grant req r = (choice, r') \<Longrightarrow> calls r' = calls r"
  by (auto simp: choose_targets_def Let_def split: option.splits prod.splits sum.splits if_splits)

lemma note_call_calls [simp]: "calls (note_call c r) = calls r @ [c]"
  by (simp add: note_call_def)

lemma ask_permit_calls:
  "ask_permit ports req bypass t r = (permit, r') \<Longrightarrow> calls r' = calls r @ (if bypass then [] else [Asked (target_id t) permit])"
  "ask_permit ports req True t r = (permit, r') \<Longrightarrow> allowed permit \<and> \<not> used_half_open_permit permit"
  by (auto simp: ask_permit_def Let_def split: if_splits prod.splits)

lemma try_target_calls:
  "try_target ports t r = (res, r') \<Longrightarrow> calls r' = calls r @ (case res of None \<Rightarrow> [] | Some x \<Rightarrow> [Tried (target_id t) x])"
  by (auto simp: try_target_def Let_def split: option.splits)

lemma report_calls [simp]: "calls (report ports req t how used f r) = calls r @ [Settled (target_id t) how used]"
  by (simp add: report_def Let_def)

lemma keep_target_calls: "calls (keep_target ports req t r) = calls r \<or> calls (keep_target ports req t r) = calls r @ [MarkedActive (target_id t)]"
  by (auto simp: keep_target_def note_success_def mark_active_target_def split: option.splits)

lemma settle_retry_calls:
  "settle_retry ports req t used n f0 r = (f, r') \<Longrightarrow> calls r' = calls r @ [Settled (target_id t) Failed used] \<and> f = f0\<lparr>af_attempts := n\<rparr>"
  by (auto simp: settle_retry_def note_failure_def Let_def split: option.splits)

lemma settle_return_calls:
  assumes "settle_return ports req t used n u0 r = (u, r')"
  obtains how marks where "calls r' = calls r @ Settled (target_id t) how used # marks" "set marks \<subseteq> {MarkedActive (target_id t)}"
    "u = u0\<lparr>ar_attempts := n\<rparr>"
proof -
  have u: "u = u0\<lparr>ar_attempts := n\<rparr>" using assms by (auto simp: settle_return_def Let_def)
  let ?s = "note_call (Settled (target_id t) HandedToStream used) r"
  let ?c = "report ports req t Succeeded used (\<lambda>cfg _ stamp. record_success cfg used stamp) r"
  consider "calls r' = calls r @ [Settled (target_id t) Released used]" | "r' = keep_target ports req t ?s" | "r' = keep_target ports req t ?c"
    using assms by (auto simp: settle_return_def Let_def split: if_splits)
  then show thesis
  proof cases
    case 1
    with that [of Released "[]"] u show ?thesis by simp
  next
    case 2
    with keep_target_calls [of ports req t ?s] that [of HandedToStream "[]"] that [of HandedToStream "[MarkedActive (target_id t)]"] u
    show ?thesis by auto
  next
    case 3
    with keep_target_calls [of ports req t ?c] that [of Succeeded "[]"] that [of Succeeded "[MarkedActive (target_id t)]"] u
    show ?thesis by auto
  qed
qed

lemma last_resort_calls:
  assumes "last_resort ports req t n r = (e, r')"
  obtains res log where "calls r' = calls r @ (case res of None \<Rightarrow> [] | Some x \<Rightarrow> Tried (target_id t) x # log)"
    "set log \<subseteq> {MarkedActive (target_id t)} \<union> {Settled (target_id t) how False | how. True}"
    "e = (case res of None \<Rightarrow> ClientGone | Some (Return u) \<Rightarrow> Answered (u\<lparr>ar_attempts := n + 1\<rparr>)
      | Some (Retry f) \<Rightarrow> Exhausted (n + 1) (Some (f\<lparr>af_attempts := n + 1\<rparr>)) False (Some t))"
proof -
  obtain res r1 where tried: "try_target ports t r = (res, r1)" by fastforce
  have c: "calls r1 = calls r @ (case res of None \<Rightarrow> [] | Some x \<Rightarrow> [Tried (target_id t) x])"
    using try_target_calls [OF tried] .
  show thesis
  proof (cases res)
    case None
    with assms tried c that [of "[]" None] show ?thesis by (simp add: last_resort_def)
  next
    case (Some x)
    show ?thesis
    proof (cases x)
      case (Retry f0)
      obtain f r2 where s: "settle_retry ports req t False (n + 1) f0 r1 = (f, r2)" by fastforce
      from settle_retry_calls [OF s] assms tried Some Retry c s that [of "[Settled (target_id t) Failed False]" "Some x"]
      show ?thesis by (simp add: last_resort_def)
    next
      case (Return u)
      let ?s = "note_call (Settled (target_id t) HandedToStream False) r1"
      let ?c = "report ports req t Succeeded False (\<lambda>cfg _ stamp. record_success cfg False stamp) r1"
      have e: "e = Answered (u\<lparr>ar_attempts := n + 1\<rparr>)" and r': "r' = r1 \<or> r' = keep_target ports req t ?s \<or> r' = keep_target ports req t ?c"
        using assms tried Some Return by (auto simp: last_resort_def Let_def split: if_splits)
      have "\<exists>log. calls r' = calls r1 @ log \<and> set log \<subseteq> {MarkedActive (target_id t)} \<union> {Settled (target_id t) how False | how. True}"
        using r' keep_target_calls [of ports req t ?s] keep_target_calls [of ports req t ?c] by (auto 4 4)
      with e c Some Return that [of _ "Some x"] show ?thesis by auto
    qed
  qed
qed

section \<open>Every probe is settled\<close>

text \<open>
  The probe a request holds, read off its log; no value once the log breaks the rules: one probe at a time, and every settlement
  is of the permit held.
\<close>

fun probe_step :: "RouterCall \<Rightarrow> string option option \<Rightarrow> string option option" where
  "probe_step call None = None"
| "probe_step (Asked t p) (Some held) =
    (if held \<noteq> None then None else Some (if allowed p \<and> used_half_open_permit p then Some t else None))"
| "probe_step (Settled t how used) (Some held) = (if held = (if used then Some t else None) then Some None else None)"
| "probe_step (Tried t res) (Some held) = Some held"
| "probe_step (MarkedActive t) (Some held) = Some held"

definition probes :: "RouterCall list \<Rightarrow> string option option" where
  "probes cs = fold probe_step cs (Some None)"

lemma probes_append: "probes (a @ b) = fold probe_step b (probes a)"
  by (simp add: probes_def)

lemma probes_quiet:
  assumes "set cs \<subseteq> {MarkedActive t} \<union> {Settled t how False | how. True}"
  shows "fold probe_step cs (Some None) = Some None"
  using assms by (induction cs) auto

definition permitted :: "'u UpstreamTarget \<Rightarrow> RouterCall list \<Rightarrow> CircuitPermit \<Rightarrow> bool" where
  "permitted t asked permit \<longleftrightarrow> allowed permit \<and> (asked = [Asked (target_id t) permit] \<or> asked = [] \<and> \<not> used_half_open_permit permit)"

text \<open>One candidate's turn in the loop: what it appends to the log, and how the loop goes on.\<close>

lemma failover_turn:
  assumes "failover_loop ports req bypass (t # ts) n last_failure saw skipped r = (e, r')"
  obtains
    (limit) "max_attempts (req_policy req) \<le> n" "e = Exhausted n last_failure saw skipped" "r' = r"
  | (denied) permit r1 where "n < max_attempts (req_policy req)" "\<not> allowed permit" "calls r1 = calls r @ [Asked (target_id t) permit]"
      "failover_loop ports req bypass ts n last_failure saw (or_else skipped (Some t)) r1 = (e, r')"
  | (gone) asked permit where "n < max_attempts (req_policy req)" "permitted t asked permit" "e = ClientGone" "calls r' = calls r @ asked"
  | (retry) asked permit f r3 where "n < max_attempts (req_policy req)" "permitted t asked permit"
      "calls r3 = calls r @ asked @ [Tried (target_id t) (Retry f), Settled (target_id t) Failed (used_half_open_permit permit)]"
      "failover_loop ports req bypass ts (n + 1) (Some (f\<lparr>af_attempts := n + 1\<rparr>)) True skipped r3 = (e, r')"
  | (answer) asked permit u how marks where "n < max_attempts (req_policy req)" "permitted t asked permit"
      "calls r' = calls r @ asked @ Tried (target_id t) (Return u) # Settled (target_id t) how (used_half_open_permit permit) # marks"
      "set marks \<subseteq> {MarkedActive (target_id t)}" "e = Answered (u\<lparr>ar_attempts := n + 1\<rparr>)"
proof (cases "max_attempts (req_policy req) \<le> n")
  case True
  with assms limit show ?thesis by simp
next
  case False
  then have n: "n < max_attempts (req_policy req)" by simp
  obtain permit r1 where ask: "ask_permit ports req bypass t r = (permit, r1)" by fastforce
  let ?asked = "if bypass then [] else [Asked (target_id t) permit]"
  have c1: "calls r1 = calls r @ ?asked" using ask_permit_calls(1) [OF ask] .
  have bypassed: "bypass \<Longrightarrow> allowed permit \<and> \<not> used_half_open_permit permit"
    using ask_permit_calls(2) [of ports req t r permit r1] ask by simp
  show ?thesis
  proof (cases "allowed permit")
    case refused: False
    with bypassed have "\<not> bypass" by blast
    with refused show ?thesis using denied [OF n refused, of r1] assms False ask c1 by simp
  next
    case True
    then have p: "permitted t ?asked permit" using bypassed by (simp add: permitted_def)
    obtain res r2 where tried: "try_target ports t r1 = (res, r2)" by fastforce
    note c2 = try_target_calls [OF tried]
    note step = assms False ask True tried
    consider "res = None" | f where "res = Some (Retry f)" | u where "res = Some (Return u)"
      by (cases res) (auto intro: AttemptResult.exhaust)
    then show ?thesis
    proof cases
      case 1
      then show ?thesis using gone [OF n p] step c1 c2 by simp
    next
      case (2 f)
      obtain g r3 where s: "settle_retry ports req t (used_half_open_permit permit) (n + 1) f r2 = (g, r3)" by fastforce
      show ?thesis using retry [OF n p, of r3 f] settle_retry_calls [OF s] step 2 s c1 c2 by simp
    next
      case (3 u)
      obtain v r3 where s: "settle_return ports req t (used_half_open_permit permit) (n + 1) u r2 = (v, r3)" by fastforce
      obtain how marks where "calls r3 = calls r2 @ Settled (target_id t) how (used_half_open_permit permit) # marks"
        "set marks \<subseteq> {MarkedActive (target_id t)}" "v = u\<lparr>ar_attempts := n + 1\<rparr>"
        using settle_return_calls [OF s] .
      then show ?thesis using answer [OF n p, of u how marks] step 3 s c1 c2 by simp
    qed
  qed
qed

lemma failover_loop_probes:
  assumes "failover_loop ports req bypass ts n last_failure saw skipped r = (e, r')" "probes (calls r) = Some None"
  shows "probes (calls r') \<noteq> None \<and> (e \<noteq> ClientGone \<longrightarrow> probes (calls r') = Some None)"
  using assms
proof (induction ts arbitrary: n last_failure saw skipped r)
  case (Cons t ts)
  have held: "probes (calls r @ asked) = Some (if used_half_open_permit permit then Some (target_id t) else None)"
    if "permitted t asked permit" for asked permit
    using that Cons.prems(2) by (auto simp: permitted_def probes_append)
  from Cons.prems(1) show ?case
  proof (cases rule: failover_turn)
    case limit
    with Cons.prems show ?thesis by simp
  next
    case (denied permit r1)
    with Cons.IH [OF denied(4)] Cons.prems(2) show ?thesis by (simp add: probes_append)
  next
    case (gone asked permit)
    with held [OF gone(2)] show ?thesis by simp
  next
    case (retry asked permit f r3)
    with held [OF retry(2)] have "probes (calls r3) = Some None" by (simp add: probes_append)
    with Cons.IH [OF retry(4)] show ?thesis by simp
  next
    case (answer asked permit u how marks)
    have "fold probe_step marks (Some None) = Some None" using answer(4) by (intro probes_quiet) auto
    with answer(3) held [OF answer(2)] show ?thesis by (simp add: probes_append)
  qed
qed simp

lemma proxy_candidates_probes:
  assumes "proxy_candidates ports req legacy ts r = (reply, r')" "calls r = []"
  shows "probes (calls r') \<noteq> None \<and> (reply \<noteq> NoReply \<longrightarrow> probes (calls r') = Some None)"
proof (cases "ts = []")
  case True
  with assms show ?thesis by (auto simp: proxy_candidates_def probes_def)
next
  case False
  obtain e r1 where loop: "failover_loop ports req (bypass_circuit_breaker req ts) ts 0 None False None r = (e, r1)" by fastforce
  have start: "probes (calls r) = Some None" using assms(2) by (simp add: probes_def)
  note probes1 = failover_loop_probes [OF loop start]
  show ?thesis
  proof (cases "\<exists>n last_failure t. e = Exhausted n last_failure False (Some t)")
    case False
    with assms(1) \<open>ts \<noteq> []\<close> loop have "reply = reply_of req e" "r' = r1"
      by (auto simp: proxy_candidates_def split: LoopEnd.splits option.splits bool.splits)
    with probes1 show ?thesis by (auto simp: reply_of_def)
  next
    case True
    then obtain n last_failure t where e: "e = Exhausted n last_failure False (Some t)" by blast
    obtain e2 r2 where lr: "last_resort ports req t n r1 = (e2, r2)" by fastforce
    have r': "reply = reply_of req e2" "r' = r2" using assms(1) \<open>ts \<noteq> []\<close> loop e lr by (simp_all add: proxy_candidates_def)
    obtain res log where log: "calls r2 = calls r1 @ (case res of None \<Rightarrow> [] | Some x \<Rightarrow> Tried (target_id t) x # log)"
      "set log \<subseteq> {MarkedActive (target_id t)} \<union> {Settled (target_id t) how False | how. True}"
      using last_resort_calls [OF lr] .
    have "probes (calls r2) = Some None"
      using log(1) probes1 e probes_quiet [OF log(2)] by (cases res) (simp_all add: probes_append)
    with r' show ?thesis by simp
  qed
qed


section \<open>Which targets are tried and what is answered\<close>

fun tries :: "RouterCall list \<Rightarrow> (string \<times> AttemptResult) list" where
  "tries [] = []"
| "tries (Tried t res # cs) = (t, res) # tries cs"
| "tries (_ # cs) = tries cs"

lemma tries_append [simp]: "tries (a @ b) = tries a @ tries b"
  by (induction a rule: tries.induct) auto

fun is_retry :: "AttemptResult \<Rightarrow> bool" where
  "is_retry (Retry f) = True"
| "is_retry (Return u) = False"

definition turned_away :: "RouterCall list \<Rightarrow> string \<Rightarrow> bool" where
  "turned_away cs tid \<longleftrightarrow> list_ex (\<lambda>c. case c of Asked t p \<Rightarrow> t = tid \<and> \<not> allowed p | _ \<Rightarrow> False) cs"

definition accounted :: "RouterCall list \<Rightarrow> 'u UpstreamTarget list \<Rightarrow> bool" where
  "accounted cs ts \<longleftrightarrow> list_all (\<lambda>t. target_id t \<in> fst ` set (tries cs) \<or> turned_away cs (target_id t)) ts"

text \<open>What a run of the loop from \<open>n\<close> attempts leaves, in terms of the calls it added.\<close>

definition loop_ok ::
  "nat \<Rightarrow> 'u UpstreamTarget list \<Rightarrow> nat \<Rightarrow> AttemptFailure option \<Rightarrow> bool \<Rightarrow> 'u UpstreamTarget option \<Rightarrow> RouterCall list \<Rightarrow> 'u LoopEnd \<Rightarrow> bool" where
  "loop_ok most ts n last_failure saw skipped cs e \<longleftrightarrow>
     subseq (map fst (tries cs)) (map target_id ts) \<and> (n \<le> most \<longrightarrow> n + length (tries cs) \<le> most)
     \<and> (case e of
          ClientGone \<Rightarrow> True
        | Answered u \<Rightarrow> \<exists>before t u0. tries cs = before @ [(t, Return u0)] \<and> list_all (is_retry \<circ> snd) before
            \<and> u = u0\<lparr>ar_attempts := n + length (tries cs)\<rparr>
        | Exhausted m failure saw' skipped' \<Rightarrow> m = n + length (tries cs) \<and> list_all (is_retry \<circ> snd) (tries cs)
            \<and> (if tries cs = [] then failure = last_failure
               else \<exists>t f. last (tries cs) = (t, Retry f) \<and> failure = Some (f\<lparr>af_attempts := m\<rparr>))
            \<and> saw' = (saw \<or> tries cs \<noteq> []) \<and> (m < most \<longrightarrow> accounted cs ts)
            \<and> (m < most \<and> tries cs = [] \<longrightarrow> skipped' = or_else skipped (case ts of [] \<Rightarrow> None | t # _ \<Rightarrow> Some t)))"

lemma accounted_Cons:
  "accounted cs' ts \<Longrightarrow> target_id t \<in> fst ` set (tries (cs @ cs')) \<or> turned_away (cs @ cs') (target_id t) \<Longrightarrow> accounted (cs @ cs') (t # ts)"
  by (auto simp: accounted_def turned_away_def list_all_iff image_iff)

lemma loop_ok_denied:
  assumes "loop_ok most ts n last_failure saw (or_else skipped (Some t)) cs e" "\<not> allowed permit"
  shows "loop_ok most (t # ts) n last_failure saw skipped (Asked (target_id t) permit # cs) e"
  using assms accounted_Cons [of cs ts t "[Asked (target_id t) permit]"]
  unfolding loop_ok_def by (cases e) (auto simp: turned_away_def or_else_def split: option.splits list.splits)

lemma loop_ok_retry:
  assumes "loop_ok most ts (n + 1) (Some (f\<lparr>af_attempts := n + 1\<rparr>)) True skipped cs e" "permitted t asked permit" "n < most"
  shows "loop_ok most (t # ts) n last_failure saw skipped (asked @ [Tried (target_id t) (Retry f), Settled (target_id t) Failed used] @ cs) e"
proof -
  have asked: "tries asked = []" using assms(2) by (auto simp: permitted_def)
  show ?thesis
  proof (cases e)
    case (Answered u)
    then obtain before t' u0 where "tries cs = before @ [(t', Return u0)]" "list_all (is_retry \<circ> snd) before"
      "u = u0\<lparr>ar_attempts := n + 1 + length (tries cs)\<rparr>"
      using assms(1) by (auto simp: loop_ok_def)
    with Answered assms(1,3) asked show ?thesis
      by (auto simp: loop_ok_def intro!: exI [of _ "(target_id t, Retry f) # before"])
  next
    case ClientGone
    with assms(1,3) asked show ?thesis by (auto simp: loop_ok_def)
  next
    case (Exhausted m failure saw' skipped')
    with assms(1,3) asked
      accounted_Cons [of cs ts t "asked @ [Tried (target_id t) (Retry f), Settled (target_id t) Failed used]"] show ?thesis
      by (auto simp: loop_ok_def split: if_splits)
  qed
qed

lemma failover_loop_ok:
  assumes "failover_loop ports req bypass ts n last_failure saw skipped r = (e, r')"
  shows "\<exists>cs. calls r' = calls r @ cs \<and> loop_ok (max_attempts (req_policy req)) ts n last_failure saw skipped cs e"
  using assms
proof (induction ts arbitrary: n last_failure saw skipped r)
  case Nil
  then show ?case by (intro exI [of _ "[]"]) (auto simp: loop_ok_def accounted_def or_else_def split: option.splits)
next
  case (Cons t ts)
  from Cons.prems show ?case
  proof (cases rule: failover_turn)
    case limit
    then show ?thesis by (intro exI [of _ "[]"]) (auto simp: loop_ok_def)
  next
    case (denied permit r1)
    with Cons.IH [OF denied(4)] show ?thesis by (auto dest: loop_ok_denied)
  next
    case (gone asked permit)
    then have "tries asked = []" by (auto simp: permitted_def)
    with gone show ?thesis by (auto simp: loop_ok_def)
  next
    case (retry asked permit f r3)
    obtain cs where cs: "calls r' = calls r3 @ cs"
      "loop_ok (max_attempts (req_policy req)) ts (n + 1) (Some (f\<lparr>af_attempts := n + 1\<rparr>)) True skipped cs e"
      using Cons.IH [OF retry(4)] by blast
    from loop_ok_retry [OF cs(2) retry(2,1)] cs(1) retry(3) show ?thesis by auto
  next
    case (answer asked permit u how marks)
    have "tries marks = []" using answer(4) by (induction marks) auto
    moreover have "tries asked = []" using answer(2) by (auto simp: permitted_def)
    ultimately show ?thesis
      using answer(1,5) by (subst answer(3)) (auto simp: loop_ok_def)
  qed
qed

text \<open>The contract of a request, in terms of its log and its reply.\<close>

definition request_ok :: "nat \<Rightarrow> 'u UpstreamTarget list \<Rightarrow> RouterCall list \<Rightarrow> Reply \<Rightarrow> bool" where
  "request_ok most ts cs reply \<longleftrightarrow> (let tr = tries cs in
      tr \<noteq> [] \<and> length tr \<le> most \<and> subseq (map fst tr) (map target_id ts) \<and> list_all (is_retry \<circ> snd) (butlast tr)
      \<and> (case snd (last tr) of
           Return u \<Rightarrow> reply = Upstream (u\<lparr>ar_attempts := length tr\<rparr>)
         | Retry f \<Rightarrow> reply = failure_reply f \<and> (length tr = most \<or> accounted cs ts)))"

lemma failure_reply_attempts [simp]: "failure_reply (f\<lparr>af_attempts := n\<rparr>) = failure_reply f"
  by (simp add: failure_reply_def split: option.splits)

lemma loop_reply_ok:
  assumes "loop_ok most ts 0 None False None cs e" "ts \<noteq> []" "0 < most" "reply_of req e \<noteq> NoReply"
    and "\<nexists>n last_failure t. e = Exhausted n last_failure False (Some t)"
  shows "request_ok most ts cs (reply_of req e)"
proof (cases e)
  case (Answered u)
  with assms(1,3) show ?thesis by (auto simp: loop_ok_def reply_of_def request_ok_def)
next
  case ClientGone
  with assms(4) show ?thesis by (simp add: reply_of_def)
next
  case (Exhausted m failure saw skipped)
  have "tries cs \<noteq> []"
  proof
    assume "tries cs = []"
    with assms(1-3) Exhausted have "saw = False" "skipped = Some (hd ts)"
      by (auto simp: loop_ok_def split: list.splits)
    with assms(5) Exhausted show False by simp
  qed
  moreover have "list_all (is_retry \<circ> snd) (butlast (tries cs))"
    using assms(1) Exhausted unfolding loop_ok_def list_all_iff by (auto dest: in_set_butlastD simp del: split_paired_All)
  ultimately show ?thesis using assms(1,3) Exhausted by (auto simp: loop_ok_def reply_of_def request_ok_def)
qed

lemma last_resort_reply_ok:
  assumes "last_resort ports req t 0 r1 = (e, r2)" "tries (calls r1) = []" "accounted (calls r1) ts" "ts \<noteq> []" "t = hd ts"
    and "0 < most" "reply_of req e \<noteq> NoReply"
  shows "request_ok most ts (calls r2) (reply_of req e)"
proof -
  obtain res cs where cs: "calls r2 = calls r1 @ (case res of None \<Rightarrow> [] | Some x \<Rightarrow> Tried (target_id t) x # cs)"
    "set cs \<subseteq> {MarkedActive (target_id t)} \<union> {Settled (target_id t) how False | how. True}"
    "e = (case res of None \<Rightarrow> ClientGone | Some (Return u) \<Rightarrow> Answered (u\<lparr>ar_attempts := 0 + 1\<rparr>)
      | Some (Retry f) \<Rightarrow> Exhausted (0 + 1) (Some (f\<lparr>af_attempts := 0 + 1\<rparr>)) False (Some t))"
    using last_resort_calls [OF assms(1)] .
  obtain x where x: "res = Some x" using cs(3) assms(7) by (cases res) (simp_all add: reply_of_def)
  have quiet: "tries cs = []" using cs(2) by (induction cs) auto
  have first: "subseq [target_id t] (map target_id ts)" using assms(4,5) by (cases ts) auto
  have still: "accounted (calls r2) ts"
    using assms(3) cs(1) by (auto simp: accounted_def turned_away_def list_all_iff)
  show ?thesis
    using cs(1,3) x quiet assms(2,6) first still by (cases x) (simp_all add: reply_of_def request_ok_def)
qed

lemma proxy_candidates_ok:
  assumes "proxy_candidates ports req legacy ts r = (reply, r')" "ts \<noteq> []" "reply \<noteq> NoReply" "calls r = []"
  shows "request_ok (max_attempts (req_policy req)) ts (calls r') reply"
proof -
  let ?most = "max_attempts (req_policy req)"
  have most: "0 < ?most" by (simp add: max_attempts_def)
  obtain e r1 where loop: "failover_loop ports req (bypass_circuit_breaker req ts) ts 0 None False None r = (e, r1)" by fastforce
  from failover_loop_ok [OF loop] assms(4) have ok: "loop_ok ?most ts 0 None False None (calls r1) e" by auto
  show ?thesis
  proof (cases "\<exists>n last_failure t. e = Exhausted n last_failure False (Some t)")
    case False
    with assms(1,2) loop have "reply = reply_of req e" "r' = r1"
      by (auto simp: proxy_candidates_def split: LoopEnd.splits option.splits bool.splits)
    with loop_reply_ok [OF ok assms(2) most _ False] assms(3) show ?thesis by simp
  next
    case True
    then obtain n last_failure t where e: "e = Exhausted n last_failure False (Some t)" by blast
    have none: "tries (calls r1) = []" "n = 0" "accounted (calls r1) ts" "t = hd ts"
      using ok e most assms(2) by (auto simp: loop_ok_def split: list.splits)
    obtain e2 r2 where lr: "last_resort ports req t 0 r1 = (e2, r2)" by fastforce
    have "reply = reply_of req e2" "r' = r2" using assms(1,2) loop e lr none(2) by (simp_all add: proxy_candidates_def)
    with last_resort_reply_ok [OF lr none(1,3) assms(2) none(4) most] assms(3) show ?thesis by simp
  qed
qed

lemma choose_targets_pinned:
  assumes "choose_targets ports secrets data_dir rt grant req r = (Inr (ts, req'), r1)" "req_task req' \<noteq> None" "ts \<noteq> []" "length ts \<le> 256"
  shows "max_attempts (req_policy req') = length ts"
proof -
  have "req_policy req' = config_policy (runtime_policy rt) (length ts)"
    using assms(1,2) by (auto simp: choose_targets_def Let_def split: option.splits prod.splits sum.splits if_splits)
  moreover obtain n where "length ts = Suc n" using assms(3) by (cases ts) auto
  ultimately show ?thesis using assms(4) by (simp add: max_attempts_def config_policy_def unat_of_nat)
qed

lemma all_tried_accounted:
  assumes "subseq (map fst (tries cs)) (map target_id ts)" "length (tries cs) = length ts"
  shows "accounted cs ts"
proof -
  have "map fst (tries cs) = map target_id ts" using assms by (intro subseq_same_length) simp_all
  then have "fst ` set (tries cs) = target_id ` set ts" by (metis set_map)
  then show ?thesis by (simp add: accounted_def list_all_iff)
qed

text \<open>
  C25. What a request with at least one candidate does. It tries at least one target and at most as many as the policy allows, in the
  order of the candidates; it moves on only after a failure that another target may not have; the answer it returns is
  that of the last target tried, with the number of attempts. It gives up only when the limit is reached or every
  candidate was tried or turned away by its breaker, and even when all are turned away the first one is tried. For a task pinned to a
  configuration the limit never cuts a channel off: a failure is reported only when every resolved channel (up to 256) was tried or turned away.
\<close>

theorem failover_contract:
  assumes "choose_targets ports secrets data_dir rt grant req r = (Inr (ts, req'), r1)" "ts \<noteq> []"
    and "route_request ports secrets data_dir rt grant req r = (reply, r')" "reply \<noteq> NoReply" "calls r = []"
  shows "(let tr = tries (calls r') in
      tr \<noteq> [] \<and> length tr \<le> max_attempts (req_policy req') \<and> subseq (map fst tr) (map target_id ts)
      \<and> list_all (is_retry \<circ> snd) (butlast tr)
      \<and> (case snd (last tr) of
           Return u \<Rightarrow> reply = Upstream (u\<lparr>ar_attempts := length tr\<rparr>)
         | Retry f \<Rightarrow> reply = failure_reply f
             \<and> (length tr = max_attempts (req_policy req') \<or> accounted (calls r') ts)
             \<and> (req_task req' \<noteq> None \<and> length ts \<le> 256 \<longrightarrow> accounted (calls r') ts)))"
proof -
  have "proxy_candidates ports req' (auto_failover_enabled (runtime_policy rt)) ts r1 = (reply, r')"
    using assms(1,3) by (simp add: route_request_def)
  moreover have "calls r1 = []" using choose_targets_calls [OF assms(1)] assms(5) by simp
  ultimately have ok: "request_ok (max_attempts (req_policy req')) ts (calls r') reply"
    by (rule proxy_candidates_ok [OF _ assms(2,4)])
  moreover have "accounted (calls r') ts"
    if "length (tries (calls r')) = max_attempts (req_policy req')" "req_task req' \<noteq> None" "length ts \<le> 256"
    using ok that choose_targets_pinned [OF assms(1) that(2) assms(2) that(3)]
    by (intro all_tried_accounted) (simp_all add: request_ok_def Let_def)
  ultimately show ?thesis by (auto simp: request_ok_def Let_def split: AttemptResult.splits)
qed

definition sample_target :: "string \<Rightarrow> unit UpstreamTarget" where
  "sample_target tid = \<lparr>target_id = tid, target_name = tid, target_url = (), api_key = [], target_models = [], enable_1m_context = False,
     enable_chat_completions_proxy = False, upstream_protocol = None, target_fallback = None, target_login = None\<rparr>"

definition sample_response :: AttemptResponse where
  "sample_response = \<lparr>ar_status = 200, ar_headers = [], ar_body = Buffered ''ok'', error_summary = None, ar_endpoint = [], ar_model = [],
     ar_attempts = 0\<rparr>"

definition sample_ports :: "(nat \<Rightarrow> unit UpstreamTarget \<Rightarrow> AttemptResult option) \<Rightarrow> nat \<Rightarrow> unit RequestPorts" where
  "sample_ports f now = \<lparr>attempt_target = f, others = (\<lambda>_ x. x), instant_at = (\<lambda>_. now), wall_at = (\<lambda>_. 0), epoch_at = (\<lambda>_. 0),
     http_date = (\<lambda>_. None)\<rparr>"

definition sample_request :: RouterRequest where
  "sample_request = \<lparr>req_agent = Codex, req_target = None, req_task = None,
     req_policy = policy_default\<lparr>auto_failover_enabled := True\<rparr>, req_path = ''/v1/responses'', req_model = ''m''\<rparr>"

definition sample_router :: "Registry \<Rightarrow> Router" where
  "sample_router reg = \<lparr>breakers = reg, routes = state_default, active = [], calls = [], awaits = 0\<rparr>"

definition sample_runtime :: "unit RouterAgentRuntime" where
  "sample_runtime = \<lparr>runtime_targets = [sample_target ''a'', sample_target ''b''],
     runtime_policy = policy_default\<lparr>auto_failover_enabled := True, failover_queue := [''a'', ''b'']\<rparr>\<rparr>"

lemma sample_chosen:
  "choose_targets ports secrets data_dir sample_runtime None sample_request r
    = (Inr ([sample_target ''a'', sample_target ''b''], sample_request\<lparr>req_policy := runtime_policy sample_runtime\<rparr>), r)"
  by (simp add: choose_targets_def candidates_for_def sample_runtime_def sample_request_def find_target_def sample_target_def
      List.map_filter_def)


theorem failover_contract_witness:
  "length (tries (calls (snd (route_request (sample_ports (\<lambda>_ _. Some (Return sample_response)) 7) None (Inl []) sample_runtime None sample_request
      (sample_router fmempty))))) \<le> 4"
proof -
  let ?run = "route_request (sample_ports (\<lambda>_ _. Some (Return sample_response)) 7) None (Inl []) sample_runtime None sample_request
      (sample_router fmempty)"
  have "fst ?run \<noteq> NoReply"
    unfolding route_request_def sample_chosen
    by (simp add: proxy_candidates_def bypass_circuit_breaker_def ask_permit_def try_target_def
        settle_return_def reply_of_def sample_ports_def sample_request_def sample_runtime_def policy_default_def max_attempts_def
        resume_turn_def registry_allow_def get_or_create_def sample_router_def circuit_new_def allow_request_def Let_def)
  from failover_contract [OF sample_chosen _ surjective_pairing this] show ?thesis
    by (simp add: sample_router_def Let_def max_attempts_def sample_runtime_def policy_default_def)
qed

text \<open>
  C37. What a client that goes away leaves behind. When it disconnects while a half-open target is probed for its
  request, nothing settles the permit: there is no reply, the breaker stays half-open with a probe in flight, and from then on it
  turns away every request at whatever time, until a report that was not preceded by a permit changes its state.
\<close>

theorem cancelled_probe_left_behind:
  assumes "auto_failover_enabled (req_policy req)" "req_target req = None" "2 \<le> length ts" "others ports = (\<lambda>_ x. x)"
    and "used_half_open_permit (snd (registry_allow (req_agent req) (target_id (hd ts)) (circuit_breaker_config (req_policy req))
      (instant_at ports (awaits r + 1)) (breakers r)))"
    and "attempt_target ports (awaits r + 2) (hd ts) = None"
  shows "fst (proxy_candidates ports req legacy ts r) = NoReply
    \<and> \<not> grants cfg now (get_or_create (req_agent req) (target_id (hd ts)) cfg (breakers (snd (proxy_candidates ports req legacy ts r))))"
proof -
  obtain t ts' where ts: "ts = t # ts'" using assms(3) by (cases ts) auto
  let ?cfg = "circuit_breaker_config (req_policy req)"
  let ?b = "get_or_create (req_agent req) (target_id t) ?cfg (breakers r)"
  obtain b permit where allow: "allow_request ?cfg (instant_at ports (awaits r + 1)) ?b = (b, permit)" by fastforce
  have used: "used_half_open_permit permit" using assms(5) ts allow by (simp add: registry_allow_def)
  then have yes: "allowed permit"
    using allow by (auto simp: allow_request_def permit_default_def Let_def split: if_splits CircuitState.splits)
  let ?reg = "fmupd (req_agent req, target_id t) b (breakers r)"
  let ?r = "r\<lparr>breakers := ?reg, awaits := awaits r + 2, calls := calls r @ [Asked (target_id t) permit]\<rparr>"
  have "\<not> bypass_circuit_breaker req ts" using assms(1-3) by (simp add: bypass_circuit_breaker_def)
  then have "failover_loop ports req (bypass_circuit_breaker req ts) ts 0 None False None r = (ClientGone, ?r)"
    using assms(1,4,6) ts allow yes
    by (simp add: max_attempts_def ask_permit_def registry_allow_def resume_turn_def try_target_def note_call_def Let_def)
  then have "proxy_candidates ports req legacy ts r = (NoReply, ?r)" using ts by (simp add: proxy_candidates_def reply_of_def)
  moreover have "get_or_create (req_agent req) (target_id t) cfg ?reg = b" by (simp add: get_or_create_def)
  ultimately show ?thesis using held_denies [OF probe_held [OF allow used]] ts by simp
qed

theorem cancelled_probe_left_behind_witness:
  "\<not> grants config_default (10 ^ 30) (get_or_create Codex ''a'' config_default (breakers (snd
      (proxy_candidates (sample_ports (\<lambda>_ _. None) (60 * 10 ^ 9)) sample_request True [sample_target ''a'', sample_target ''b'']
        (sample_router (fmupd (Codex, ''a'') sample_open fmempty))))))"
proof -
  have "state sample_open = Open" "opened_at sample_open = Some 0" "\<not> half_open_in_flight sample_open"
    by (simp_all add: sample_open_def record_failure_def circuit_new_def config_default_def Let_def transition_to_open_def
        saturating_add_def)
  then have "used_half_open_permit (snd (registry_allow Codex ''a'' (circuit_breaker_config (req_policy sample_request)) (60 * 10 ^ 9)
      (fmupd (Codex, ''a'') sample_open fmempty)))"
    by (simp add: registry_allow_def get_or_create_def allow_request_def Let_def transition_defs elapsed_secs_def
        circuit_breaker_config_def sample_request_def policy_default_def split: prod.splits)
  with cancelled_probe_left_behind [of sample_request "[sample_target ''a'', sample_target ''b'']"
      "sample_ports (\<lambda>_ _. None) (60 * 10 ^ 9)" "sample_router (fmupd (Codex, ''a'') sample_open fmempty)" True
      config_default "10 ^ 30"]
  show ?thesis
    by (simp add: sample_request_def policy_default_def sample_ports_def sample_target_def sample_router_def)
qed

end
