(* ===== verification/RouterGuard.thy ===== *)
theory RouterGuard
  imports Failover Json
begin

text \<open>
  The door of the local router: header maps, the credentials a request may present (\<open>local_router/task_tokens.rs\<close> and the access token),
  the guard of \<open>local_router/server/guard.rs\<close>, the route of \<open>local_router/server/routing.rs\<close>, the headers sent to a target
  (\<open>outbound_headers\<close>, \<open>with_login_headers\<close> of \<open>server.rs\<close>) and the whole handler \<open>proxy_request\<close>. SHA-256, the URL, address
  and JSON parsers are arguments.
\<close>

unbundle bit_operations_syntax

section \<open>Header maps\<close>

text \<open>
  \<open>http::HeaderMap\<close>: lower-case names with one or more values each, in order. \<open>get\<close> reads the first value, \<open>remove\<close> and \<open>insert\<close> act on all.
\<close>

type_synonym HeaderMap = "(string \<times> string) list"

definition header_get :: "HeaderMap \<Rightarrow> string \<Rightarrow> string option" where
  "header_get hs name = map_of hs name"

definition header_get_all :: "HeaderMap \<Rightarrow> string \<Rightarrow> string list" where
  "header_get_all hs name = map snd (filter (\<lambda>(k, _). k = name) hs)"

definition header_remove :: "string \<Rightarrow> HeaderMap \<Rightarrow> HeaderMap" where
  "header_remove name hs = filter (\<lambda>(k, _). k \<noteq> name) hs"

definition header_insert :: "string \<Rightarrow> string \<Rightarrow> HeaderMap \<Rightarrow> HeaderMap" where
  "header_insert name v hs = header_remove name hs @ [(name, v)]"

definition header_or_insert :: "string \<Rightarrow> string \<Rightarrow> HeaderMap \<Rightarrow> HeaderMap" where
  "header_or_insert name v hs = (if header_get hs name = None then hs @ [(name, v)] else hs)"

definition header_str :: "HeaderMap \<Rightarrow> string \<Rightarrow> string option" where
  "header_str hs name = Option.bind (header_get hs name) header_text"

text \<open>\<open>HeaderValue::from_str\<close> and \<open>HeaderName::from_bytes\<close>.\<close>

definition header_value :: "string \<Rightarrow> string option" where
  "header_value v = (if list_all (\<lambda>c. 32 \<le> byte_of c \<and> byte_of c \<noteq> 127 \<or> byte_of c = 9) v then Some v else None)"

definition name_char :: "char \<Rightarrow> bool" where
  "name_char c \<longleftrightarrow> (let b = byte_of c in 48 \<le> b \<and> b \<le> 57 \<or> 65 \<le> b \<and> b \<le> 90 \<or> 97 \<le> b \<and> b \<le> 122)
     \<or> c \<in> set ''!#$%&*+-.^_`|~'' \<or> byte_of c = 39"

definition header_name :: "string \<Rightarrow> string option" where
  "header_name s = (if s \<noteq> [] \<and> list_all name_char s then Some (ascii_lower s) else None)"

definition eq_ignore_ascii_case :: "string \<Rightarrow> string \<Rightarrow> bool" where
  "eq_ignore_ascii_case a b \<longleftrightarrow> ascii_lower a = ascii_lower b"

fun split_on :: "char \<Rightarrow> string \<Rightarrow> string list" where
  "split_on c [] = [[]]"
| "split_on c (x # xs) = (if x = c then [] # split_on c xs
     else case split_on c xs of [] \<Rightarrow> [[x]] | y # ys \<Rightarrow> (x # y) # ys)"

definition ROUTE_AGENT_HEADER :: string where
  "ROUTE_AGENT_HEADER = ''x-aeroric-route-agent''"

definition ROUTER_TOKEN_HEADER :: string where
  "ROUTER_TOKEN_HEADER = ''x-aeroric-router-token''"

definition HOP_BY_HOP_HEADERS :: "string list" where
  "HOP_BY_HOP_HEADERS = [''connection'', ''keep-alive'', ''proxy-authenticate'', ''proxy-authorization'', ''proxy-connection'',
     ''te'', ''trailer'', ''trailers'', ''transfer-encoding'', ''upgrade'']"

section \<open>Task tokens\<close>

type_synonym Tokens = "(string, TaskGrant) fmap"

definition without_task :: "string \<Rightarrow> Tokens \<Rightarrow> Tokens" where
  "without_task task tokens = fmfilter (\<lambda>k. case fmlookup tokens k of Some g \<Rightarrow> grant_task g \<noteq> task | None \<Rightarrow> True) tokens"

text \<open>\<open>mint\<close>: two random UUIDs, the argument \<open>random\<close>, behind the prefix.\<close>

definition TOKEN_PREFIX :: string where
  "TOKEN_PREFIX = ''aeroric-task-''"

definition mint :: "string \<Rightarrow> string" where
  "mint random = TOKEN_PREFIX @ random"

definition issue :: "string \<Rightarrow> string \<Rightarrow> string option \<Rightarrow> Tokens \<Rightarrow> string \<times> Tokens" where
  "issue random task cfg tokens =
    (mint random, fmupd (mint random) \<lparr>grant_task = task, grant_config = cfg\<rparr> (without_task task tokens))"

definition revoke :: "string \<Rightarrow> Tokens \<Rightarrow> Tokens" where
  "revoke task tokens = without_task task tokens"

definition revoke_token :: "string \<Rightarrow> Tokens \<Rightarrow> Tokens" where
  "revoke_token token tokens = fmdrop token tokens"

definition token_lookup :: "Tokens \<Rightarrow> string \<Rightarrow> TaskGrant option" where
  "token_lookup tokens credential =
    (let c = trim credential in if prefix TOKEN_PREFIX c then fmlookup tokens c else None)"

section \<open>The guard\<close>

datatype Host = HostIpv4 u8 u8 u8 u8 | HostIpv6 "128 word" | HostDomain string

record GuardPorts =
  sha256 :: "string \<Rightarrow> u8 list"
  parses_as_ip :: "string \<Rightarrow> bool"
  origin_host :: "string \<Rightarrow> Host option option"
  parse_json :: "string \<Rightarrow> Value option"

text \<open>The fields of the running configuration that a request reads; the HTTP client, its proxy and usage recording belong to the attempt.\<close>

record 'u RouterRuntimeConfig =
  listen_address :: string
  port :: nat
  access_token :: string
  upstream_claude :: "'u RouterAgentRuntime"
  upstream_codex :: "'u RouterAgentRuntime"

definition upstreams_agent :: "'u RouterRuntimeConfig \<Rightarrow> RouterAgent \<Rightarrow> 'u RouterAgentRuntime" where
  "upstreams_agent cfg agent = (case agent of Claude \<Rightarrow> upstream_claude cfg | Codex \<Rightarrow> upstream_codex cfg)"

definition validate_listen_address :: "(string \<Rightarrow> bool) \<Rightarrow> string \<Rightarrow> nat \<Rightarrow> bool" where
  "validate_listen_address is_ip address0 p \<longleftrightarrow>
    1024 \<le> p \<and> p \<le> 65535 \<and>
    (let address = trim address0;
         inner = (case strip_prefix ''['' address of None \<Rightarrow> address
           | Some rest \<Rightarrow> if rest \<noteq> [] \<and> last rest = CHR '']'' then butlast rest else address)
     in eq_ignore_ascii_case address ''localhost'' \<or> is_ip inner)"

definition trimmed_header :: "HeaderMap \<Rightarrow> string \<Rightarrow> string option" where
  "trimmed_header hs name = (case header_str hs name of None \<Rightarrow> None | Some v \<Rightarrow> if trim v = [] then None else Some (trim v))"

definition origin_is_loopback :: "(string \<Rightarrow> Host option option) \<Rightarrow> string \<Rightarrow> bool" where
  "origin_is_loopback parse origin = (case parse origin of
     Some (Some (HostIpv4 a _ _ _)) \<Rightarrow> a = 127
   | Some (Some (HostIpv6 ip)) \<Rightarrow> ip = 1
   | Some (Some (HostDomain d)) \<Rightarrow> eq_ignore_ascii_case d ''localhost''
   | _ \<Rightarrow> False)"

definition request_is_cross_site :: "(string \<Rightarrow> Host option option) \<Rightarrow> HeaderMap \<Rightarrow> bool" where
  "request_is_cross_site parse hs \<longleftrightarrow>
    (case trimmed_header hs ''sec-fetch-site'' of Some site \<Rightarrow> eq_ignore_ascii_case site ''cross-site'' | None \<Rightarrow> False)
    \<or> (case trimmed_header hs ''origin'' of Some origin \<Rightarrow> \<not> origin_is_loopback parse origin | None \<Rightarrow> False)"

definition bearer_credential :: "string \<Rightarrow> string option" where
  "bearer_credential v = map_option trim (strip_prefix ''Bearer '' (trim v))"

definition router_credentials :: "HeaderMap \<Rightarrow> string list" where
  "router_credentials hs =
    map trim (List.map_filter (header_str hs) [ROUTER_TOKEN_HEADER, ''x-api-key''])
    @ (case Option.bind (header_str hs ''authorization'') bearer_credential of Some c \<Rightarrow> [c] | None \<Rightarrow> [])"

definition constant_time_secret_eq :: "(string \<Rightarrow> u8 list) \<Rightarrow> string \<Rightarrow> string \<Rightarrow> bool" where
  "constant_time_secret_eq digest provided expected \<longleftrightarrow>
    expected \<noteq> [] \<and> fold (\<lambda>(l, r) difference. difference OR (l XOR r)) (zip (digest provided) (digest expected)) (0 :: u8) = 0"

text \<open>What both the guard and the stripping ask of one credential.\<close>

definition credential_accepted :: "(string \<Rightarrow> u8 list) \<Rightarrow> Tokens \<Rightarrow> string \<Rightarrow> string \<Rightarrow> bool" where
  "credential_accepted digest tokens access c \<longleftrightarrow> token_lookup tokens c \<noteq> None \<or> constant_time_secret_eq digest c access"

definition request_is_authorized :: "GuardPorts \<Rightarrow> Tokens \<Rightarrow> 'u RouterRuntimeConfig \<Rightarrow> HeaderMap \<Rightarrow> bool" where
  "request_is_authorized G tokens cfg hs \<longleftrightarrow>
    validate_listen_address (parses_as_ip G) (listen_address cfg) (port cfg)
    \<and> list_ex (credential_accepted (sha256 G) tokens (access_token cfg)) (router_credentials hs)"

definition request_task_grant :: "Tokens \<Rightarrow> HeaderMap \<Rightarrow> TaskGrant option" where
  "request_task_grant tokens hs = (case List.map_filter (token_lookup tokens) (router_credentials hs) of [] \<Rightarrow> None | g # _ \<Rightarrow> Some g)"

definition strip_header :: "(string \<Rightarrow> u8 list) \<Rightarrow> Tokens \<Rightarrow> string \<Rightarrow> string \<Rightarrow> HeaderMap \<Rightarrow> HeaderMap" where
  "strip_header digest tokens access name hs = (case header_str hs name of
     Some v \<Rightarrow>
       if credential_accepted digest tokens access (trim (unwrap_or (strip_prefix ''Bearer '' (trim v)) (trim v)))
       then header_remove name hs else hs
   | None \<Rightarrow> hs)"

definition strip_router_credentials :: "(string \<Rightarrow> u8 list) \<Rightarrow> Tokens \<Rightarrow> string \<Rightarrow> HeaderMap \<Rightarrow> HeaderMap" where
  "strip_router_credentials digest tokens access hs =
    strip_header digest tokens access ''x-api-key'' (strip_header digest tokens access ''authorization''
      (header_remove ROUTER_TOKEN_HEADER hs))"

definition connection_headers :: "HeaderMap \<Rightarrow> string list" where
  "connection_headers hs = List.map_filter header_name (filter (\<lambda>v. v \<noteq> [])
     (map trim (concat (map (split_on CHR '','') (List.map_filter header_text (header_get_all hs ''connection''))))))"

definition filter_hop_by_hop :: "HeaderMap \<Rightarrow> HeaderMap" where
  "filter_hop_by_hop hs = fold header_remove (connection_headers hs) (fold header_remove HOP_BY_HOP_HEADERS hs)"

definition filter_request_headers :: "HeaderMap \<Rightarrow> HeaderMap" where
  "filter_request_headers hs = fold header_remove [''host'', ''content-length'', ROUTE_AGENT_HEADER, ROUTER_TOKEN_HEADER]
     (filter_hop_by_hop hs)"

section \<open>Routes\<close>

record SelectedRoute =
  sel_agent :: RouterAgent
  forward_path :: string
  sel_target :: "string option"

datatype CodexImagesEndpoint = Generations | Edits

fun images_path :: "CodexImagesEndpoint \<Rightarrow> string" where
  "images_path Generations = ''/images/generations''"
| "images_path Edits = ''/images/edits''"

definition strip_v1 :: "string \<Rightarrow> string" where
  "strip_v1 path = (case strip_prefix ''/v1'' path of Some rest \<Rightarrow> if prefix ''/'' rest then rest else path | None \<Rightarrow> path)"

definition from_forward_path :: "string \<Rightarrow> CodexImagesEndpoint option" where
  "from_forward_path path0 =
    (let path = strip_v1 (strip_v1 (trim_slashes path0)) in
     if eq_ignore_ascii_case path (images_path Generations) then Some Generations
     else if eq_ignore_ascii_case path (images_path Edits) then Some Edits
     else None)"

definition strip_agent_prefix :: "string \<Rightarrow> string \<Rightarrow> RouterAgent \<Rightarrow> (RouterAgent \<times> string \<times> string option) option" where
  "strip_agent_prefix path pre agent = (case strip_prefix pre path of
     None \<Rightarrow> None
   | Some after \<Rightarrow>
       if after \<noteq> [] \<and> \<not> prefix ''/'' after then None
       else let inner = unwrap_or (strip_prefix ''/'' after) after
            in (case Option.bind (strip_prefix ''targets/'' inner) (split_once CHR ''/'') of
                  Some (tid, rest) \<Rightarrow> Some (agent, ''/'' @ rest, if tid = [] then None else Some tid)
                | None \<Rightarrow> Some (agent, if inner = [] then ''/'' else ''/'' @ inner, None)))"

definition normalize_codex_path :: "string \<Rightarrow> string" where
  "normalize_codex_path path = (case strip_prefix ''/v1/v1/'' path of Some rest \<Rightarrow> ''/v1/'' @ rest | None \<Rightarrow> path)"

definition agent_marker :: "HeaderMap \<Rightarrow> string + RouterAgent option" where
  "agent_marker hs = (case header_get hs ROUTE_AGENT_HEADER of
     None \<Rightarrow> Inr None
   | Some v \<Rightarrow> (case header_text v of
       None \<Rightarrow> Inl ''invalid local router agent marker''
     | Some text \<Rightarrow>
         if ascii_lower (trim text) = ''claude'' then Inr (Some Claude)
         else if ascii_lower (trim text) = ''codex'' then Inr (Some Codex)
         else Inl ''invalid local router agent marker''))"

definition codex_endpoint :: "string \<Rightarrow> bool" where
  "codex_endpoint path \<longleftrightarrow> prefix ''/v1/responses'' path \<or> prefix ''/responses'' path \<or> prefix ''/v1/chat/completions'' path
     \<or> prefix ''/chat/completions'' path \<or> prefix ''/v1/models'' path \<or> path = ''/models'' \<or> from_forward_path path \<noteq> None"

definition selected :: "RouterAgent \<Rightarrow> string \<Rightarrow> string option \<Rightarrow> SelectedRoute" where
  "selected agent path tid = \<lparr>sel_agent = agent,
     forward_path = (if agent = Codex then normalize_codex_path path else path), sel_target = tid\<rparr>"

definition select_route :: "string \<Rightarrow> HeaderMap \<Rightarrow> string + SelectedRoute" where
  "select_route path hs = (case agent_marker hs of
     Inl e \<Rightarrow> Inl e
   | Inr marker \<Rightarrow>
       (case or_else (strip_agent_prefix path ''/claude'' Claude) (strip_agent_prefix path ''/codex'' Codex) of
          Some (agent, rest, tid) \<Rightarrow>
            if marker \<noteq> None \<and> marker \<noteq> Some agent then Inl ''local router path and agent marker disagree''
            else Inr (selected agent rest tid)
        | None \<Rightarrow>
            if prefix ''/v1/messages'' path then Inr (selected Claude path None)
            else if codex_endpoint path then Inr (selected Codex path None)
            else (case marker of Some agent \<Rightarrow> Inr (selected agent path None) | None \<Rightarrow> Inl ''unknown local router endpoint'')))"

datatype Pivot = ClaudeToResponses | CodexToMessages

definition is_codex_responses :: "SelectedRoute \<Rightarrow> bool" where
  "is_codex_responses r \<longleftrightarrow> sel_agent r = Codex \<and> trim_slashes (forward_path r) \<in> {''/responses'', ''/v1/responses''}"

definition is_claude_messages :: "SelectedRoute \<Rightarrow> bool" where
  "is_claude_messages r \<longleftrightarrow> sel_agent r = Claude \<and> trim_slashes (forward_path r) = ''/v1/messages''"

definition pivot :: "SelectedRoute \<Rightarrow> 'u UpstreamTarget \<Rightarrow> Pivot option" where
  "pivot r t = (if upstream_protocol t = Some Responses \<and> is_claude_messages r then Some ClaudeToResponses
     else if upstream_protocol t = Some Messages \<and> is_codex_responses r then Some CodexToMessages
     else None)"

definition bridges_responses_to_chat :: "SelectedRoute \<Rightarrow> 'u UpstreamTarget \<Rightarrow> bool" where
  "bridges_responses_to_chat r t \<longleftrightarrow> is_codex_responses r \<and> enable_chat_completions_proxy t \<and> pivot r t = None"

definition bridges_messages_to_chat :: "SelectedRoute \<Rightarrow> 'u UpstreamTarget \<Rightarrow> bool" where
  "bridges_messages_to_chat r t \<longleftrightarrow> is_claude_messages r \<and> enable_chat_completions_proxy t \<and> pivot r t = None"

subsection \<open>The upstream URL\<close>

definition IMAGES_SIBLING_SUFFIXES :: "string list" where
  "IMAGES_SIBLING_SUFFIXES = [''/images/generations'', ''/images/edits'', ''/chat/completions'', ''/responses/compact'', ''/responses'']"

definition rewrite_full_endpoint_base :: "string \<Rightarrow> CodexImagesEndpoint \<Rightarrow> string option" where
  "rewrite_full_endpoint_base base0 endpoint =
    (let base = trim_slashes base0
     in case find (\<lambda>s. suffix s (ascii_lower base)) IMAGES_SIBLING_SUFFIXES of
          None \<Rightarrow> None
        | Some s \<Rightarrow> Some (take (length base - length s) base @ images_path endpoint))"

definition segments :: "string \<Rightarrow> string list" where
  "segments path = filter (\<lambda>s. s \<noteq> []) (split_on CHR ''/'' (trim_slashes (dropWhile (\<lambda>c. c = CHR ''/'') path)))"

definition overlap :: "string list \<Rightarrow> string list \<Rightarrow> nat" where
  "overlap base request = unwrap_or
     (find (\<lambda>n. drop (length base - n) base = take n request) (rev [0..<Suc (min (length base) (length request))])) 0"

definition join_segments :: "string list \<Rightarrow> string list \<Rightarrow> string list" where
  "join_segments base request = base @ drop (overlap base request) request"

definition path_of :: "string list \<Rightarrow> string" where
  "path_of segs = (if segs = [] then ''/'' else concat (map (\<lambda>s. ''/'' @ s) segs))"

definition request_segments :: "string option \<Rightarrow> string \<Rightarrow> string \<Rightarrow> string list" where
  "request_segments host base_path path =
    (let segs = segments path
     in if (case host of Some h \<Rightarrow> eq_ignore_ascii_case h ''chatgpt.com'' | None \<Rightarrow> False)
          \<and> suffix ''/backend-api/codex'' (trim_slashes base_path) \<and> segs \<noteq> [] \<and> hd segs = ''v1''
        then tl segs else segs)"

definition build_upstream_url ::
  "'u UrlApi \<Rightarrow> (string option \<Rightarrow> 'u \<Rightarrow> 'u) \<Rightarrow> 'u UpstreamTarget \<Rightarrow> string \<Rightarrow> string option \<Rightarrow> 'u" where
  "build_upstream_url api set_query t path query =
    (let url = target_url t
     in case Option.bind (from_forward_path path) (rewrite_full_endpoint_base (url_path api url)) of
          Some full \<Rightarrow> set_query query (url_set_path api full url)
        | None \<Rightarrow> set_query query (url_set_path api
            (path_of (join_segments (segments (url_path api url)) (request_segments (url_host api url) (url_path api url) path))) url))"

section \<open>Headers sent to a target\<close>

definition ANTHROPIC_ONE_M_BETA :: string where
  "ANTHROPIC_ONE_M_BETA = ''context-1m-2025-08-07''"

definition INTERLEAVED_THINKING_BETA :: string where
  "INTERLEAVED_THINKING_BETA = ''interleaved-thinking-2025-05-14''"

definition CLAUDE_OAUTH_BETA :: string where
  "CLAUDE_OAUTH_BETA = ''oauth-2025-04-20''"

definition beta_values :: "HeaderMap \<Rightarrow> string list" where
  "beta_values hs = (case header_str hs ''anthropic-beta'' of
     None \<Rightarrow> [] | Some v \<Rightarrow> filter (\<lambda>b. b \<noteq> []) (map trim (split_on CHR '','' v)))"

fun join_commas :: "string list \<Rightarrow> string" where
  "join_commas [] = []"
| "join_commas [x] = x"
| "join_commas (x # xs) = x @ '','' @ join_commas xs"

definition add_beta :: "string \<Rightarrow> bool \<Rightarrow> string list \<Rightarrow> string list" where
  "add_beta b wanted bs = (if wanted \<and> \<not> list_ex (eq_ignore_ascii_case b) bs then bs @ [b] else bs)"

definition with_key :: "RouterAgent \<Rightarrow> string \<Rightarrow> HeaderMap \<Rightarrow> string + HeaderMap" where
  "with_key agent key hs0 =
    (if key = [] then Inr hs0
     else let hs = header_remove ''x-api-key'' (header_remove ''authorization'' hs0)
          in case (header_value key, header_value (''Bearer '' @ key)) of
               (Some k, Some b) \<Rightarrow> Inr (header_insert ''authorization'' b
                  (if agent = Claude then header_insert ''x-api-key'' k hs else hs))
             | _ \<Rightarrow> Inl ''target API key contains invalid header characters'')"

definition outbound_headers ::
  "HeaderMap \<Rightarrow> RouterAgent \<Rightarrow> 'u UpstreamTarget \<Rightarrow> bool \<Rightarrow> bool \<Rightarrow> bool \<Rightarrow> string + HeaderMap" where
  "outbound_headers original agent t bridge one_m interleaved =
    (let hs0 = header_remove ''content-length'' original;
         hs1 = (if bridge then header_insert ''content-type'' ''application/json'' (header_insert ''accept-encoding'' ''identity'' hs0) else hs0)
     in case with_key agent (api_key t) hs1 of
          Inl e \<Rightarrow> Inl e
        | Inr hs \<Rightarrow>
            if agent = Claude \<and> (one_m \<or> interleaved)
            then (case header_value (join_commas (add_beta INTERLEAVED_THINKING_BETA interleaved (add_beta ANTHROPIC_ONE_M_BETA one_m (beta_values hs)))) of
                    Some v \<Rightarrow> Inr (header_insert ''anthropic-beta'' v hs)
                  | None \<Rightarrow> Inl ''failed to construct anthropic-beta header'')
            else Inr hs)"

record LoginToken =
  login_access :: string
  account_id :: "string option"
  expires_at_ms :: "int option"

definition with_login_headers :: "HeaderMap \<Rightarrow> Harness \<Rightarrow> LoginToken \<Rightarrow> HeaderMap" where
  "with_login_headers hs0 h token =
    (let hs1 = header_remove ''x-api-key'' hs0;
         hs2 = (case header_value (''Bearer '' @ login_access token) of Some b \<Rightarrow> header_insert ''authorization'' b hs1 | None \<Rightarrow> hs1)
     in if h = HCodex
        then header_or_insert ''originator'' ''codex_cli_rs''
               (case Option.bind (account_id token) header_value of Some a \<Rightarrow> header_insert ''chatgpt-account-id'' a hs2 | None \<Rightarrow> hs2)
        else let betas = beta_values hs2;
                 betas' = (if CLAUDE_OAUTH_BETA \<in> set betas then betas else betas @ [CLAUDE_OAUTH_BETA])
             in header_or_insert ''anthropic-version'' ''2023-06-01''
                  (case header_value (join_commas betas') of Some v \<Rightarrow> header_insert ''anthropic-beta'' v hs2 | None \<Rightarrow> hs2))"

definition messages_headers :: "string \<Rightarrow> HeaderMap \<Rightarrow> HeaderMap" where
  "messages_headers key hs = header_or_insert ''anthropic-version'' ''2023-06-01''
     (case header_value key of Some k \<Rightarrow> if key \<noteq> [] then header_insert ''x-api-key'' k hs else hs | None \<Rightarrow> hs)"

text \<open>The headers of one attempt, once the login token (if the target needs one) is there.\<close>

definition attempt_headers ::
  "SelectedRoute \<Rightarrow> 'u UpstreamTarget \<Rightarrow> bool \<Rightarrow> bool \<Rightarrow> LoginToken option \<Rightarrow> HeaderMap \<Rightarrow> string + HeaderMap" where
  "attempt_headers route t one_m interleaved token original =
    (let translated = bridges_responses_to_chat route t \<or> bridges_messages_to_chat route t \<or> pivot route t \<noteq> None
     in case outbound_headers original (sel_agent route) t translated one_m interleaved of
          Inl e \<Rightarrow> Inl e
        | Inr hs0 \<Rightarrow>
            let hs = (if pivot route t = Some CodexToMessages then messages_headers (api_key t) hs0 else hs0)
            in Inr (case (target_login t, token) of (Some h, Some tk) \<Rightarrow> with_login_headers hs h tk | _ \<Rightarrow> hs))"

section \<open>The handler\<close>

definition request_model :: "(string \<Rightarrow> Value option) \<Rightarrow> string \<Rightarrow> string" where
  "request_model parse body = (case parse body of
     Some (Object r) \<Rightarrow> (case str_field r ''model'' of Some m \<Rightarrow> trim m | None \<Rightarrow> [])
   | _ \<Rightarrow> [])"

definition forwarded_headers :: "(string \<Rightarrow> u8 list) \<Rightarrow> Tokens \<Rightarrow> string \<Rightarrow> HeaderMap \<Rightarrow> HeaderMap" where
  "forwarded_headers digest tokens access hs = filter_request_headers (strip_router_credentials digest tokens access hs)"

text \<open>
  \<open>attempt\<close> is one attempt at a target, given the route and the filtered headers; \<open>body\<close> is absent when it is too large or cannot be read.
\<close>

definition proxy_request ::
  "GuardPorts \<Rightarrow> 'u RequestPorts \<Rightarrow> (SelectedRoute \<Rightarrow> HeaderMap \<Rightarrow> nat \<Rightarrow> 'u UpstreamTarget \<Rightarrow> AttemptResult option)
    \<Rightarrow> 'u ResolvePorts option \<Rightarrow> string + (string + ConnectionsDocument) \<Rightarrow> Tokens \<Rightarrow> 'u RouterRuntimeConfig
    \<Rightarrow> string \<Rightarrow> HeaderMap \<Rightarrow> string option \<Rightarrow> Router \<Rightarrow> Reply \<times> Router" where
  "proxy_request G ports attempt secrets data_dir tokens cfg path hs body r =
    (if request_is_cross_site (origin_host G) hs then (JsonError 403 ''cross-site browser requests are not allowed'', r)
     else case select_route path hs of
       Inl message \<Rightarrow> (JsonError 404 message, r)
     | Inr route \<Rightarrow>
         if \<not> request_is_authorized G tokens cfg hs then (JsonError 401 ''a valid local router access token is required'', r)
         else (case body of
           None \<Rightarrow> (JsonError 413 ''request body exceeds the local router limit'', r)
         | Some text \<Rightarrow>
             let grant = request_task_grant tokens hs;
                 fwd = forwarded_headers (sha256 G) tokens (access_token cfg) hs;
                 rt = upstreams_agent cfg (sel_agent route)
             in route_request (ports\<lparr>attempt_target := attempt route fwd\<rparr>) secrets data_dir rt grant
                  \<lparr>req_agent = sel_agent route, req_target = sel_target route, req_task = None, req_policy = runtime_policy rt,
                   req_path = forward_path route, req_model = request_model (parse_json G) text\<rparr> r))"

section \<open>What header operations keep\<close>

lemma header_get_remove [simp]: "header_get (header_remove n hs) m = (if m = n then None else header_get hs m)"
  by (induction hs) (auto simp: header_get_def header_remove_def)

lemma header_get_all_remove [simp]: "header_get_all (header_remove n hs) m = (if m = n then [] else header_get_all hs m)"
  by (induction hs) (auto simp: header_get_all_def header_remove_def)

lemma header_get_all_insert [simp]: "header_get_all (header_insert n v hs) m = (if m = n then [v] else header_get_all hs m)"
  using header_get_all_remove [of n hs m] by (auto simp: header_insert_def header_get_all_def)

lemma header_get_all_or_insert [simp]:
  "m \<noteq> n \<Longrightarrow> header_get_all (header_or_insert n v hs) m = header_get_all hs m"
  by (simp add: header_or_insert_def header_get_all_def)

lemma header_get_removes [simp]: "header_get (fold header_remove ns hs) m = (if m \<in> set ns then None else header_get hs m)"
  by (induction ns arbitrary: hs) auto

lemma header_get_all_None: "header_get hs n = None \<longleftrightarrow> header_get_all hs n = []"
  by (induction hs) (auto simp: header_get_def header_get_all_def)

lemma header_str_None [simp]: "header_get hs n = None \<Longrightarrow> header_str hs n = None"
  by (simp add: header_str_def)

lemma header_str_remove [simp]: "header_str (header_remove n hs) m = (if m = n then None else header_str hs m)"
  by (simp add: header_str_def)

section \<open>Comparing secrets\<close>

lemma xor_zero_iff: "(a :: u8) XOR b = 0 \<longleftrightarrow> a = b"
  by (metis xor.right_neutral xor.left_commute xor_self_eq)

lemma differences_zero:
  "fold (\<lambda>(l, r) difference. difference OR (l XOR r)) zs (d :: u8) = 0 \<longleftrightarrow> d = 0 \<and> (\<forall>(l, r) \<in> set zs. l = r)"
  by (induction zs arbitrary: d) (auto simp: or_eq_0_iff xor_zero_iff)

lemma constant_time_secret_eq_iff:
  assumes "length (digest provided) = length (digest expected)"
  shows "constant_time_secret_eq digest provided expected \<longleftrightarrow> expected \<noteq> [] \<and> digest provided = digest expected"
proof -
  have "(\<forall>(l, r) \<in> set (zip xs ys). l = r) \<longleftrightarrow> xs = ys" if "length xs = length ys" for xs ys :: "u8 list"
    using that by (induction xs ys rule: list_induct2) auto
  with assms show ?thesis by (simp add: constant_time_secret_eq_def differences_zero)
qed

section \<open>Credentials stay home\<close>

lemma router_credentials_iff:
  "c \<in> set (router_credentials hs) \<longleftrightarrow>
    (\<exists>n v. n \<in> {ROUTER_TOKEN_HEADER, ''x-api-key''} \<and> header_str hs n = Some v \<and> c = trim v)
    \<or> (\<exists>v. header_str hs ''authorization'' = Some v \<and> bearer_credential v = Some c)"
  by (auto simp: router_credentials_def List.map_filter_simps bind_eq_Some_conv split: option.splits)

lemma header_get_strip:
  "header_get (strip_header digest tokens access name hs) m = header_get hs m
    \<or> m = name \<and> header_get (strip_header digest tokens access name hs) m = None"
  by (auto simp: strip_header_def split: option.splits)

lemma strip_header_other: "m \<noteq> name \<Longrightarrow> header_str (strip_header digest tokens access name hs) m = header_str hs m"
  using header_get_strip [of digest tokens access name hs m] by (simp add: header_str_def)

lemma stripped_not_accepted:
  assumes "header_str (strip_header digest tokens access name hs) name = Some v"
  shows "header_str hs name = Some v
    \<and> \<not> credential_accepted digest tokens access (trim (unwrap_or (strip_prefix ''Bearer '' (trim v)) (trim v)))"
  using assms by (auto simp: strip_header_def split: option.splits if_splits)

lemma forwarded_get:
  assumes "header_str (forwarded_headers digest tokens access hs) m = Some v"
  shows "header_str (strip_router_credentials digest tokens access hs) m = Some v \<and> m \<noteq> ROUTER_TOKEN_HEADER"
  using assms
  by (auto simp: forwarded_headers_def filter_request_headers_def filter_hop_by_hop_def header_str_def bind_eq_Some_conv split: if_splits)

lemma header_names_differ: "ROUTER_TOKEN_HEADER \<noteq> ''x-api-key''" "ROUTER_TOKEN_HEADER \<noteq> ''authorization''"
  by (simp_all add: ROUTER_TOKEN_HEADER_def)

lemma forwarded_not_accepted:
  assumes "\<And>v. header_str hs ''x-api-key'' = Some v \<Longrightarrow> strip_prefix ''Bearer '' (trim v) = None"
    and "c \<in> set (router_credentials (forwarded_headers digest tokens access hs))"
  shows "\<not> credential_accepted digest tokens access c"
proof -
  let ?auth = "strip_header digest tokens access ''authorization'' (header_remove ROUTER_TOKEN_HEADER hs)"
  from assms(2) consider
    v where "header_str (strip_header digest tokens access ''x-api-key'' ?auth) ''x-api-key'' = Some v" "c = trim v"
  | v where "header_str (strip_header digest tokens access ''x-api-key'' ?auth) ''authorization'' = Some v" "bearer_credential v = Some c"
    unfolding router_credentials_iff by (auto dest!: forwarded_get simp: strip_router_credentials_def)
  then show ?thesis
  proof cases
    case 1
    from stripped_not_accepted [OF 1(1)] have v: "header_str ?auth ''x-api-key'' = Some v"
      "\<not> credential_accepted digest tokens access (trim (unwrap_or (strip_prefix ''Bearer '' (trim v)) (trim v)))" by blast+
    from v(1) have "header_str hs ''x-api-key'' = Some v"
      by (simp add: strip_header_other header_names_differ [symmetric])
    with assms(1) v(2) 1(2) show ?thesis by simp
  next
    case 2
    from 2(1) have "header_str ?auth ''authorization'' = Some v" by (simp add: strip_header_other)
    from stripped_not_accepted [OF this] 2(2) show ?thesis by (auto simp: bearer_credential_def)
  qed
qed

lemma with_key_sent:
  assumes "with_key agent key hs = Inr out" "key \<noteq> []"
  shows "header_get_all out ''authorization'' = [''Bearer '' @ key]" "set (header_get_all out ''x-api-key'') \<subseteq> {key}"
  using assms by (auto simp: with_key_def header_value_def Let_def split: if_splits)

lemma outbound_sent:
  assumes "outbound_headers original agent t bridge one_m interleaved = Inr out" "api_key t \<noteq> []"
  shows "header_get_all out ''authorization'' = [''Bearer '' @ api_key t]" "set (header_get_all out ''x-api-key'') \<subseteq> {api_key t}"
  using assms with_key_sent by (fastforce simp: outbound_headers_def Let_def split: sum.splits if_splits option.splits)+

lemma login_sent:
  assumes "header_value (''Bearer '' @ login_access tk) \<noteq> None"
  shows "header_get_all (with_login_headers hs h tk) ''authorization'' = [''Bearer '' @ login_access tk]"
    "header_get_all (with_login_headers hs h tk) ''x-api-key'' = []"
  using assms by (auto simp: with_login_headers_def header_value_def Let_def split: option.splits if_splits)

lemma attempt_sent:
  assumes "attempt_headers route t one_m interleaved token original = Inr out"
  shows "api_key t \<noteq> [] \<Longrightarrow> target_login t = None \<Longrightarrow>
      header_get_all out ''authorization'' = [''Bearer '' @ api_key t] \<and> set (header_get_all out ''x-api-key'') \<subseteq> {api_key t}"
    and "target_login t = Some h \<Longrightarrow> token = Some tk \<Longrightarrow> header_value (''Bearer '' @ login_access tk) \<noteq> None \<Longrightarrow>
      header_get_all out ''authorization'' = [''Bearer '' @ login_access tk] \<and> header_get_all out ''x-api-key'' = []"
proof -
  obtain hs where hs: "outbound_headers original (sel_agent route) t
      (bridges_responses_to_chat route t \<or> bridges_messages_to_chat route t \<or> pivot route t \<noteq> None) one_m interleaved = Inr hs"
    using assms by (auto simp: attempt_headers_def Let_def split: sum.splits)
  let ?hs = "if pivot route t = Some CodexToMessages then messages_headers (api_key t) hs else hs"
  have out: "out = (case (target_login t, token) of (Some h, Some tk) \<Rightarrow> with_login_headers ?hs h tk | _ \<Rightarrow> ?hs)"
    using assms hs by (simp add: attempt_headers_def Let_def)
  show "header_get_all out ''authorization'' = [''Bearer '' @ api_key t] \<and> set (header_get_all out ''x-api-key'') \<subseteq> {api_key t}"
    if "api_key t \<noteq> []" "target_login t = None"
    using that out outbound_sent [OF hs that(1)] by (auto simp: messages_headers_def header_value_def)
  show "header_get_all out ''authorization'' = [''Bearer '' @ login_access tk] \<and> header_get_all out ''x-api-key'' = []"
    if "target_login t = Some h" "token = Some tk" "header_value (''Bearer '' @ login_access tk) \<noteq> None"
    using that(1,2) out login_sent [OF that(3)] by simp
qed


section \<open>Only authorized requests are routed\<close>


section \<open>Token life\<close>

inductive token_step :: "Tokens \<Rightarrow> Tokens \<Rightarrow> bool" where
  issue_step: "mint random |\<notin>| fmdom tokens \<Longrightarrow> token_step tokens (snd (issue random task cfg tokens))"
| revoke_step: "token_step tokens (revoke task tokens)"
| revoke_token_step: "token_step tokens (revoke_token token tokens)"

definition one_token_each :: "Tokens \<Rightarrow> bool" where
  "one_token_each tokens \<longleftrightarrow>
    (\<forall>k g k' g'. fmlookup tokens k = Some g \<and> fmlookup tokens k' = Some g' \<and> grant_task g = grant_task g' \<longrightarrow> k = k')"

lemma lookup_without_task:
  "fmlookup (without_task task tokens) k = Some g \<longleftrightarrow> fmlookup tokens k = Some g \<and> grant_task g \<noteq> task"
  by (auto simp: without_task_def split: option.splits)

text \<open>
  Whatever tokens are issued and revoked, with fresh random parts, a task has at most one live token.
\<close>

theorem one_token_per_task: "token_step\<^sup>*\<^sup>* fmempty tokens \<Longrightarrow> one_token_each tokens"
proof (induction rule: rtranclp_induct)
  case (step t t')
  from step(2,3) show ?case
    by cases (auto simp: one_token_each_def issue_def revoke_def revoke_token_def lookup_without_task split: if_splits)
qed (simp add: one_token_each_def)

text \<open>
  A new token is found under its own text, it is the only one its task has, and no other task's token is touched.
\<close>

theorem issued_token_exact:
  assumes "list_all visible random" "mint random |\<notin>| fmdom tokens" "issue random task cfg tokens = (token, tokens')"
  shows "token_lookup tokens' token = Some \<lparr>grant_task = task, grant_config = cfg\<rparr>
    \<and> (\<forall>c g. token_lookup tokens' c = Some g \<and> grant_task g = task \<longrightarrow> trim c = token)
    \<and> (\<forall>c g. token_lookup tokens c = Some g \<and> grant_task g \<noteq> task \<longrightarrow> token_lookup tokens' c = Some g)"
proof -
  have "trim token = token"
    using assms(1,3) by (intro trim_visible) (auto simp: issue_def mint_def TOKEN_PREFIX_def visible_def byte_of_def)
  moreover have "prefix TOKEN_PREFIX token" using assms(3) by (auto simp: issue_def mint_def)
  moreover have "fmlookup tokens' k = Some g \<longleftrightarrow>
      (if k = token then g = \<lparr>grant_task = task, grant_config = cfg\<rparr> else fmlookup tokens k = Some g \<and> grant_task g \<noteq> task)" for k g
    using assms(3) by (auto simp: issue_def lookup_without_task)
  moreover have "fmlookup tokens token = None" using assms(2,3) by (auto simp: issue_def fmlookup_dom_iff)
  ultimately show ?thesis by (auto simp: token_lookup_def Let_def split: if_splits)
qed

section \<open>Upstream paths\<close>

lemma find_largest:
  assumes "P 0"
  shows "\<exists>n. find P (rev [0..<Suc m]) = Some n \<and> P n \<and> n \<le> m \<and> (\<forall>j \<le> m. P j \<longrightarrow> j \<le> n)"
proof (induction m)
  case (Suc m)
  then show ?case by (cases "P (Suc m)") (auto simp: le_Suc_eq)
qed (use assms in simp)

lemma common_overlap:
  assumes "base @ x = y @ request" "length y \<le> length base"
  shows "drop (length y) base = take (length base - length y) request"
proof -
  from assms(1) have "drop (length y) (base @ x) = drop (length y) (y @ request)" by (rule arg_cong)
  with assms(2) have "request = drop (length y) base @ x" by simp
  then show ?thesis by simp
qed

text \<open>
  The path sent upstream is the shortest one that begins with the segments of the target's base URL and ends with those of the request, so a
  version prefix both of them carry is not doubled.
\<close>

theorem join_segments_shortest:
  "prefix base (join_segments base request) \<and> suffix request (join_segments base request)
    \<and> (\<forall>w. prefix base w \<and> suffix request w \<longrightarrow> length (join_segments base request) \<le> length w)"
proof -
  let ?P = "\<lambda>n. drop (length base - n) base = take n request"
  obtain n where n: "overlap base request = n" "?P n" "n \<le> min (length base) (length request)"
    "\<And>j. j \<le> min (length base) (length request) \<Longrightarrow> ?P j \<Longrightarrow> j \<le> n"
    using find_largest [of ?P "min (length base) (length request)"] by (auto simp: overlap_def)
  have "join_segments base request = take (length base - n) base @ drop (length base - n) base @ drop n request"
    by (simp add: join_segments_def n(1) flip: append_assoc)
  then have "suffix request (join_segments base request)" by (simp add: n(2) suffix_def)
  moreover have "length (join_segments base request) \<le> length w" if ends: "prefix base w" "suffix request w" for w
  proof (rule ccontr)
    assume "\<not> ?thesis"
    then have short: "length w + n < length base + length request" using n(1,3) by (simp add: join_segments_def)
    obtain x y where w: "w = base @ x" "w = y @ request" using ends unfolding prefix_def suffix_def by blast
    have "length w = length base + length x" using w(1) by simp
    moreover have "length w = length y + length request" using w(2) by simp
    moreover define j where "j = length base - length y"
    ultimately have j: "j \<le> min (length base) (length request)" "n < j" "length y = length base - j" "length y \<le> length base"
      using short by auto
    have "?P j" using common_overlap [of base x y request] w j(4) by (simp flip: j(3) add: j_def)
    from n(4) [OF j(1) this] j(2) show False by simp
  qed
  ultimately show ?thesis by (simp add: join_segments_def)
qed

section \<open>An authorized request\<close>

definition sample_tokens :: Tokens where
  "sample_tokens = snd (issue ''ab'' ''t'' None fmempty)"

definition sample_headers :: HeaderMap where
  "sample_headers = [(''authorization'', ''Bearer aeroric-task-ab''), (''x-api-key'', ''sk'')]"

definition sample_guard :: GuardPorts where
  "sample_guard = \<lparr>sha256 = (\<lambda>_. replicate 32 0), parses_as_ip = (\<lambda>_. False), origin_host = (\<lambda>_. None), parse_json = (\<lambda>_. None)\<rparr>"

definition sample_config :: "unit RouterRuntimeConfig" where
  "sample_config = (let rt = \<lparr>runtime_targets = [sample_target ''a''], runtime_policy = policy_default\<rparr>
     in \<lparr>listen_address = ''localhost'', port = 4000, access_token = [], upstream_claude = rt, upstream_codex = rt\<rparr>)"

lemma sample_presented:
  "list_ex (credential_accepted (sha256 sample_guard) sample_tokens []) (router_credentials sample_headers)"
  "header_str sample_headers ''x-api-key'' = Some ''sk''" "strip_prefix ''Bearer '' (trim ''sk'') = None"
  by code_simp+


lemma sample_parsed:
  "\<not> request_is_cross_site (origin_host sample_guard) sample_headers" "eq_ignore_ascii_case (trim ''localhost'') ''localhost''"
  "select_route ''/v1/responses'' sample_headers = Inr \<lparr>sel_agent = Codex, forward_path = ''/v1/responses'', sel_target = None\<rparr>"
  "request_task_grant sample_tokens sample_headers = Some \<lparr>grant_task = ''t'', grant_config = None\<rparr>"
  by code_simp+

lemma sample_admitted: "request_is_authorized sample_guard sample_tokens sample_config sample_headers"
  using sample_presented(1) sample_parsed(2)
  by (simp add: request_is_authorized_def validate_listen_address_def sample_config_def Let_def)


end
