(* ===== verification/Spec2Isabelle.thy ===== *)
theory Spec2Isabelle
  imports TaskInvariant Terminal Utf8Projection Events SubmissionProps WriterLease RouterGuard
begin

text \<open>
  A verification library for the core of Aeroric, a workspace that runs coding agents (Codex, Claude and others) as tasks of
  projects. The model covers the parts of \<open>src/core/crates/aeroric-core\<close> on which a user's work and money depend: that a task is
  started once and its state survives a crash, that the data directory has one writer, that terminal output and events reach their
  readers without loss or repetition, and that a request sent through the local router goes to the right provider.

  \<^bold>\<open>The program and its parts.\<close> Tasks are untyped JSON rows in a \<open>tasks.json\<close> per project. A pure reducer (\<open>tasks/reducer.rs\<close>,
  \<open>tasks/session_owner.rs\<close>) edits lists of rows. The task service (\<open>tasks/service.rs\<close>) wraps it: every operation loads the rows, runs
  the reducer, and commits through the storage layer (\<open>storage/atomic.rs\<close>, \<open>storage/tasks.rs\<close>, \<open>storage/compat.rs\<close>), which refuses to
  overwrite bytes another process wrote. Before it hands a run to the executor the service claims the attempt in a ledger
  (\<open>tasks/operations.rs\<close>) that is itself stored. Submissions from the composer (\<open>tasks/submissions.rs\<close>) go through the service
  under a durable receipt. A lock file (\<open>storage_lock.rs\<close>) decides which process may write the directory at all. The output of a run goes to
  terminal streams (\<open>terminal/\<close>) and state changes to the event log (\<open>events/\<close>). An agent's requests go to the local router
  (\<open>local_router/\<close>), which chooses channels from the connections document (\<open>agent_connections/\<close>), asks a circuit breaker
  for each and fails over.

  \<^bold>\<open>Representation.\<close> A struct is a record, an enum a datatype, a \<open>HashMap\<close> or \<open>BTreeMap\<close> a finite map or, where order or duplicates
  matter, a list. A JSON object is a finite map from keys to values. Strings are lists of characters standing for
  UTF-8 bytes. Integers are words of their width where saturation or wrap-around matters (run numbers, breaker counters, \<open>usize\<close>
  subtraction, epoch seconds) and natural numbers elsewhere. A fallible operation on a state is a function to a result and the
  next state (type \<open>op\<close> of \<open>Prelude\<close>); both early returns and the state already changed at that point are kept. Storage faults are
  part of the state: every file operation may fail or stop half way. Hashing, the JSON printer and parser of
  serde, the clock, the executor, project look-up, URL parsing and one HTTP attempt are arguments of the definitions.

  \<^bold>\<open>Theories of the task core.\<close>
  \<^item> \<open>Prelude\<close>: Rust integer operations, decimal texts, the \<open>op\<close> combinators with the frame rules \<open>keeps\<close> and \<open>preserves\<close>, and
    the interfaces shared by components: \<open>row_edit\<close> with its extensions \<open>addressed_row_edit\<close> and \<open>settling_row_edit\<close> (an edit of one
    row keeps ids, touches nothing else, is settled by a second run) and \<open>bounded_history\<close> (a buffer that holds the last part of all that was appended).
  \<^item> \<open>Json\<close>, \<open>TaskProtocol\<close>: values and rows of \<open>serde_json\<close> as the code reads them; statuses, families and permissions of
    \<open>aeroric-protocol/src/task.rs\<close> with their words.
  \<^item> \<open>SessionOwner\<close>, \<open>Reducer\<close>, \<open>ReducerProps\<close>: \<open>tasks/session_owner.rs\<close> and \<open>tasks/reducer.rs\<close>, one definition per operation;
    each is an interpretation of a row edit. Reachable lists keep distinct ids and an end time only on ended rows; the effect of a status event,
    of a rollback, of attaching a session and of start-up repair is stated exactly.
  \<^item> \<open>Operations\<close>: the attempt ledger of \<open>tasks/operations.rs\<close> with its interface \<open>claim_book\<close>: an attempt is granted once until it is
    released.
  \<^item> \<open>LaunchPlan\<close>: from a row to a launch or resume request (\<open>tasks/launch_plan.rs\<close>, \<open>aeroric-protocol/src/project.rs\<close>).
  \<^item> \<open>Storage\<close>: atomic replacement step by step, the cover table, saving, removing and loading rows, the revision file, the sweep of old
    temporaries. Replacement is all or nothing at every fault, a foreign write is refused, a save loads back.
  \<^item> \<open>TaskService\<close>, \<open>TaskIntents\<close>, \<open>TaskRuns\<close>: \<open>tasks/service.rs\<close>: the write path, the fourteen intents, and start, resume,
    configuration switch, observation and reconciliation.
  \<^item> \<open>TaskServiceProps\<close>, \<open>TaskRunProps\<close>, \<open>TaskObserveProps\<close>: what a commit leaves on disk; persist before spawn and one spawn per attempt, proved
    once for start and resume in \<open>run_spawner\<close>; what an observation may do.
  \<^item> \<open>TaskInvariant\<close>: the service as a transition system over any sequence of operations and restarts, with the ledger invariant and the
    theorem that no run is launched twice, over the interfaces \<open>ledger_steps\<close>, \<open>call_steps\<close> and \<open>counted_spawner\<close>.
  \<^item> \<open>Submissions\<close>, \<open>SubmissionProps\<close>: receipts and canonical bytes (\<open>aeroric-protocol/src/submission.rs\<close>). An
    identity is executed at most once over restarts and storage faults; the bytes determine the payload (\<open>self_delimiting\<close>).

  \<^bold>\<open>Theories of streams and events.\<close>
  \<^item> \<open>Terminal\<close>: \<open>terminal/stream.rs\<close>, \<open>terminal/lease.rs\<close>, the service of \<open>terminal/pty.rs\<close> and replay. A byte cursor is answered from exactly
    the bytes of its run; only the last control ticket may write.
  \<^item> \<open>Utf8Projection\<close>: the incremental decoder equals decoding the whole stream, however it was cut.
  \<^item> \<open>Events\<close>: the event ring refines an unbounded log, and the pump delivers each event once and in order over lost polls.

  \<^bold>\<open>Theories of the writer lease and the router.\<close>
  \<^item> \<open>WriterLease\<close>: \<open>storage_lock.rs\<close>, the location policy of \<open>location.rs\<close>, the write permission of the contexts. Acquisition is
    a sequence of steps that processes interleave; an inductive relation adds exits and removal of the lock file. At most one process passes the
    write check, and a crash never blocks the next holder.
  \<^item> \<open>CircuitBreaker\<close>: \<open>local_router/circuit_breaker.rs\<close> with its counters at 32 bits. Every reachable breaker is well formed, and a
    target that answers again is closed within the success threshold.
  \<^item> \<open>Connections\<close>: the document of \<open>agent_connections/model.rs\<close>, the save check of \<open>store.rs\<close> and the edits of \<open>service.rs\<close>; edits keep
    what the check accepts.
  \<^item> \<open>Routing\<close>: \<open>agent_connections/routing.rs\<close>: which channels serve a model and their order under each strategy, the fairness of
    smooth weighted round robin, and agreement of the model menu with what can be served.
  \<^item> \<open>ConfigRoutes\<close>: \<open>local_router/config_routes.rs\<close> and \<open>reasoning_memory.rs\<close>: pins, cooldowns, fallbacks of a task and the
    targets they resolve to.
  \<^item> \<open>Failover\<close>: \<open>proxy_request\<close> of \<open>local_router/server.rs\<close>: candidates, permits, attempts, settlement, last resort and the reply, with other
    requests changing the breakers and routes between any two awaits.
  \<^item> \<open>RouterGuard\<close>: \<open>local_router/server/guard.rs\<close>, \<open>server/routing.rs\<close>, \<open>task_tokens.rs\<close> and the headers built in \<open>server.rs\<close>, up to the whole
    \<open>proxy_request\<close>. Only a request with a live task token or the access token is routed, no credential of the router is passed on, a task has at most
    one live token, and the upstream path is the shortest join of base and request.

  \<^bold>\<open>Bounds and termination.\<close> No definition uses fuel. Loops of the code are recursions over lists, or come with a termination proof (the
  decoder consumes at least one byte per turn, eviction retires one finished stream per turn, decimal printing divides). Waiting loops (the pump, retries
  across restarts) are sequences of steps of any length. Capacities of buffers, rings and tables are the constants of the code.

  \<^bold>\<open>Behaviour that differs from the code's own comments.\<close> Some theorems state such behaviour: the sweep of temporaries removes a fresh one; a
  failed launch leaves one row in the project's file; a silent run blocks later publications; removing the lock file during an acquisition
  admits two writers; a cancelled probe keeps a breaker half open; a login model is offered that no channel serves; a huge \<open>Retry-After\<close> wraps.

  \<^bold>\<open>Not modelled.\<close> The bridges between provider protocols and the HTTP exchange of one attempt, because their behaviour is fixed by external services;
  usage records and metrics, which no decision reads; file migration, backups and the keychain; the executor, processes and pseudo-terminals behind
  its interface; thread scheduling inside a service operation, which holds one lock for its whole body; and the parts of
  the workspace that the task core and the router do not reach: sessions of external agents, notebooks, canvas, knowledge, databases, git and
  file front ends, the host's request handlers, the command line, the encrypted relay and the Swift applications.
\<close>

end
